(* ===== verification/Prelude.thy ===== *)
theory Prelude
  imports
    "HOL-Library.Word"
    "HOL-Library.Multiset"
    "HOL-Library.Char_ord"
    "HOL-Library.List_Lexorder"
    "HOL-Library.Sublist"
begin

text \<open>
  The prelude of the guard-agent development: the machine types, the part of the Rust
  standard library the sources call (string trimming and splitting, saturating arithmetic,
  decimal and hexadecimal rendering, instants and durations), the collections of simplification
  facts, and the generic lemmas on lists, options and words that the component theories share.

  A Rust \<^verbatim>\<open>String\<close> is an Isabelle \<^typ>\<open>string\<close> whose \<^typ>\<open>char\<close>s are read as the code points
  U+0000 to U+00FF. On that range the Unicode tables the standard library consults
  (\<^verbatim>\<open>White_Space\<close>, the lower-case mapping) are finite and written out below, and the order on
  strings is the byte order of their UTF-8 encodings. An \<^verbatim>\<open>Instant\<close> is the number of
  nanoseconds on the monotonic clock, a \<^verbatim>\<open>Duration\<close> a number of nanoseconds.
\<close>

section \<open>Collections of facts\<close>

named_theorems std_simps \<open>unfolding rules of the modelled standard-library functions\<close>
named_theorems frame_simps \<open>what an operation leaves unchanged\<close>
named_theorems const_defs \<open>the named constants of the sources\<close>

section \<open>Machine types\<close>

type_synonym u8 = "8 word"
type_synonym u16 = "16 word"
type_synonym u32 = "32 word"
type_synonym u64 = "64 word"
type_synonym bytes = "u8 list"
type_synonym Instant = nat
type_synonym Duration = nat
type_synonym DateTime = int
type_synonym Uuid = string
type_synonym ('e, 'a) rust_result = "'e + 'a"

text \<open>\<^verbatim>\<open>Duration::from_secs\<close>, \<^verbatim>\<open>Duration::from_millis\<close>, and \<^verbatim>\<open>Instant::duration_since\<close>, which
  saturates at zero when the argument is later than the receiver.\<close>

definition from_secs :: "nat \<Rightarrow> Duration" where
  "from_secs s = s * 1000000000"

definition from_millis :: "nat \<Rightarrow> Duration" where
  "from_millis ms = ms * 1000000"

definition duration_since :: "Instant \<Rightarrow> Instant \<Rightarrow> Duration" where
  "duration_since now earlier = now - earlier"

text \<open>\<^verbatim>\<open>u32::saturating_add\<close>: the sum, or the largest value when it does not fit.\<close>

definition saturating_add :: "u32 \<Rightarrow> u32 \<Rightarrow> u32" where
  "saturating_add a b = (if unat a + unat b < 2 ^ 32 then a + b else 4294967295)"

lemma unat_saturating_add: "unat (saturating_add a b) = min (unat a + unat b) (2 ^ 32 - 1)"
  by (simp add: saturating_add_def unat_word_ariths)

lemma unat_u32_less: "unat (a :: u32) < 4294967296"
  using unsigned_less [of a, where ?'a = nat] by simp

lemma unat_u64_less: "unat (a :: u64) < 18446744073709551616"
  using unsigned_less [of a, where ?'a = nat] by simp

lemma saturating_add_one_pos [simp]: "0 < unat (saturating_add a 1)"
  by (simp add: unat_saturating_add)

section \<open>Strings\<close>

text \<open>\<^verbatim>\<open>char::is_whitespace\<close> on the modelled range: TAB to CR, space, NEL and NBSP.\<close>

definition is_whitespace :: "char \<Rightarrow> bool" where
  "is_whitespace c \<longleftrightarrow> (let n = (of_char c :: nat) in (9 \<le> n \<and> n \<le> 13) \<or> n = 32 \<or> n = 133 \<or> n = 160)"

definition trim_start :: "string \<Rightarrow> string" where
  "trim_start s = dropWhile is_whitespace s"

definition trim_end_where :: "(char \<Rightarrow> bool) \<Rightarrow> string \<Rightarrow> string" where
  "trim_end_where p s = rev (dropWhile p (rev s))"

definition trim :: "string \<Rightarrow> string" where
  "trim s = trim_end_where is_whitespace (trim_start s)"

definition trim_end_matches :: "char \<Rightarrow> string \<Rightarrow> string" where
  "trim_end_matches c s = trim_end_where (\<lambda>x. x = c) s"

definition starts_with :: "string \<Rightarrow> string \<Rightarrow> bool" where
  "starts_with pre s \<longleftrightarrow> prefix pre s"

definition strip_prefix :: "string \<Rightarrow> string \<Rightarrow> string option" where
  "strip_prefix pre s = (if prefix pre s then Some (drop (length pre) s) else None)"

definition strip_suffix :: "string \<Rightarrow> string \<Rightarrow> string option" where
  "strip_suffix suf s = (if suffix suf s then Some (take (length s - length suf) s) else None)"

text \<open>\<^verbatim>\<open>str::split_whitespace\<close>: the maximal runs of characters that are not white space.\<close>

fun split_ws_aux :: "string \<Rightarrow> string \<Rightarrow> string list" where
  "split_ws_aux acc [] = (if acc = [] then [] else [rev acc])"
| "split_ws_aux acc (c # cs) =
     (if is_whitespace c
      then (if acc = [] then split_ws_aux [] cs else rev acc # split_ws_aux [] cs)
      else split_ws_aux (c # acc) cs)"

definition split_whitespace :: "string \<Rightarrow> string list" where
  "split_whitespace s = split_ws_aux [] s"

fun join :: "string \<Rightarrow> string list \<Rightarrow> string" where
  "join sep [] = []"
| "join sep [x] = x"
| "join sep (x # y # ys) = x @ sep @ join sep (y # ys)"

text \<open>\<^verbatim>\<open>str::to_lowercase\<close> on the modelled range: \<^verbatim>\<open>A-Z\<close> and U+00C0 to U+00DE without the
  multiplication sign U+00D7 move up by 32; every other code point is its own lower case.\<close>

definition char_lower :: "char \<Rightarrow> char" where
  "char_lower c =
     (let n = (of_char c :: nat)
      in if (65 \<le> n \<and> n \<le> 90) \<or> (192 \<le> n \<and> n \<le> 222 \<and> n \<noteq> 215) then char_of (n + 32) else c)"

definition to_lowercase :: "string \<Rightarrow> string" where
  "to_lowercase s = map char_lower s"

text \<open>\<^verbatim>\<open>str::len\<close>: the length of the UTF-8 encoding, two bytes from U+0080 on.\<close>

definition utf8_len :: "string \<Rightarrow> nat" where
  "utf8_len s = (\<Sum>c\<leftarrow>s. if (of_char c :: nat) < 128 then 1 else 2)"

text \<open>\<^verbatim>\<open>str::as_bytes\<close>: the UTF-8 encoding.\<close>

definition char_utf8 :: "char \<Rightarrow> bytes" where
  "char_utf8 c =
     (let n = (of_char c :: nat)
      in if n < 128 then [of_nat n] else [of_nat (192 + n div 64), of_nat (128 + n mod 64)])"

definition as_bytes :: "string \<Rightarrow> bytes" where
  "as_bytes s = concat (map char_utf8 s)"

text \<open>Decimal and lower-case hexadecimal rendering, with the zero padding of \<^verbatim>\<open>{:0Nx}\<close>.\<close>

definition digit_char :: "nat \<Rightarrow> char" where
  "digit_char d = (if d < 10 then char_of (48 + d) else char_of (87 + d))"

fun show_base :: "nat \<Rightarrow> nat \<Rightarrow> string" where
  "show_base b n = (if b \<le> 1 \<or> n < b then [digit_char n] else show_base b (n div b) @ [digit_char (n mod b)])"

declare show_base.simps [simp del]

abbreviation show_nat :: "nat \<Rightarrow> string" where
  "show_nat n \<equiv> show_base 10 n"

definition show_int :: "int \<Rightarrow> string" where
  "show_int i = (if i < 0 then CHR ''-'' # show_nat (nat (- i)) else show_nat (nat i))"

definition pad_left :: "char \<Rightarrow> nat \<Rightarrow> string \<Rightarrow> string" where
  "pad_left c w s = replicate (w - length s) c @ s"

definition hex2 :: "u8 \<Rightarrow> string" where
  "hex2 b = [digit_char (unat b div 16), digit_char (unat b mod 16)]"

definition hex4 :: "nat \<Rightarrow> string" where
  "hex4 n = pad_left (CHR ''0'') 4 (show_base 16 n)"

definition hex_bytes :: "bytes \<Rightarrow> string" where
  "hex_bytes bs = concat (map hex2 bs)"

section \<open>Lists and options\<close>

lemma set_map_filter: "set (List.map_filter f xs) = {y. \<exists>x \<in> set xs. f x = Some y}"
  by (induction xs) (auto simp: List.map_filter_simps split: option.splits)

end
