(* ===== verification/Float64.thy ===== *)
theory Float64
  imports Prelude "HOL-Library.Log_Nat"
begin

text \<open>
  IEEE-754 binary64 as Rust's \<^verbatim>\<open>f64\<close> uses it. A finite value is the rational it denotes
  (the two zeros coincide: no operation of the sources tells them apart); the two infinities and
  NaN are separate constructors, so that the tests of the sources against non-finite input are
  branches of the model. Every arithmetic operation is the exact rational operation followed by
  \<open>round64\<close>, which rounds to nearest, ties to even, over the full exponent range with gradual
  underflow and overflow to infinity. The lemmas show that rounding is monotone and exact on
  representable values, which is all the component proofs use.
\<close>

datatype f64 = Fin rat | PInf | NInf | NaN

section \<open>Rounding\<close>

text \<open>The binary exponent of a positive rational.\<close>

definition flog2 :: "rat \<Rightarrow> int" where
  "flog2 x =
     (let (n, d) = quotient_of x; k = bitlen n - bitlen d
      in if 2 powi k \<le> x then k else k - 1)"

definition round_half_even :: "rat \<Rightarrow> int" where
  "round_half_even x =
     (let f = \<lfloor>x\<rfloor>; r = x - of_int f
      in if r < 1 / 2 then f else if 1 / 2 < r then f + 1 else if even f then f else f + 1)"

text \<open>The exponent of the unit in the last place: 53 significant bits, not below the subnormal
  unit \<open>2 powi - 1074\<close>.\<close>

definition ulp_exp :: "rat \<Rightarrow> int" where
  "ulp_exp x = max (flog2 x - 52) (- 1074)"

definition round_pos :: "rat \<Rightarrow> rat" where
  "round_pos x = of_int (round_half_even (x / 2 powi ulp_exp x)) * 2 powi ulp_exp x"

definition round64 :: "rat \<Rightarrow> f64" where
  "round64 x =
     (if x = 0 then Fin 0
      else let y = round_pos \<bar>x\<bar>
           in if 2 ^ 1024 \<le> y then (if x < 0 then NInf else PInf) else Fin (sgn x * y))"

section \<open>Operations\<close>

fun is_finite :: "f64 \<Rightarrow> bool" where
  "is_finite (Fin _) = True"
| "is_finite _ = False"

fun f64_mul :: "f64 \<Rightarrow> f64 \<Rightarrow> f64" where
  "f64_mul NaN _ = NaN"
| "f64_mul _ NaN = NaN"
| "f64_mul (Fin a) (Fin b) = round64 (a * b)"
| "f64_mul (Fin a) PInf = (if a = 0 then NaN else if 0 < a then PInf else NInf)"
| "f64_mul (Fin a) NInf = (if a = 0 then NaN else if 0 < a then NInf else PInf)"
| "f64_mul PInf (Fin b) = (if b = 0 then NaN else if 0 < b then PInf else NInf)"
| "f64_mul NInf (Fin b) = (if b = 0 then NaN else if 0 < b then NInf else PInf)"
| "f64_mul PInf PInf = PInf"
| "f64_mul PInf NInf = NInf"
| "f64_mul NInf PInf = NInf"
| "f64_mul NInf NInf = PInf"

fun f64_add :: "f64 \<Rightarrow> f64 \<Rightarrow> f64" where
  "f64_add NaN _ = NaN"
| "f64_add _ NaN = NaN"
| "f64_add (Fin a) (Fin b) = round64 (a + b)"
| "f64_add PInf NInf = NaN"
| "f64_add NInf PInf = NaN"
| "f64_add PInf _ = PInf"
| "f64_add _ PInf = PInf"
| "f64_add NInf _ = NInf"
| "f64_add _ NInf = NInf"

fun f64_neg :: "f64 \<Rightarrow> f64" where
  "f64_neg (Fin a) = Fin (- a)"
| "f64_neg PInf = NInf"
| "f64_neg NInf = PInf"
| "f64_neg NaN = NaN"

definition f64_sub :: "f64 \<Rightarrow> f64 \<Rightarrow> f64" where
  "f64_sub a b = f64_add a (f64_neg b)"

text \<open>Division, needed for finite operands with a positive divisor only (the callers divide by
  counts of at least one and by \<open>1e9\<close>); a zero or non-finite divisor is given IEEE's result up
  to the sign of a zero divisor, which is taken as positive.\<close>

fun f64_div :: "f64 \<Rightarrow> f64 \<Rightarrow> f64" where
  "f64_div NaN _ = NaN"
| "f64_div _ NaN = NaN"
| "f64_div (Fin a) (Fin b) =
     (if b = 0 then (if a = 0 then NaN else if 0 < a then PInf else NInf) else round64 (a / b))"
| "f64_div (Fin a) _ = Fin 0"
| "f64_div PInf (Fin b) = (if b < 0 then NInf else PInf)"
| "f64_div NInf (Fin b) = (if b < 0 then PInf else NInf)"
| "f64_div _ _ = NaN"

fun f64_lt :: "f64 \<Rightarrow> f64 \<Rightarrow> bool" where
  "f64_lt (Fin a) (Fin b) = (a < b)"
| "f64_lt (Fin _) PInf = True"
| "f64_lt NInf (Fin _) = True"
| "f64_lt NInf PInf = True"
| "f64_lt _ _ = False"

fun f64_le :: "f64 \<Rightarrow> f64 \<Rightarrow> bool" where
  "f64_le (Fin a) (Fin b) = (a \<le> b)"
| "f64_le NaN _ = False"
| "f64_le _ NaN = False"
| "f64_le NInf _ = True"
| "f64_le _ PInf = True"
| "f64_le _ _ = False"

text \<open>\<^verbatim>\<open>f64::min\<close> and \<^verbatim>\<open>f64::max\<close> return the other operand when one is NaN.\<close>

definition f64_min :: "f64 \<Rightarrow> f64 \<Rightarrow> f64" where
  "f64_min a b = (if a = NaN then b else if b = NaN then a else if f64_le a b then a else b)"

definition f64_max :: "f64 \<Rightarrow> f64 \<Rightarrow> f64" where
  "f64_max a b = (if a = NaN then b else if b = NaN then a else if f64_le a b then b else a)"

text \<open>\<^verbatim>\<open>n as f64\<close> for an unsigned \<open>n\<close>; \<^verbatim>\<open>2_f64.powi(k)\<close> for a non-negative \<open>k\<close>.\<close>

definition f64_of_nat :: "nat \<Rightarrow> f64" where
  "f64_of_nat n = round64 (of_nat n)"

definition f64_two_powi :: "nat \<Rightarrow> f64" where
  "f64_two_powi k = (if k < 1024 then Fin (2 ^ k) else PInf)"

text \<open>\<^verbatim>\<open>Duration::from_secs_f64\<close> rounds to the nearest nanosecond (ties to even) and panics,
  here \<^const>\<open>None\<close>, on negative, non-finite or too large input; \<^verbatim>\<open>Duration::as_secs_f64\<close>.\<close>

fun from_secs_f64 :: "f64 \<Rightarrow> Duration option" where
  "from_secs_f64 (Fin x) =
     (if x < 0 then None
      else let n = nat (round_half_even (x * 1000000000))
           in if n < 2 ^ 64 * 1000000000 then Some n else None)"
| "from_secs_f64 _ = None"

definition as_secs_f64 :: "Duration \<Rightarrow> f64" where
  "as_secs_f64 d =
     f64_add (f64_of_nat (d div 1000000000))
       (f64_div (f64_of_nat (d mod 1000000000)) (Fin 1000000000))"

text \<open>\<^verbatim>\<open>{:.1}\<close> of a finite non-negative value: the exact value rounded to one decimal, ties to
  even.\<close>

definition show_fixed1 :: "f64 \<Rightarrow> string" where
  "show_fixed1 x =
     (case x of
        Fin r \<Rightarrow> (let n = nat (round_half_even (\<bar>r\<bar> * 10))
                  in (if r < 0 then ''-'' else []) @ show_nat (n div 10) @ ''.'' @ show_nat (n mod 10))
      | PInf \<Rightarrow> ''inf'' | NInf \<Rightarrow> ''-inf'' | NaN \<Rightarrow> ''NaN'')"

section \<open>Rounding is monotone and exact on representable values\<close>

lemma two_powi_pos [simp]: "(0::rat) < 2 powi e"
  by (simp add: zero_less_power_int)

lemma two_powi_mono: "a \<le> b \<Longrightarrow> (2::rat) powi a \<le> 2 powi b"
  by (rule power_int_increasing) auto

lemma two_powi_less_iff: "(2::rat) powi a < 2 powi b \<longleftrightarrow> a < b"
  by (metis linorder_not_le numeral_eq_one_iff one_le_numeral order_less_le power_int_strict_increasing
      semiring_norm(85) two_powi_mono)

lemma two_powi_add: "(2::rat) powi (a + b) = 2 powi a * 2 powi b"
  by (simp add: power_int_add)

lemma two_powi_diff: "(2::rat) powi (a - b) = 2 powi a / 2 powi b"
  by (simp add: power_int_diff)

lemma two_powi_nat: "0 \<le> e \<Longrightarrow> (2::rat) powi e = of_int (2 ^ nat e)"
  by (metis int_nat_eq of_int_numeral of_int_power power_int_of_nat)

lemma flog2_bounds:
  assumes "0 < x"
  shows "2 powi flog2 x \<le> x" and "x < 2 powi (flog2 x + 1)"
proof -
  obtain n d where q: "quotient_of x = (n, d)" by (cases "quotient_of x")
  have d: "0 < d" using q by (rule quotient_of_denom_pos)
  have x: "x = of_int n / of_int d" using q by (rule quotient_of_div)
  have n: "0 < n" using assms d by (simp add: x zero_less_divide_iff)
  have bn: "2 ^ nat (bitlen n - 1) \<le> n" "n < 2 ^ nat (bitlen n)"
    and bd: "2 ^ nat (bitlen d - 1) \<le> d" "d < 2 ^ nat (bitlen d)"
    using bitlen_bounds [OF n] bitlen_bounds [OF d] by auto
  have pos: "0 \<le> bitlen n - 1" "0 \<le> bitlen d - 1"
    using n d bitlen_ge_iff_power [of 1 n] bitlen_ge_iff_power [of 1 d] by simp_all
  have N: "2 powi (bitlen n - 1) \<le> (of_int n :: rat)" "(of_int n :: rat) < 2 powi bitlen n"
    using bn pos by (simp_all add: two_powi_nat del: of_int_power)
  have D: "2 powi (bitlen d - 1) \<le> (of_int d :: rat)" "(of_int d :: rat) < 2 powi bitlen d"
    using bd pos by (simp_all add: two_powi_nat del: of_int_power)
  let ?k = "bitlen n - bitlen d"
  have "x \<ge> 2 powi (bitlen n - 1) / 2 powi bitlen d"
    unfolding x using N(1) D(2) d n by (intro frac_le) auto
  then have lo: "2 powi (?k - 1) \<le> x"
    by (simp add: two_powi_diff [symmetric] algebra_simps)
  have "x < 2 powi bitlen n / 2 powi (bitlen d - 1)"
    unfolding x using N(2) D(1) n d by (intro frac_less) auto
  then have hi: "x < 2 powi (?k + 1)"
    by (simp add: two_powi_diff [symmetric] algebra_simps)
  show "2 powi flog2 x \<le> x" "x < 2 powi (flog2 x + 1)"
    using lo hi by (auto simp: flog2_def q Let_def)
qed

lemma flog2_mono: "0 < x \<Longrightarrow> x \<le> y \<Longrightarrow> flog2 x \<le> flog2 y"
  using flog2_bounds [of x] flog2_bounds [of y]
  by (metis add_le_cancel_right leD le_less_trans less_le_trans linorder_not_le two_powi_less_iff zless_add1_eq
      order.strict_trans2 zle_add1_eq_le)

lemma flog2_less: "0 < x \<Longrightarrow> x < 2 powi e \<Longrightarrow> flog2 x < e"
  using flog2_bounds(1) [of x] by (metis le_less_trans two_powi_less_iff)

lemma round_half_even_int [simp]: "round_half_even (of_int n) = n"
  by (simp add: round_half_even_def)

lemma round_half_even_mono:
  assumes "x \<le> y" shows "round_half_even x \<le> round_half_even y"
proof (cases "\<lfloor>x\<rfloor> = \<lfloor>y\<rfloor>")
  case True
  with assms show ?thesis by (auto simp: round_half_even_def Let_def)
next
  case False
  with assms have "\<lfloor>x\<rfloor> + 1 \<le> \<lfloor>y\<rfloor>" using floor_mono [OF assms] by linarith
  then show ?thesis by (auto simp: round_half_even_def Let_def)
qed

lemma round_half_even_le: "x \<le> of_int n \<Longrightarrow> round_half_even x \<le> n"
  using round_half_even_mono [of x "of_int n"] by simp

lemma round_half_even_ge: "of_int n \<le> x \<Longrightarrow> n \<le> round_half_even x"
  using round_half_even_mono [of "of_int n" x] by simp

lemma round_pos_nonneg: "0 < x \<Longrightarrow> 0 \<le> round_pos x"
  using round_half_even_ge [of 0 "x / 2 powi ulp_exp x"] by (simp add: round_pos_def)

lemma round_pos_mono:
  assumes "0 < x" "x \<le> y" shows "round_pos x \<le> round_pos y"
proof (cases "ulp_exp x = ulp_exp y")
  case True
  have "round_half_even (x / 2 powi ulp_exp y) \<le> round_half_even (y / 2 powi ulp_exp y)"
    using assms by (intro round_half_even_mono divide_right_mono) (auto simp: less_imp_le)
  then show ?thesis unfolding round_pos_def True by (intro mult_right_mono) (auto simp: less_imp_le)
next
  case False
  have fl: "flog2 x < flog2 y" "ulp_exp y = flog2 y - 52" "ulp_exp x < ulp_exp y"
    using False flog2_mono [OF assms] by (auto simp: ulp_exp_def max_def split: if_splits)
  have y0: "0 < y" using assms by linarith
  let ?ex = "ulp_exp x" and ?m = "flog2 y"
  have "x < 2 powi ?m"
    using flog2_bounds(2) [OF assms(1)] two_powi_mono [of "flog2 x + 1" ?m] fl(1) by linarith
  then have "x / 2 powi ?ex \<le> 2 powi (?m - ?ex)"
    by (simp add: two_powi_diff divide_right_mono less_imp_le)
  also have "\<dots> = of_int (2 ^ nat (?m - ?ex))" using fl by (intro two_powi_nat) auto
  finally have "round_half_even (x / 2 powi ?ex) \<le> 2 ^ nat (?m - ?ex)"
    by (rule round_half_even_le)
  then have "of_int (round_half_even (x / 2 powi ?ex)) \<le> (2 :: rat) powi (?m - ?ex)"
    using fl by (subst two_powi_nat) (auto simp del: of_int_power)
  then have "round_pos x \<le> 2 powi (?m - ?ex) * 2 powi ?ex"
    unfolding round_pos_def by (intro mult_right_mono) (auto simp: less_imp_le)
  also have "\<dots> = 2 powi 52 * 2 powi ulp_exp y"
    by (simp only: two_powi_add [symmetric] fl(2)) simp
  also have "\<dots> \<le> round_pos y"
  proof -
    have "2 powi 52 \<le> y / 2 powi ulp_exp y"
      using flog2_bounds(1) [OF y0] by (simp add: fl(2) two_powi_diff field_simps)
    then have "of_int (2 ^ 52) \<le> y / 2 powi ulp_exp y" by simp
    then have "2 ^ 52 \<le> round_half_even (y / 2 powi ulp_exp y)" by (rule round_half_even_ge)
    then have "of_int (2 ^ 52) \<le> (of_int (round_half_even (y / 2 powi ulp_exp y)) :: rat)"
      by (simp only: of_int_le_iff)
    then show ?thesis unfolding round_pos_def by (intro mult_right_mono) (auto simp: less_imp_le)
  qed
  finally show ?thesis .
qed

text \<open>A value is representable when it is an integer multiple, by fewer than 53 bits, of a power
  of two not below the subnormal unit, and smaller than \<open>2 ^ 1024\<close>.\<close>

definition representable :: "rat \<Rightarrow> bool" where
  "representable x \<longleftrightarrow>
     (\<exists>m e. x = of_int m * 2 powi e \<and> \<bar>m\<bar> < 2 ^ 53 \<and> - 1074 \<le> e) \<and> \<bar>x\<bar> < 2 ^ 1024"

lemma round_pos_exact:
  assumes "0 < x" "x = of_int m * 2 powi e" "\<bar>m\<bar> < 2 ^ 53" "- 1074 \<le> e"
  shows "round_pos x = x"
proof -
  have "of_int m < (2 :: rat) powi 53"
    using assms(3) by (metis (mono_tags, lifting) abs_less_iff of_int_less_iff of_int_numeral
        of_int_power power_int_numeral)
  then have "x < 2 powi (53 + e)" by (simp add: assms(2) two_powi_add)
  then have "flog2 x < 53 + e" using assms(1) by (intro flog2_less)
  then have le: "ulp_exp x \<le> e" using assms(4) by (simp add: ulp_exp_def)
  have "x / 2 powi ulp_exp x = of_int m * 2 powi (e - ulp_exp x)"
    by (simp add: assms(2) two_powi_diff)
  also have "\<dots> = of_int (m * 2 ^ nat (e - ulp_exp x))"
    using le by (subst two_powi_nat) auto
  finally have eq: "x / 2 powi ulp_exp x = of_int (m * 2 ^ nat (e - ulp_exp x))" .
  then have "round_half_even (x / 2 powi ulp_exp x) = m * 2 ^ nat (e - ulp_exp x)"
    by (metis round_half_even_int)
  with eq show ?thesis unfolding round_pos_def by (metis nonzero_divide_eq_eq two_powi_pos less_irrefl)
qed

lemma round64_exact:
  assumes "representable x" shows "round64 x = Fin x"
proof (cases "x = 0")
  case False
  from assms obtain m e where x: "x = of_int m * 2 powi e" "\<bar>m\<bar> < 2 ^ 53" "- 1074 \<le> e"
    and b: "\<bar>x\<bar> < 2 ^ 1024" by (auto simp: representable_def)
  have "\<bar>x\<bar> = of_int \<bar>m\<bar> * 2 powi e" by (simp add: x(1) abs_mult less_imp_le)
  then have "round_pos \<bar>x\<bar> = \<bar>x\<bar>"
    using False x by (intro round_pos_exact [where m = "\<bar>m\<bar>" and e = e]) auto
  with b False show ?thesis by (auto simp: round64_def Let_def sgn_if abs_if)
qed (simp add: round64_def)

lemma round64_nat:
  assumes "n < 2 ^ 53" shows "round64 (of_nat n) = Fin (of_nat n)"
proof (rule round64_exact)
  have 1: "(of_nat n :: rat) = of_int (int n) * 2 powi 0" "\<bar>int n\<bar> < 2 ^ 53"
    using assms by (auto simp: of_nat_less_iff [symmetric] simp del: of_nat_less_iff)
  have "(of_nat n :: rat) < of_nat (2 ^ 53)" using assms by (simp only: of_nat_less_iff)
  also have "\<dots> \<le> 2 ^ 1024" by simp
  finally have 2: "\<bar>of_nat n :: rat\<bar> < 2 ^ 1024" by simp
  show "representable (of_nat n)" unfolding representable_def
    using 1 2 by (metis neg_le_0_iff_le zero_le_numeral)
qed

lemma f64_of_nat_exact [simp]: "n < 2 ^ 53 \<Longrightarrow> f64_of_nat n = Fin (of_nat n)"
  by (simp add: f64_of_nat_def round64_nat)

lemma round64_mono_pos:
  assumes "0 \<le> x" "x \<le> y" shows "f64_le (round64 x) (round64 y)"
proof (cases "x = 0")
  case True
  then show ?thesis using assms round_pos_nonneg [of y] by (auto simp: round64_def Let_def)
next
  case False
  with assms have "0 < x" "0 < y" by auto
  then show ?thesis using assms round_pos_mono [of x y] by (auto simp: round64_def Let_def)
qed

lemma round64_nonneg: "0 \<le> x \<Longrightarrow> f64_le (Fin 0) (round64 x)"
  using round64_mono_pos [of 0 x] by (simp add: round64_def)

lemma round64_le_representable:
  assumes "0 \<le> x" "x \<le> y" "representable y"
  obtains z where "round64 x = Fin z" "0 \<le> z" "z \<le> y"
  using round64_mono_pos [OF assms(1,2)] round64_nonneg [OF assms(1)] round64_exact [OF assms(3)]
  by (cases "round64 x") auto

lemma representable_scaled_nat:
  assumes "n < 2 ^ 53" and "(of_nat n :: rat) * 2 ^ k < 2 ^ 1024"
  shows "representable (of_nat n * 2 ^ k)"
  unfolding representable_def
proof (intro conjI exI)
  show "(of_nat n :: rat) * 2 ^ k = of_int (int n) * 2 powi int k"
    by (simp only: power_int_of_nat of_int_of_nat_eq)
  show "\<bar>int n\<bar> < 2 ^ 53"
    using assms(1) by (simp only: abs_of_nat of_nat_less_numeral_power_cancel_iff)
  show "- 1074 \<le> int k" by simp
  have "\<bar>(of_nat n :: rat) * 2 ^ k\<bar> = of_nat n * 2 ^ k" by (rule abs_of_nonneg) simp
  then show "\<bar>(of_nat n :: rat) * 2 ^ k\<bar> < 2 ^ 1024" using assms(2) by (simp only:)
qed

lemma round64_overflow:
  assumes "2 ^ 1024 \<le> x" shows "round64 x = PInf"
proof -
  define K where "K = (2 :: rat) ^ 1024"
  have K0: "0 < K" unfolding K_def by (rule zero_less_power) simp
  have Ke: "K = of_int 1 * 2 powi 1024"
    unfolding K_def by (simp only: power_int_numeral of_int_1 mult_1)
  have x: "K \<le> x" using assms by (simp only: K_def)
  have "round_pos K = K"
    using K0 Ke by (rule round_pos_exact) simp_all
  moreover have "round_pos K \<le> round_pos x" using K0 x by (rule round_pos_mono)
  ultimately have "K \<le> round_pos x" by simp
  moreover have "0 < x" using K0 x by linarith
  ultimately show ?thesis unfolding round64_def K_def [symmetric] by (simp add: Let_def)
qed

lemma from_secs_f64_nat [simp]: "s < 2 ^ 64 \<Longrightarrow> from_secs_f64 (Fin (of_nat s)) = Some (s * 1000000000)"
proof -
  assume s: "s < 2 ^ 64"
  have "round_half_even (of_nat s * 1000000000) = int (s * 1000000000)"
    using round_half_even_int [of "int (s * 1000000000)"] by simp
  with s show ?thesis by (simp add: nat_mult_distrib)
qed

lemma from_secs_f64_total:
  assumes "0 \<le> x" "x \<le> 1000000000"
  shows "\<exists>d. from_secs_f64 (Fin x) = Some d \<and> d \<le> 1000000000 * 1000000000"
proof -
  have "round_half_even (x * 1000000000) \<le> 1000000000 * 1000000000"
    using assms by (intro round_half_even_le) simp
  then have "nat (round_half_even (x * 1000000000)) \<le> 1000000000 * 1000000000" by simp
  then show ?thesis using assms by (simp add: Let_def)
qed

end
