(* ===== verification/Json.thy ===== *)
theory Json
  imports Float64
begin

text \<open>
  \<^verbatim>\<open>serde_json::Value\<close> and the canonical serializer of \<^verbatim>\<open>src/src/encryption.rs\<close>. An object is an
  association list in the iteration order of its map, with distinct keys (\<open>wf_value\<close>). The
  rendering of a floating-point number belongs to the \<^verbatim>\<open>serde_json\<close> crate and is the parameter
  \<open>fmt\<close>.
\<close>

datatype Number = PosInt nat | NegInt int | JFloat f64

datatype Value =
    Null
  | Bool bool
  | Number Number
  | String string
  | Array "Value list"
  | Object "(string \<times> Value) list"

fun number_to_string :: "(f64 \<Rightarrow> string) \<Rightarrow> Number \<Rightarrow> string" where
  "number_to_string fmt (PosInt n) = show_nat n"
| "number_to_string fmt (NegInt i) = show_int i"
| "number_to_string fmt (JFloat x) = fmt x"

fun is_object :: "Value \<Rightarrow> bool" where
  "is_object (Object _) = True"
| "is_object _ = False"

fun wf_value :: "Value \<Rightarrow> bool" where
  "wf_value (Array vs) = (\<forall>v \<in> set vs. wf_value v)"
| "wf_value (Object kvs) = (distinct (map fst kvs) \<and> (\<forall>kv \<in> set kvs. wf_value (snd kv)))"
| "wf_value _ = True"

section \<open>Escaping\<close>

text \<open>\<^verbatim>\<open>escape_string\<close>, one code point at a time (\<open>'"'\<close> is 34, \<open>'\'\<close> is 92): Python's short forms,
  \<^verbatim>\<open>\uXXXX\<close> outside printable ASCII, and a surrogate pair beyond the basic plane.\<close>

definition escape_code :: "nat \<Rightarrow> string" where
  "escape_code c =
     (if c = 34 then [CHR 0x5C, CHR 0x22]
      else if c = 92 then [CHR 0x5C, CHR 0x5C]
      else if c = 8 then [CHR 0x5C, CHR ''b'']
      else if c = 12 then [CHR 0x5C, CHR ''f'']
      else if c = 10 then [CHR 0x5C, CHR ''n'']
      else if c = 13 then [CHR 0x5C, CHR ''r'']
      else if c = 9 then [CHR 0x5C, CHR ''t'']
      else if c < 0x20 \<or> 0x7e < c then
        (if 0xffff < c
         then [CHR 0x5C, CHR ''u''] @ hex4 ((c - 0x10000) div 0x400 + 0xd800) @
              [CHR 0x5C, CHR ''u''] @ hex4 ((c - 0x10000) mod 0x400 + 0xdc00)
         else [CHR 0x5C, CHR ''u''] @ hex4 c)
      else [char_of c])"

definition escape_codes :: "nat list \<Rightarrow> string" where
  "escape_codes cs = concat (map escape_code cs)"

definition escape_string :: "string \<Rightarrow> string" where
  "escape_string s = escape_codes (map of_char s)"

section \<open>The canonical serializer\<close>

definition quoted :: "string \<Rightarrow> string" where
  "quoted s = [CHR 0x22] @ escape_string s @ [CHR 0x22]"

text \<open>\<^verbatim>\<open>write_canonical\<close>. The source sorts the keys and then looks each value up; here each value
  is rendered first and the rendered entries are sorted by key, which is the same list.\<close>

fun canonical_json :: "(f64 \<Rightarrow> string) \<Rightarrow> Value \<Rightarrow> string" where
  "canonical_json fmt Null = ''null''"
| "canonical_json fmt (Bool b) = (if b then ''true'' else ''false'')"
| "canonical_json fmt (Number n) = number_to_string fmt n"
| "canonical_json fmt (String s) = quoted s"
| "canonical_json fmt (Array vs) = ''['' @ join '','' (map (canonical_json fmt) vs) @ '']''"
| "canonical_json fmt (Object kvs) =
     [CHR 0x7B] @
     join '','' (map (\<lambda>(k, s). quoted k @ '':'' @ s)
       (sort_key fst (map (\<lambda>kv. (fst kv, canonical_json fmt (snd kv))) kvs))) @
     [CHR 0x7D]"

end
