(* ===== verification/Models.thy ===== *)
theory Models
  imports Json
begin

text \<open>
  The wire models of \<^verbatim>\<open>src/src/models.rs\<close>: events, metrics, the status report, the server's
  acknowledgement and the dynamic-rules document, with their constructors and builder methods.
  \<^verbatim>\<open>Uuid::new_v4()\<close> and \<^verbatim>\<open>Utc::now()\<close> are arguments of the constructors; a timestamp is a number
  of nanoseconds since the Unix epoch.
\<close>

section \<open>Event types and metric types\<close>

definition KNOWN_EVENT_TYPES :: "string list" where
  "KNOWN_EVENT_TYPES =
     [''ip_banned'', ''ip_unbanned'', ''ip_blocked'', ''ip_ban_failed'', ''rate_limited'',
      ''rate_limit_script_reloaded'', ''suspicious_request'', ''cloud_blocked'',
      ''country_blocked'', ''penetration_attempt'', ''behavioral_violation'',
      ''user_agent_blocked'', ''custom_request_check'', ''decorator_violation'',
      ''decoding_error'', ''detection_engine_callback_error'', ''geo_lookup_failed'',
      ''https_enforced'', ''pattern_anomaly_slow_execution'', ''pattern_anomaly_timeout'',
      ''pattern_anomaly_statistical_anomaly'', ''redis_connection'', ''redis_error'',
      ''dynamic_rule_applied'', ''dynamic_rule_updated'', ''path_excluded'', ''route_unresolved'',
      ''pattern_detected'', ''pattern_added'', ''pattern_removed'', ''access_denied'',
      ''authentication_failed'', ''content_filtered'', ''emergency_mode_activated'',
      ''emergency_mode_block'', ''dynamic_rule_violation'', ''security_bypass'',
      ''security_headers_applied'', ''csp_violation'']"

datatype MetricType =
    RequestCount | ResponseTime | ErrorRate | BandwidthUsage | ThreatLevel | BlockRate | CacheHitRate

fun metric_type_as_str :: "MetricType \<Rightarrow> string" where
  "metric_type_as_str RequestCount = ''request_count''"
| "metric_type_as_str ResponseTime = ''response_time''"
| "metric_type_as_str ErrorRate = ''error_rate''"
| "metric_type_as_str BandwidthUsage = ''bandwidth_usage''"
| "metric_type_as_str ThreatLevel = ''threat_level''"
| "metric_type_as_str BlockRate = ''block_rate''"
| "metric_type_as_str CacheHitRate = ''cache_hit_rate''"

section \<open>Events\<close>

record SecurityEvent =
  ev_idempotency_key :: Uuid
  ev_timestamp :: DateTime
  ev_event_type :: string
  ev_ip_address :: string
  ev_country :: "string option"
  ev_user_agent :: "string option"
  ev_endpoint :: "string option"
  ev_method :: "string option"
  ev_decorator_type :: "string option"
  ev_rule_type :: "string option"
  ev_pattern_matched :: "string option"
  ev_handler_name :: "string option"
  ev_action_taken :: string
  ev_reason :: string
  ev_status_code :: "u16 option"
  ev_response_time :: "f64 option"
  ev_metadata :: Value

definition event_new :: "Uuid \<Rightarrow> DateTime \<Rightarrow> string \<Rightarrow> SecurityEvent" where
  "event_new uuid now event_type =
     \<lparr> ev_idempotency_key = uuid, ev_timestamp = now, ev_event_type = event_type,
       ev_ip_address = [], ev_country = None, ev_user_agent = None, ev_endpoint = None,
       ev_method = None, ev_decorator_type = None, ev_rule_type = None,
       ev_pattern_matched = None, ev_handler_name = None, ev_action_taken = [], ev_reason = [],
       ev_status_code = None, ev_response_time = None, ev_metadata = Object [] \<rparr>"

definition with_ip_address :: "string \<Rightarrow> SecurityEvent \<Rightarrow> SecurityEvent" where
  "with_ip_address v e = e\<lparr>ev_ip_address := v\<rparr>"

definition with_country :: "string \<Rightarrow> SecurityEvent \<Rightarrow> SecurityEvent" where
  "with_country v e = e\<lparr>ev_country := Some v\<rparr>"

definition with_user_agent :: "string \<Rightarrow> SecurityEvent \<Rightarrow> SecurityEvent" where
  "with_user_agent v e = e\<lparr>ev_user_agent := Some v\<rparr>"

definition with_endpoint :: "string \<Rightarrow> SecurityEvent \<Rightarrow> SecurityEvent" where
  "with_endpoint v e = e\<lparr>ev_endpoint := Some v\<rparr>"

definition with_method :: "string \<Rightarrow> SecurityEvent \<Rightarrow> SecurityEvent" where
  "with_method v e = e\<lparr>ev_method := Some v\<rparr>"

definition with_decorator_type :: "string \<Rightarrow> SecurityEvent \<Rightarrow> SecurityEvent" where
  "with_decorator_type v e = e\<lparr>ev_decorator_type := Some v\<rparr>"

definition with_rule_type :: "string \<Rightarrow> SecurityEvent \<Rightarrow> SecurityEvent" where
  "with_rule_type v e = e\<lparr>ev_rule_type := Some v\<rparr>"

definition with_pattern_matched :: "string \<Rightarrow> SecurityEvent \<Rightarrow> SecurityEvent" where
  "with_pattern_matched v e = e\<lparr>ev_pattern_matched := Some v\<rparr>"

definition with_handler_name :: "string \<Rightarrow> SecurityEvent \<Rightarrow> SecurityEvent" where
  "with_handler_name v e = e\<lparr>ev_handler_name := Some v\<rparr>"

definition with_action_taken :: "string \<Rightarrow> SecurityEvent \<Rightarrow> SecurityEvent" where
  "with_action_taken v e = e\<lparr>ev_action_taken := v\<rparr>"

definition with_reason :: "string \<Rightarrow> SecurityEvent \<Rightarrow> SecurityEvent" where
  "with_reason v e = e\<lparr>ev_reason := v\<rparr>"

definition with_status_code :: "u16 \<Rightarrow> SecurityEvent \<Rightarrow> SecurityEvent" where
  "with_status_code v e = e\<lparr>ev_status_code := Some v\<rparr>"

definition with_response_time :: "f64 \<Rightarrow> SecurityEvent \<Rightarrow> SecurityEvent" where
  "with_response_time v e = e\<lparr>ev_response_time := Some v\<rparr>"

definition with_metadata :: "Value \<Rightarrow> SecurityEvent \<Rightarrow> SecurityEvent" where
  "with_metadata v e = e\<lparr>ev_metadata := v\<rparr>"

definition with_idempotency_key :: "Uuid \<Rightarrow> SecurityEvent \<Rightarrow> SecurityEvent" where
  "with_idempotency_key v e = e\<lparr>ev_idempotency_key := v\<rparr>"

definition with_timestamp :: "DateTime \<Rightarrow> SecurityEvent \<Rightarrow> SecurityEvent" where
  "with_timestamp v e = e\<lparr>ev_timestamp := v\<rparr>"

section \<open>Metrics\<close>

text \<open>A \<^verbatim>\<open>BTreeMap<String, String>\<close> is an association list sorted by key; insertion keeps the
  order and replaces the value of a present key.\<close>

fun btree_insert :: "'k::linorder \<Rightarrow> 'v \<Rightarrow> ('k \<times> 'v) list \<Rightarrow> ('k \<times> 'v) list" where
  "btree_insert k v [] = [(k, v)]"
| "btree_insert k v ((k', v') # rest) =
     (if k < k' then (k, v) # (k', v') # rest
      else if k = k' then (k, v) # rest
      else (k', v') # btree_insert k v rest)"

record SecurityMetric =
  mt_timestamp :: DateTime
  mt_metric_type :: MetricType
  mt_value :: f64
  mt_endpoint :: "string option"
  mt_tags :: "(string \<times> string) list"

definition metric_new :: "DateTime \<Rightarrow> MetricType \<Rightarrow> f64 \<Rightarrow> SecurityMetric" where
  "metric_new now metric_type value =
     \<lparr> mt_timestamp = now, mt_metric_type = metric_type, mt_value = value, mt_endpoint = None,
       mt_tags = [] \<rparr>"

definition metric_with_endpoint :: "string \<Rightarrow> SecurityMetric \<Rightarrow> SecurityMetric" where
  "metric_with_endpoint v m = m\<lparr>mt_endpoint := Some v\<rparr>"

definition metric_with_tag :: "string \<Rightarrow> string \<Rightarrow> SecurityMetric \<Rightarrow> SecurityMetric" where
  "metric_with_tag k v m = m\<lparr>mt_tags := btree_insert k v (mt_tags m)\<rparr>"

definition metric_with_timestamp :: "DateTime \<Rightarrow> SecurityMetric \<Rightarrow> SecurityMetric" where
  "metric_with_timestamp v m = m\<lparr>mt_timestamp := v\<rparr>"

section \<open>Status and acknowledgement\<close>

datatype AgentHealth = Healthy | Degraded | HealthFailed

record AgentStatus =
  st_timestamp :: DateTime
  st_status :: AgentHealth
  st_uptime :: f64
  st_events_sent :: u64
  st_events_failed :: u64
  st_buffer_size :: u64
  st_last_flush :: "DateTime option"
  st_errors :: "string list"

record TelemetryAck =
  ack_success :: "bool option"
  ack_errors :: "string list option"

section \<open>Dynamic rules\<close>

record DynamicRules =
  dr_rule_id :: string
  dr_version :: u64
  dr_timestamp :: DateTime
  dr_expires_at :: "DateTime option"
  dr_ttl :: u64
  dr_ip_blacklist :: "string list"
  dr_ip_whitelist :: "string list"
  dr_ip_ban_duration :: u64
  dr_blocked_countries :: "string list"
  dr_whitelist_countries :: "string list"
  dr_global_rate_limit :: "u64 option"
  dr_global_rate_window :: "u64 option"
  dr_endpoint_rate_limits :: "(string \<times> u64 \<times> u64) list"
  dr_blocked_cloud_providers :: "string list"
  dr_blocked_user_agents :: "string list"
  dr_suspicious_patterns :: "string list"
  dr_enable_penetration_detection :: "bool option"
  dr_enable_ip_banning :: "bool option"
  dr_enable_rate_limiting :: "bool option"
  dr_auto_ban_threshold :: "u64 option"
  dr_auto_ban_duration :: "u64 option"
  dr_enable_rate_limit_auto_ban :: "bool option"
  dr_emergency_mode :: bool
  dr_emergency_whitelist :: "string list"
  dr_emergency_whitelist_only :: bool
  dr_message :: "string option"

definition rules_default :: "DateTime \<Rightarrow> DynamicRules" where
  "rules_default now =
     \<lparr> dr_rule_id = ''default-rule'', dr_version = 1, dr_timestamp = now, dr_expires_at = None,
       dr_ttl = 300, dr_ip_blacklist = [], dr_ip_whitelist = [], dr_ip_ban_duration = 3600,
       dr_blocked_countries = [], dr_whitelist_countries = [], dr_global_rate_limit = None,
       dr_global_rate_window = None, dr_endpoint_rate_limits = [],
       dr_blocked_cloud_providers = [], dr_blocked_user_agents = [], dr_suspicious_patterns = [],
       dr_enable_penetration_detection = None, dr_enable_ip_banning = None,
       dr_enable_rate_limiting = None, dr_auto_ban_threshold = None, dr_auto_ban_duration = None,
       dr_enable_rate_limit_auto_ban = None, dr_emergency_mode = False,
       dr_emergency_whitelist = [], dr_emergency_whitelist_only = False, dr_message = None \<rparr>"

section \<open>Properties of the tag map\<close>

lemma map_of_btree_insert: "map_of (btree_insert k v m) = (map_of m)(k \<mapsto> v)"
  by (induction k v m rule: btree_insert.induct) (auto simp: fun_eq_iff)

lemma set_fst_btree_insert: "set (map fst (btree_insert k v m)) = insert k (set (map fst m))"
  by (induction k v m rule: btree_insert.induct) auto

lemma sorted_btree_insert:
  "sorted_wrt (<) (map fst m) \<Longrightarrow> sorted_wrt (<) (map fst (btree_insert k v m))"
proof (induction k v m rule: btree_insert.induct)
  case (2 k v k' v' rest)
  have "set (map fst (btree_insert k v rest)) = insert k (set (map fst rest))"
    by (rule set_fst_btree_insert)
  with 2 show ?case by (auto simp: less_trans)
qed simp

end
