(* ===== verification/Utils.thy ===== *)
theory Utils
  imports Models
begin

text \<open>
  The shared helpers of \<^verbatim>\<open>src/src/utils.rs\<close>: backoff arithmetic, \<^verbatim>\<open>Retry-After\<close> parsing,
  identifiers, response summaries, truncation, IP hashing, compression, and the redactor with its
  two clients. The clock and the entropy source are arguments; SHA-256 and gzip belong to crates
  outside the repository and are parameters.
\<close>

definition MAX_REDACT_DEPTH :: nat where [const_defs]: "MAX_REDACT_DEPTH = 10"
definition MAX_DETAIL_CHARS :: nat where [const_defs]: "MAX_DETAIL_CHARS = 300"
definition REDACTED_PLACEHOLDER :: string where "REDACTED_PLACEHOLDER = ''[REDACTED]''"
definition HASH_IP_HEX_CHARS :: nat where [const_defs]: "HASH_IP_HEX_CHARS = 16"
definition TRUNCATION_INDICATOR :: string where "TRUNCATION_INDICATOR = ''...[TRUNCATED]''"

section \<open>Backoff and Retry-After\<close>

text \<open>\<^verbatim>\<open>i32::try_from(attempt).unwrap_or(i32::MAX)\<close> is the clamp of the exponent.\<close>

definition calculate_backoff_delay :: "u32 \<Rightarrow> f64 \<Rightarrow> f64 \<Rightarrow> f64" where
  "calculate_backoff_delay attempt base mx =
     (let exponent = min (unat attempt) (2 ^ 31 - 1);
          raw = f64_mul base (f64_two_powi exponent)
      in if is_finite raw then f64_min raw mx else mx)"

text \<open>\<^verbatim>\<open>str::parse::<f64>\<close>: an optional sign, then \<^verbatim>\<open>inf\<close>, \<^verbatim>\<open>infinity\<close> or \<^verbatim>\<open>nan\<close> in any case, or
  digits with an optional fraction (at least one digit in all) and an optional exponent; the value
  is the exact decimal, correctly rounded.\<close>

definition is_digit :: "char \<Rightarrow> bool" where
  "is_digit c \<longleftrightarrow> (let n = (of_char c :: nat) in 48 \<le> n \<and> n \<le> 57)"

definition digits_value :: "string \<Rightarrow> nat" where
  "digits_value s = foldl (\<lambda>acc c. acc * 10 + (of_char c - 48)) 0 s"

fun split_sign :: "string \<Rightarrow> bool \<times> string" where
  "split_sign [] = (False, [])"
| "split_sign (c # cs) =
     (if c = CHR ''-'' then (True, cs) else if c = CHR ''+'' then (False, cs) else (False, c # cs))"

definition parse_exponent :: "string \<Rightarrow> int option" where
  "parse_exponent s =
     (case s of
        [] \<Rightarrow> Some 0
      | c # cs \<Rightarrow>
          (if c = CHR ''e'' \<or> c = CHR ''E'' then
             (let (neg, ds) = split_sign cs
              in if ds = [] \<or> \<not> list_all is_digit ds then None
                 else Some (if neg then - int (digits_value ds) else int (digits_value ds)))
           else None))"

definition parse_decimal :: "string \<Rightarrow> rat option" where
  "parse_decimal s =
     (let ip = takeWhile is_digit s; r1 = dropWhile is_digit s;
          (fp, r2) = (case r1 of
                        [] \<Rightarrow> ([], [])
                      | c # cs \<Rightarrow> if c = CHR ''.'' then (takeWhile is_digit cs, dropWhile is_digit cs)
                                  else ([], r1))
      in if ip = [] \<and> fp = [] then None
         else case parse_exponent r2 of
                None \<Rightarrow> None
              | Some e \<Rightarrow> Some (of_nat (digits_value (ip @ fp)) * 10 powi (e - int (length fp))))"

definition parse_f64 :: "string \<Rightarrow> f64 option" where
  "parse_f64 s =
     (let (neg, body) = split_sign s; low = to_lowercase body
      in if low = ''inf'' \<or> low = ''infinity'' then Some (if neg then NInf else PInf)
         else if low = ''nan'' then Some NaN
         else case parse_decimal body of
                None \<Rightarrow> None
              | Some r \<Rightarrow> Some (round64 (if neg then - r else r)))"

definition parse_retry_after_seconds :: "string option \<Rightarrow> f64 \<Rightarrow> f64" where
  "parse_retry_after_seconds header dflt =
     (case header of
        None \<Rightarrow> dflt
      | Some raw \<Rightarrow>
          (case parse_f64 (trim raw) of
             Some seconds \<Rightarrow> if is_finite seconds then f64_max seconds (Fin 0) else dflt
           | None \<Rightarrow> dflt))"

section \<open>Identifiers\<close>

text \<open>\<open>sys_ns\<close> is the system time in nanoseconds relative to the epoch (before the epoch the
  sources fall back to zero, as \<^const>\<open>nat\<close> does), \<open>uuid\<close> the 32 hexadecimal digits drawn.\<close>

definition generate_batch_id :: "int \<Rightarrow> string \<Rightarrow> string" where
  "generate_batch_id sys_ns uuid = show_nat (nat sys_ns div 1000000) @ ''-'' @ take 8 uuid"

definition generate_short_key :: "int \<Rightarrow> string \<Rightarrow> string \<Rightarrow> string" where
  "generate_short_key sys_ns uuid pre = pre @ ''_'' @ show_nat (nat sys_ns) @ ''_'' @ take 8 uuid"

section \<open>Text helpers\<close>

definition summarize_response_body :: "string \<Rightarrow> string" where
  "summarize_response_body body =
     (let collapsed = join '' '' (split_whitespace body)
      in if length collapsed \<le> MAX_DETAIL_CHARS then collapsed
         else take MAX_DETAIL_CHARS collapsed @ ''...'')"

definition truncate_payload :: "string \<Rightarrow> nat \<Rightarrow> string" where
  "truncate_payload payload max_size =
     (if length payload \<le> max_size then payload else take max_size payload @ TRUNCATION_INDICATOR)"

definition hash_ip :: "(bytes \<Rightarrow> bytes) \<Rightarrow> string \<Rightarrow> string \<Rightarrow> string" where
  "hash_ip sha256 ip salt = take HASH_IP_HEX_CHARS (hex_bytes (sha256 (as_bytes (ip @ salt))))"

definition gzip_bytes :: "(bytes \<Rightarrow> bytes option) \<Rightarrow> bytes \<Rightarrow> bytes" where
  "gzip_bytes gz body = (case gz body of Some compressed \<Rightarrow> compressed | None \<Rightarrow> body)"

section \<open>The redactor\<close>

record Redactor =
  redact_keys :: "string list"

definition redactor_new :: "string list \<Rightarrow> Redactor" where
  "redactor_new sensitive_keys =
     \<lparr> redact_keys = filter (\<lambda>k. k \<noteq> []) (map (\<lambda>k. to_lowercase (trim k)) sensitive_keys) \<rparr>"

definition is_sensitive :: "Redactor \<Rightarrow> string \<Rightarrow> bool" where
  "is_sensitive r key = (to_lowercase (trim key) \<in> set (redact_keys r))"

function redact_inner :: "Redactor \<Rightarrow> Value \<Rightarrow> nat \<Rightarrow> Value" where
  "redact_inner r v depth =
     (if MAX_REDACT_DEPTH \<le> depth then v
      else case v of
             Object m \<Rightarrow>
               Object (map (\<lambda>kv. (fst kv, if is_sensitive r (fst kv) then String REDACTED_PLACEHOLDER
                                          else redact_inner r (snd kv) (depth + 1))) m)
           | Array items \<Rightarrow> Array (map (\<lambda>x. redact_inner r x (depth + 1)) items)
           | _ \<Rightarrow> v)"
  by pat_completeness auto
termination
  by (relation "measure (\<lambda>(r, v, depth). MAX_REDACT_DEPTH - depth)") auto

declare redact_inner.simps [simp del]

definition redact_value :: "Redactor \<Rightarrow> Value \<Rightarrow> Value" where
  "redact_value r v = redact_inner r v 0"

definition redact_tags :: "Redactor \<Rightarrow> (string \<times> string) list \<Rightarrow> (string \<times> string) list" where
  "redact_tags r tags =
     map (\<lambda>kv. (fst kv, if is_sensitive r (fst kv) then REDACTED_PLACEHOLDER else snd kv)) tags"

definition redact_event :: "Redactor \<Rightarrow> SecurityEvent \<Rightarrow> SecurityEvent" where
  "redact_event r e = e\<lparr>ev_metadata := redact_value r (ev_metadata e)\<rparr>"

definition redact_metric :: "Redactor \<Rightarrow> SecurityMetric \<Rightarrow> SecurityMetric" where
  "redact_metric r m = m\<lparr>mt_tags := redact_tags r (mt_tags m)\<rparr>"

section \<open>Properties of the backoff and of Retry-After\<close>

lemma f64_min_le: "f64_le (Fin 0) a \<Longrightarrow> 0 \<le> m \<Longrightarrow> \<exists>z. f64_min a (Fin m) = Fin z \<and> 0 \<le> z \<and> z \<le> m"
  by (cases a) (auto simp: f64_min_def)

text \<open>Whatever the base, as long as it is not a negative number, the delay is a finite value
  between zero and the cap: a NaN or infinite base falls back to the cap.\<close>

lemma calculate_backoff_delay_bounds:
  assumes "0 \<le> m" and "\<not> f64_lt base (Fin 0)"
  shows "\<exists>z. calculate_backoff_delay n base (Fin m) = Fin z \<and> 0 \<le> z \<and> z \<le> m"
proof -
  let ?raw = "f64_mul base (f64_two_powi (min (unat n) (2 ^ 31 - 1)))"
  show ?thesis
  proof (cases "is_finite ?raw")
    case False
    then show ?thesis using assms(1) by (simp add: calculate_backoff_delay_def Let_def)
  next
    case True
    then obtain b where b: "base = Fin b" "0 \<le> b"
      using assms(2) by (cases base) (auto simp: f64_two_powi_def split: if_splits)
    have "f64_le (Fin 0) ?raw"
      using True b round64_nonneg by (auto simp: f64_two_powi_def split: if_splits)
    then show ?thesis using True assms(1) f64_min_le
      by (simp add: calculate_backoff_delay_def Let_def)
  qed
qed

lemma one_le_two_power_mult:
  fixes x :: rat assumes "1 \<le> x" "k \<le> n" shows "2 ^ k \<le> x * 2 ^ n"
proof -
  have "(2 :: rat) ^ k \<le> 1 * 2 ^ n" using assms(2) by (simp add: power_increasing)
  also have "\<dots> \<le> x * 2 ^ n" using assms(1) by (intro mult_right_mono) simp_all
  finally show ?thesis .
qed

text \<open>For a base of a whole number of seconds the delay is exactly the capped doubling.\<close>

lemma calculate_backoff_delay_doubles:
  assumes "0 < s" "s < 2 ^ 53" "m < 2 ^ 1024"
  shows "calculate_backoff_delay n (f64_of_nat s) (Fin m) = Fin (min (of_nat s * 2 ^ unat n) m)"
proof -
  define e where "e = min (unat n) (2 ^ 31 - 1)"
  have s1: "(1 :: rat) \<le> of_nat s" using assms(1) by simp
  have "(2 :: rat) ^ 1024 \<le> of_nat s * 2 ^ unat n" if "1024 \<le> unat n"
    using that s1 by (rule one_le_two_power_mult [rotated])
  then have big: "min (of_nat s * 2 ^ unat n) m = m" if "1024 \<le> unat n"
    using that assms(3) by (meson less_imp_le less_le_trans min.absorb2)
  show ?thesis
  proof (cases "unat n < 1024")
    case False
    then have "1024 \<le> e" by (simp add: e_def)
    then have "f64_mul (f64_of_nat s) (f64_two_powi e) = PInf"
      using assms(1,2) by (simp add: f64_two_powi_def)
    with False big show ?thesis
      unfolding calculate_backoff_delay_def e_def [symmetric] by (simp add: Let_def)
  next
    case True
    then have e: "e = unat n" by (simp add: e_def)
    have mul: "f64_mul (f64_of_nat s) (f64_two_powi e) = round64 (of_nat s * 2 ^ unat n)"
      using True assms(2) by (simp add: e f64_two_powi_def)
    show ?thesis
    proof (cases "(of_nat s :: rat) * 2 ^ unat n < 2 ^ 1024")
      case True
      then have "round64 (of_nat s * 2 ^ unat n) = Fin (of_nat s * 2 ^ unat n)"
        using assms(2) by (intro round64_exact representable_scaled_nat)
      then show ?thesis
        unfolding calculate_backoff_delay_def e_def [symmetric]
        by (simp add: mul Let_def f64_min_def min_def)
    next
      case False
      then have "round64 (of_nat s * 2 ^ unat n) = PInf" by (intro round64_overflow) simp
      moreover have "m \<le> of_nat s * 2 ^ unat n" using False assms(3) by linarith
      ultimately show ?thesis
        unfolding calculate_backoff_delay_def e_def [symmetric] by (simp add: mul Let_def min_def)
    qed
  qed
qed

lemma parse_retry_after_nonneg:
  assumes "0 \<le> d"
  shows "\<exists>z. parse_retry_after_seconds h (Fin d) = Fin z \<and> 0 \<le> z"
proof -
  have "\<exists>z. f64_max (Fin a) (Fin 0) = Fin z \<and> 0 \<le> z" for a by (auto simp: f64_max_def)
  then show ?thesis using assms
    by (auto simp: parse_retry_after_seconds_def split: option.splits elim!: is_finite.elims(2))
qed

section \<open>Properties of the text helpers\<close>

lemma length_summarize: "length (summarize_response_body body) \<le> MAX_DETAIL_CHARS + 3"
  by (simp add: summarize_response_body_def Let_def)

lemma truncate_payload_prefix:
  "take max_size (truncate_payload payload max_size) = take max_size payload"
  by (simp add: truncate_payload_def)

lemma length_truncate_payload:
  "length (truncate_payload payload max_size) \<le> max_size + length TRUNCATION_INDICATOR"
  by (simp add: truncate_payload_def)

lemma length_hex_bytes [simp]: "length (hex_bytes bs) = 2 * length bs"
  by (induction bs) (simp_all add: hex_bytes_def hex2_def)

section \<open>Properties of the redactor\<close>

text \<open>No entry under a sensitive key is anything but the placeholder, in the first \<open>n\<close> levels.\<close>

function redacted_upto :: "Redactor \<Rightarrow> nat \<Rightarrow> Value \<Rightarrow> bool" where
  "redacted_upto r n v =
     (n = 0 \<or>
      (case v of
         Object m \<Rightarrow> (\<forall>kv \<in> set m. if is_sensitive r (fst kv) then snd kv = String REDACTED_PLACEHOLDER
                                     else redacted_upto r (n - 1) (snd kv))
       | Array items \<Rightarrow> (\<forall>x \<in> set items. redacted_upto r (n - 1) x)
       | _ \<Rightarrow> True))"
  by pat_completeness auto
termination
  by (relation "measure (\<lambda>(r, n, v). n + size v)") (auto dest!: in_set_conv_decomp [THEN iffD1])

declare redacted_upto.simps [simp del]

lemma redact_inner_redacted: "redacted_upto r (MAX_REDACT_DEPTH - depth) (redact_inner r v depth)"
proof (induction r v depth rule: redact_inner.induct)
  case (1 r v depth)
  show ?case
  proof (cases "MAX_REDACT_DEPTH \<le> depth")
    case True
    then show ?thesis by (simp add: redacted_upto.simps)
  next
    case False
    then have d: "MAX_REDACT_DEPTH - depth - 1 = MAX_REDACT_DEPTH - (depth + 1)" by simp
    show ?thesis
      using False "1.IH"
      by (subst redact_inner.simps, subst redacted_upto.simps)
        (auto simp: d split: Value.splits)
  qed
qed

lemma redact_inner_idem: "redact_inner r (redact_inner r v depth) depth = redact_inner r v depth"
proof (induction r v depth rule: redact_inner.induct)
  case (1 r v depth)
  show ?case
  proof (cases "MAX_REDACT_DEPTH \<le> depth")
    case True
    then show ?thesis by (simp add: redact_inner.simps)
  next
    case False
    then show ?thesis
      using "1.IH" by (cases v) (auto simp: redact_inner.simps [of r _ depth])
  qed
qed

lemma redact_inner_other_keys:
  assumes "redact_inner r (Object m) depth = Object m'"
  shows "map fst m' = map fst m"
  using assms by (auto simp: redact_inner.simps split: if_splits)

end
