(* ===== verification/Errors.thy ===== *)
theory Errors
  imports Float64
begin

text \<open>
  The error types of \<^verbatim>\<open>src/src/error.rs\<close>: the root error of every fallible operation, the
  validation report, and the pipeline stages handed to the \<^verbatim>\<open>on_error\<close> hook, with their
  \<^verbatim>\<open>Display\<close> renderings. A wrapped third-party error (\<^verbatim>\<open>serde_json::Error\<close>) is represented by its
  rendered message.
\<close>

record ConfigError =
  problems :: "string list"

datatype GuardAgentError =
    Config ConfigError
  | BufferFull nat
  | RateLimited f64
  | Permanent u16 string
  | PayloadTooLarge string
  | Transport string
  | Serialization string
  | Redis string
  | Encryption string
  | EncryptionConfig string

datatype ErrorStage = TransportSend | FlushEvents | FlushMetrics | EncryptionStage

fun stage_label :: "ErrorStage \<Rightarrow> string" where
  "stage_label TransportSend = ''transport_send''"
| "stage_label FlushEvents = ''flush_events''"
| "stage_label FlushMetrics = ''flush_metrics''"
| "stage_label EncryptionStage = ''encryption''"

text \<open>\<^verbatim>\<open>{:.0}\<close> of a finite value: the exact value rounded to an integer, ties to even.\<close>

definition show_fixed0 :: "f64 \<Rightarrow> string" where
  "show_fixed0 x =
     (case x of
        Fin r \<Rightarrow> (if r < 0 then ''-'' else []) @ show_nat (nat (round_half_even \<bar>r\<bar>))
      | PInf \<Rightarrow> ''inf'' | NInf \<Rightarrow> ''-inf'' | NaN \<Rightarrow> ''NaN'')"

definition display_config_error :: "ConfigError \<Rightarrow> string" where
  "display_config_error e = ''Invalid agent configuration: '' @ join ''; '' (problems e)"

fun display_error :: "GuardAgentError \<Rightarrow> string" where
  "display_error (Config e) = ''Invalid agent configuration: '' @ display_config_error e"
| "display_error (BufferFull capacity) =
     ''Buffer full at capacity '' @ show_nat capacity @ '' and buffer_overflow_policy='' @
     [CHR 0x27] @ ''raise'' @ [CHR 0x27]"
| "display_error (RateLimited secs) = ''Rate limited (429); retry after '' @ show_fixed0 secs @ ''s''"
| "display_error (Permanent code detail) =
     ''Permanent client error '' @ show_nat (unat code) @ '': '' @ detail"
| "display_error (PayloadTooLarge detail) = ''Payload too large (413): '' @ detail"
| "display_error (Transport msg) = msg"
| "display_error (Serialization msg) = ''Serialization error: '' @ msg"
| "display_error (Redis msg) = ''Redis error: '' @ msg"
| "display_error (Encryption msg) = msg"
| "display_error (EncryptionConfig msg) = msg"

lemma stage_label_inject: "stage_label a = stage_label b \<longleftrightarrow> a = b"
  by (cases a; cases b) simp_all

end
