(* ===== verification/Agent_Config.thy ===== *)
theory Agent_Config
  imports Errors
begin

text \<open>
  The configuration of \<^verbatim>\<open>src/src/config.rs\<close>: the defaults, the overflow policies, the Redis
  section (the model is the crate built with the \<^verbatim>\<open>persistence\<close> feature; without it
  \<open>redis\<close> is always \<^const>\<open>None\<close>), validation with endpoint normalization, and the validated
  ranges the other components rely on. Sizes and intervals are natural numbers; the machine
  bounds of \<^verbatim>\<open>usize\<close> and \<^verbatim>\<open>u64\<close> are never reached by the arithmetic done on them. A hook is the
  function that tells whether a call of it returned (\<^const>\<open>True\<close>) or panicked.
\<close>

definition DEFAULT_ENDPOINT :: string where "DEFAULT_ENDPOINT = ''https://api.guard-core.com''"
definition DEFAULT_BUFFER_SIZE :: nat where [const_defs]: "DEFAULT_BUFFER_SIZE = 100"
definition DEFAULT_FLUSH_INTERVAL_SECS :: nat where [const_defs]: "DEFAULT_FLUSH_INTERVAL_SECS = 30"
definition DEFAULT_STATUS_INTERVAL_SECS :: nat where [const_defs]: "DEFAULT_STATUS_INTERVAL_SECS = 300"
definition MIN_STATUS_INTERVAL_SECS :: nat where [const_defs]: "MIN_STATUS_INTERVAL_SECS = 60"
definition DEFAULT_DYNAMIC_RULE_INTERVAL_SECS :: nat where
  [const_defs]: "DEFAULT_DYNAMIC_RULE_INTERVAL_SECS = 300"
definition MIN_DYNAMIC_RULE_INTERVAL_SECS :: nat where
  [const_defs]: "MIN_DYNAMIC_RULE_INTERVAL_SECS = 60"
definition DEFAULT_HIGH_WATERMARK_RATIO :: f64 where "DEFAULT_HIGH_WATERMARK_RATIO = round64 (8 / 10)"
definition DEFAULT_RETRY_ATTEMPTS :: u32 where [const_defs]: "DEFAULT_RETRY_ATTEMPTS = 3"
definition DEFAULT_TIMEOUT_SECS :: nat where [const_defs]: "DEFAULT_TIMEOUT_SECS = 30"
definition DEFAULT_BACKOFF_FACTOR :: f64 where [const_defs]: "DEFAULT_BACKOFF_FACTOR = Fin 1"
definition DEFAULT_COMPRESSION_THRESHOLD :: nat where
  [const_defs]: "DEFAULT_COMPRESSION_THRESHOLD = 1024"
definition MIN_API_KEY_LEN :: nat where [const_defs]: "MIN_API_KEY_LEN = 10"
definition DEFAULT_MAX_PAYLOAD_SIZE :: nat where [const_defs]: "DEFAULT_MAX_PAYLOAD_SIZE = 1024"
definition DEFAULT_REDIS_KEY_PREFIX :: string where "DEFAULT_REDIS_KEY_PREFIX = ''guard:agent''"
definition DEFAULT_SENSITIVE_HEADERS :: "string list" where
  "DEFAULT_SENSITIVE_HEADERS = [''authorization'', ''proxy-authorization'', ''cookie'', ''x-api-key'']"

datatype BufferOverflowPolicy = Drop | Block | Raise

fun policy_as_str :: "BufferOverflowPolicy \<Rightarrow> string" where
  "policy_as_str Drop = ''drop''"
| "policy_as_str Block = ''block''"
| "policy_as_str Raise = ''raise''"

record RedisConfig =
  redis_url :: string
  key_prefix :: string
  command_timeout_ms :: nat

definition redis_config_default :: RedisConfig where
  "redis_config_default =
     \<lparr> redis_url = ''redis://127.0.0.1:6379'', key_prefix = DEFAULT_REDIS_KEY_PREFIX,
       command_timeout_ms = 5000 \<rparr>"

definition redis_config_new :: "string \<Rightarrow> RedisConfig" where
  "redis_config_new url = redis_config_default\<lparr>redis_url := url\<rparr>"

type_synonym ErrorHook = "ErrorStage \<Rightarrow> GuardAgentError \<Rightarrow> bool"

record AgentConfig =
  api_key :: string
  endpoint :: string
  project_id :: "string option"
  buffer_size :: nat
  flush_interval :: nat
  status_interval :: nat
  dynamic_rule_interval :: nat
  high_watermark_ratio :: f64
  max_concurrent_flushes :: nat
  buffer_overflow_policy :: BufferOverflowPolicy
  enable_events :: bool
  enable_metrics :: bool
  retry_attempts :: u32
  timeout :: nat
  backoff_factor :: f64
  sensitive_headers :: "string list"
  max_payload_size :: nat
  guard_version :: "string option"
  guard_core_version :: "string option"
  compression_enabled :: bool
  compression_threshold :: nat
  install_id_override :: "string option"
  payload_signing_secret :: "string option"
  project_encryption_key :: "string option"
  redis :: "RedisConfig option"
  on_error :: "ErrorHook option"

definition config_new :: "string \<Rightarrow> AgentConfig" where
  "config_new key =
     \<lparr> api_key = key, endpoint = DEFAULT_ENDPOINT, project_id = None,
       buffer_size = DEFAULT_BUFFER_SIZE, flush_interval = DEFAULT_FLUSH_INTERVAL_SECS,
       status_interval = DEFAULT_STATUS_INTERVAL_SECS,
       dynamic_rule_interval = DEFAULT_DYNAMIC_RULE_INTERVAL_SECS,
       high_watermark_ratio = DEFAULT_HIGH_WATERMARK_RATIO, max_concurrent_flushes = 1,
       buffer_overflow_policy = Drop, enable_events = True, enable_metrics = True,
       retry_attempts = DEFAULT_RETRY_ATTEMPTS, timeout = DEFAULT_TIMEOUT_SECS,
       backoff_factor = DEFAULT_BACKOFF_FACTOR, sensitive_headers = DEFAULT_SENSITIVE_HEADERS,
       max_payload_size = DEFAULT_MAX_PAYLOAD_SIZE, guard_version = None,
       guard_core_version = None, compression_enabled = True,
       compression_threshold = DEFAULT_COMPRESSION_THRESHOLD, install_id_override = None,
       payload_signing_secret = None, project_encryption_key = None, redis = None,
       on_error = None \<rparr>"

section \<open>Validation\<close>

text \<open>The part of \<^verbatim>\<open>normalize_endpoint\<close> that computes the new endpoint of a non-empty trimmed
  one, and the problems it reports about it. \<^verbatim>\<open>split_once("://")\<close> splits at the first
  occurrence.\<close>

definition strip_endpoint :: "string \<Rightarrow> string" where
  "strip_endpoint trimmed =
     (let without_slash = trim_end_matches (CHR ''/'') trimmed
      in case strip_suffix ''/api/v1'' without_slash of
           None \<Rightarrow> without_slash
         | Some stripped \<Rightarrow> trim_end_matches (CHR ''/'') stripped)"

fun split_once :: "string \<Rightarrow> string \<Rightarrow> (string \<times> string) option" where
  "split_once sep [] = (if sep = [] then Some ([], []) else None)"
| "split_once sep (c # cs) =
     (if prefix sep (c # cs) then Some ([], drop (length sep) (c # cs))
      else case split_once sep cs of None \<Rightarrow> None | Some (a, b) \<Rightarrow> Some (c # a, b))"

definition endpoint_problems :: "string \<Rightarrow> string list" where
  "endpoint_problems e =
     (if \<not> starts_with ''http://'' e \<and> \<not> starts_with ''https://'' e
      then [''endpoint must start with http:// or https://'']
      else let host = (case split_once ''://'' e of None \<Rightarrow> [] | Some (_, rest) \<Rightarrow> rest)
           in if host = [] \<or> starts_with ''/'' host then [''endpoint must include a host''] else [])"

definition normalize_endpoint :: "AgentConfig \<Rightarrow> string list \<times> AgentConfig" where
  "normalize_endpoint c =
     (let trimmed = trim (endpoint c)
      in if trimmed = [] then ([''endpoint must not be empty''], c\<lparr>endpoint := trimmed\<rparr>)
         else let e = strip_endpoint trimmed in (endpoint_problems e, c\<lparr>endpoint := e\<rparr>))"

definition validate_numeric :: "AgentConfig \<Rightarrow> string list" where
  "validate_numeric c =
     (if buffer_size c = 0 then [''buffer_size must be greater than 0''] else []) @
     (if flush_interval c = 0 then [''flush_interval must be greater than 0''] else []) @
     (if status_interval c < MIN_STATUS_INTERVAL_SECS
      then [''status_interval must be at least '' @ show_nat MIN_STATUS_INTERVAL_SECS @ '' seconds'']
      else []) @
     (if dynamic_rule_interval c < MIN_DYNAMIC_RULE_INTERVAL_SECS
      then [''dynamic_rule_interval must be at least '' @ show_nat MIN_DYNAMIC_RULE_INTERVAL_SECS @
            '' seconds'']
      else []) @
     (if timeout c = 0 then [''timeout must be greater than 0''] else []) @
     (if f64_le (backoff_factor c) (Fin 0) then [''backoff_factor must be greater than 0''] else []) @
     (if f64_le (high_watermark_ratio c) (Fin 0) \<or> f64_lt (Fin 1) (high_watermark_ratio c)
      then [''high_watermark_ratio must be within (0, 1]''] else []) @
     (if max_concurrent_flushes c = 0 then [''max_concurrent_flushes must be at least 1''] else [])"

definition validate_optional :: "AgentConfig \<Rightarrow> string list" where
  "validate_optional c =
     (case redis c of
        None \<Rightarrow> []
      | Some r \<Rightarrow> if trim (redis_url r) = [] then [''redis.url must not be empty''] else [])"

definition validate :: "AgentConfig \<Rightarrow> (ConfigError + unit) \<times> AgentConfig" where
  "validate c =
     (let p1 = (if utf8_len (api_key c) < MIN_API_KEY_LEN
                then [''api_key must be at least '' @ show_nat MIN_API_KEY_LEN @ '' characters long'']
                else []);
          (p2, c') = normalize_endpoint c;
          ps = p1 @ p2 @ validate_numeric c' @ validate_optional c'
      in (if ps = [] then Inr () else Inl \<lparr>problems = ps\<rparr>, c'))"

definition payload_project_id :: "AgentConfig \<Rightarrow> string" where
  "payload_project_id c = (case project_id c of None \<Rightarrow> ''default'' | Some p \<Rightarrow> p)"

section \<open>What validation establishes\<close>

text \<open>The ranges a validated configuration satisfies. The tests of the sources are false for NaN, so a NaN
  passes them in the two fields that are floats.\<close>

definition valid_config :: "AgentConfig \<Rightarrow> bool" where
  "valid_config c \<longleftrightarrow>
     MIN_API_KEY_LEN \<le> utf8_len (api_key c) \<and> 0 < buffer_size c \<and> 0 < flush_interval c \<and>
     MIN_STATUS_INTERVAL_SECS \<le> status_interval c \<and>
     MIN_DYNAMIC_RULE_INTERVAL_SECS \<le> dynamic_rule_interval c \<and> 0 < timeout c \<and>
     (backoff_factor c = NaN \<or> f64_lt (Fin 0) (backoff_factor c)) \<and>
     (high_watermark_ratio c = NaN \<or> f64_lt (Fin 0) (high_watermark_ratio c) \<and> f64_le (high_watermark_ratio c) (Fin 1)) \<and>
     0 < max_concurrent_flushes c \<and>
     (\<forall>r. redis c = Some r \<longrightarrow> trim (redis_url r) \<noteq> [])"

lemma not_le_zero: "\<not> f64_le x (Fin 0) \<longleftrightarrow> x = NaN \<or> f64_lt (Fin 0) x"
  by (cases x) auto

lemma in_unit_range:
  "\<not> (f64_le x (Fin 0) \<or> f64_lt (Fin 1) x) \<longleftrightarrow> x = NaN \<or> f64_lt (Fin 0) x \<and> f64_le x (Fin 1)"
  by (cases x) auto

lemma validate_numeric_Nil:
  "validate_numeric c = [] \<longleftrightarrow>
     0 < buffer_size c \<and> 0 < flush_interval c \<and> MIN_STATUS_INTERVAL_SECS \<le> status_interval c \<and>
     MIN_DYNAMIC_RULE_INTERVAL_SECS \<le> dynamic_rule_interval c \<and> 0 < timeout c \<and>
     (backoff_factor c = NaN \<or> f64_lt (Fin 0) (backoff_factor c)) \<and>
     (high_watermark_ratio c = NaN \<or> f64_lt (Fin 0) (high_watermark_ratio c) \<and> f64_le (high_watermark_ratio c) (Fin 1)) \<and>
     0 < max_concurrent_flushes c"
  unfolding not_le_zero [symmetric] in_unit_range [symmetric] validate_numeric_def by (auto simp: not_less)

lemma normalize_endpoint_frame:
  "snd (normalize_endpoint c) = c\<lparr>endpoint := endpoint (snd (normalize_endpoint c))\<rparr>"
  by (simp add: normalize_endpoint_def Let_def)

lemma validate_config: "snd (validate c) = c\<lparr>endpoint := endpoint (snd (validate c))\<rparr>"
proof -
  obtain p2 c' where n: "normalize_endpoint c = (p2, c')" by (cases "normalize_endpoint c")
  then have "c' = c\<lparr>endpoint := endpoint c'\<rparr>" using normalize_endpoint_frame [of c] by simp
  then show ?thesis by (simp add: validate_def n Let_def)
qed

lemma trim_end_where_last: "trim_end_where p s \<noteq> [] \<Longrightarrow> \<not> p (last (trim_end_where p s))"
  unfolding trim_end_where_def using hd_dropWhile [of p "rev s"] by (simp add: last_rev)

lemma strip_endpoint_no_trailing_slash:
  "strip_endpoint s \<noteq> [] \<Longrightarrow> last (strip_endpoint s) \<noteq> CHR ''/''"
  using trim_end_where_last by (auto simp: strip_endpoint_def trim_end_matches_def Let_def split: option.splits)

lemma endpoint_problems_Nil:
  "endpoint_problems e = [] \<Longrightarrow> prefix ''http://'' e \<or> prefix ''https://'' e"
  by (auto simp: endpoint_problems_def starts_with_def split: if_splits)

lemma validate_Inr:
  assumes "validate c = (Inr (), c')"
  shows "valid_config c'" and "prefix ''http://'' (endpoint c') \<or> prefix ''https://'' (endpoint c')"
    and "last (endpoint c') \<noteq> CHR ''/''"
proof -
  obtain p2 d where n: "normalize_endpoint c = (p2, d)" by (cases "normalize_endpoint c")
  have d: "d = c\<lparr>endpoint := endpoint d\<rparr>" using normalize_endpoint_frame [of c] n by simp
  then have dk: "api_key d = api_key c" by (metis AgentConfig.simps(1) AgentConfig.surjective
        AgentConfig.update_convs(2) AgentConfig.select_convs(1))
  from assms have p: "p2 = []" "validate_numeric d = []" "validate_optional d = []" "c' = d"
    "MIN_API_KEY_LEN \<le> utf8_len (api_key c)"
    by (auto simp: validate_def n Let_def split: if_splits)
  show "valid_config c'"
    using p dk by (auto simp: valid_config_def validate_numeric_Nil validate_optional_def split: if_splits)
  from n p(1) have e: "endpoint d = strip_endpoint (trim (endpoint c))" "endpoint_problems (endpoint d) = []"
    by (auto simp: normalize_endpoint_def Let_def split: if_splits)
  then show "prefix ''http://'' (endpoint c') \<or> prefix ''https://'' (endpoint c')"
    using endpoint_problems_Nil p(4) by blast
  then have "endpoint c' \<noteq> []" by auto
  then show "last (endpoint c') \<noteq> CHR ''/''"
    using e strip_endpoint_no_trailing_slash p(4) by metis
qed

end
