(* ===== verification/Persistence.thy ===== *)
theory Persistence
  imports Agent_Config "HOL-Library.AList"
begin

text \<open>
  Buffer persistence, \<^verbatim>\<open>src/src/persistence.rs\<close>: the \<^verbatim>\<open>RedisHandler\<close> trait as a record of operations
  on a store state, the in-memory store with lazy expiry, and the client handler that composes
  the commands sent to a Redis server. The trait's documented contract is the locale
  \<open>durable_store\<close>, with the laws its clients rely on; the in-memory store is shown to satisfy it.
  A \<^verbatim>\<open>HashMap\<close> is an association list with distinct keys: the sources sort every listing, so the
  iteration order never shows.
\<close>

definition NAMESPACE_EVENTS :: string where "NAMESPACE_EVENTS = ''agent_events''"
definition NAMESPACE_METRICS :: string where "NAMESPACE_METRICS = ''agent_metrics''"
definition PERSIST_TTL_SECONDS :: nat where [const_defs]: "PERSIST_TTL_SECONDS = 3600"

record 'st RedisHandler =
  set_key :: "string \<Rightarrow> string \<Rightarrow> string \<Rightarrow> nat \<Rightarrow> Instant \<Rightarrow> 'st \<Rightarrow> (GuardAgentError + unit) \<times> 'st"
  get_key :: "string \<Rightarrow> string \<Rightarrow> Instant \<Rightarrow> 'st \<Rightarrow> (GuardAgentError + string option) \<times> 'st"
  delete_keys :: "string \<Rightarrow> string list \<Rightarrow> Instant \<Rightarrow> 'st \<Rightarrow> (GuardAgentError + unit) \<times> 'st"
  list_keys :: "string \<Rightarrow> Instant \<Rightarrow> 'st \<Rightarrow> (GuardAgentError + string list) \<times> 'st"
  clear_namespace :: "string \<Rightarrow> Instant \<Rightarrow> 'st \<Rightarrow> (GuardAgentError + unit) \<times> 'st"

section \<open>The in-memory store\<close>

definition namespaced_key :: "string \<Rightarrow> string \<Rightarrow> string" where
  "namespaced_key namespace key = namespace @ '':'' @ key"

record Entry =
  entry_value :: string
  expires_at :: "Instant option"

definition is_expired :: "Entry \<Rightarrow> Instant \<Rightarrow> bool" where
  "is_expired e now = (case expires_at e of None \<Rightarrow> False | Some t \<Rightarrow> t \<le> now)"

type_synonym InMemoryRedisStore = "(string \<times> Entry) list"

definition retain_live :: "Instant \<Rightarrow> InMemoryRedisStore \<Rightarrow> InMemoryRedisStore" where
  "retain_live now st = filter (\<lambda>(_, e). \<not> is_expired e now) st"

definition store_new :: InMemoryRedisStore where
  "store_new = []"

definition store_len :: "Instant \<Rightarrow> InMemoryRedisStore \<Rightarrow> nat \<times> InMemoryRedisStore" where
  "store_len now st = (length (retain_live now st), retain_live now st)"

definition store_is_empty :: "Instant \<Rightarrow> InMemoryRedisStore \<Rightarrow> bool \<times> InMemoryRedisStore" where
  "store_is_empty now st = (case store_len now st of (n, st') \<Rightarrow> (n = 0, st'))"

definition store_peek :: "string \<Rightarrow> string \<Rightarrow> InMemoryRedisStore \<Rightarrow> string option" where
  "store_peek namespace key st = map_option entry_value (map_of st (namespaced_key namespace key))"

definition short_keys :: "string \<Rightarrow> string list \<Rightarrow> string list" where
  "short_keys pre full = sort (List.map_filter (strip_prefix pre) full)"

definition store_keys :: "string \<Rightarrow> InMemoryRedisStore \<Rightarrow> string list" where
  "store_keys namespace st = short_keys (namespace @ '':'') (map fst st)"

definition store_set_key ::
  "string \<Rightarrow> string \<Rightarrow> string \<Rightarrow> nat \<Rightarrow> Instant \<Rightarrow> InMemoryRedisStore \<Rightarrow>
   (GuardAgentError + unit) \<times> InMemoryRedisStore" where
  "store_set_key namespace key value ttl_seconds now st =
     (let expiry = (if ttl_seconds = 0 then None else Some (now + from_secs ttl_seconds))
      in (Inr (), AList.update (namespaced_key namespace key)
                    \<lparr> entry_value = value, expires_at = expiry \<rparr> st))"

definition store_get_key ::
  "string \<Rightarrow> string \<Rightarrow> Instant \<Rightarrow> InMemoryRedisStore \<Rightarrow>
   (GuardAgentError + string option) \<times> InMemoryRedisStore" where
  "store_get_key namespace key now st =
     (let full_key = namespaced_key namespace key;
          st' = (case map_of st full_key of
                   Some e \<Rightarrow> if is_expired e now then AList.delete full_key st else st
                 | None \<Rightarrow> st)
      in (Inr (map_option entry_value (map_of st' full_key)), st'))"

definition store_delete_keys ::
  "string \<Rightarrow> string list \<Rightarrow> Instant \<Rightarrow> InMemoryRedisStore \<Rightarrow>
   (GuardAgentError + unit) \<times> InMemoryRedisStore" where
  "store_delete_keys namespace keys now st =
     (Inr (), fold (\<lambda>key s. AList.delete (namespaced_key namespace key) s) keys st)"

definition store_list_keys ::
  "string \<Rightarrow> Instant \<Rightarrow> InMemoryRedisStore \<Rightarrow> (GuardAgentError + string list) \<times> InMemoryRedisStore"
  where
  "store_list_keys namespace now st =
     (let st' = retain_live now st in (Inr (short_keys (namespace @ '':'') (map fst st')), st'))"

definition store_clear_namespace ::
  "string \<Rightarrow> Instant \<Rightarrow> InMemoryRedisStore \<Rightarrow> (GuardAgentError + unit) \<times> InMemoryRedisStore" where
  "store_clear_namespace namespace now st =
     (Inr (), filter (\<lambda>(k, _). \<not> starts_with (namespace @ '':'') k) st)"

definition in_memory_handler :: "InMemoryRedisStore RedisHandler" where
  "in_memory_handler =
     \<lparr> set_key = store_set_key, get_key = store_get_key, delete_keys = store_delete_keys,
       list_keys = store_list_keys, clear_namespace = store_clear_namespace \<rparr>"

section \<open>The Redis client handler\<close>

text \<open>The multiplexed connection of the \<^verbatim>\<open>redis\<close> crate, one typed query per command the handler
  issues (\<^verbatim>\<open>SET .. EX\<close>, \<^verbatim>\<open>GET\<close>, \<^verbatim>\<open>DEL\<close>, \<^verbatim>\<open>KEYS\<close>); a query may outlast the command timeout.\<close>

datatype RedisFault = TimedOut | RedisFailed string

record 'st RedisConnection =
  conn_set :: "Duration \<Rightarrow> string \<Rightarrow> string \<Rightarrow> nat \<Rightarrow> Instant \<Rightarrow> 'st \<Rightarrow> (RedisFault + unit) \<times> 'st"
  conn_get :: "Duration \<Rightarrow> string \<Rightarrow> Instant \<Rightarrow> 'st \<Rightarrow> (RedisFault + string option) \<times> 'st"
  conn_del :: "Duration \<Rightarrow> string list \<Rightarrow> Instant \<Rightarrow> 'st \<Rightarrow> (RedisFault + unit) \<times> 'st"
  conn_keys :: "Duration \<Rightarrow> string \<Rightarrow> Instant \<Rightarrow> 'st \<Rightarrow> (RedisFault + string list) \<times> 'st"

record 'st RedisClientHandler =
  connection :: "'st RedisConnection"
  client_key_prefix :: string
  command_timeout :: Duration

text \<open>\<^verbatim>\<open>connect\<close>: opening the client and establishing the connection both belong to the crate; the
  first error of either is reported.\<close>

definition redis_connect ::
  "(string \<Rightarrow> string + 'c) \<Rightarrow> ('c \<Rightarrow> string + 'st RedisConnection) \<Rightarrow> RedisConfig \<Rightarrow>
   GuardAgentError + 'st RedisClientHandler" where
  "redis_connect client_open get_connection cfg =
     (case client_open (redis_url cfg) of
        Inl e \<Rightarrow> Inl (Redis e)
      | Inr client \<Rightarrow>
          (case get_connection client of
             Inl e \<Rightarrow> Inl (Redis e)
           | Inr conn \<Rightarrow> Inr \<lparr> connection = conn, client_key_prefix = key_prefix cfg,
                                command_timeout = from_millis (command_timeout_ms cfg) \<rparr>))"

definition full_key :: "'st RedisClientHandler \<Rightarrow> string \<Rightarrow> string \<Rightarrow> string" where
  "full_key h namespace key = client_key_prefix h @ '':'' @ namespace @ '':'' @ key"

text \<open>The error mapping of \<^verbatim>\<open>query\<close>.\<close>

fun query_result :: "(RedisFault + 'a) \<times> 'st \<Rightarrow> (GuardAgentError + 'a) \<times> 'st" where
  "query_result (Inl TimedOut, st) = (Inl (Redis ''command timed out''), st)"
| "query_result (Inl (RedisFailed e), st) = (Inl (Redis e), st)"
| "query_result (Inr x, st) = (Inr x, st)"

definition client_set_key ::
  "'st RedisClientHandler \<Rightarrow> string \<Rightarrow> string \<Rightarrow> string \<Rightarrow> nat \<Rightarrow> Instant \<Rightarrow> 'st \<Rightarrow>
   (GuardAgentError + unit) \<times> 'st" where
  "client_set_key h namespace key value ttl_seconds now st =
     query_result (conn_set (connection h) (command_timeout h) (full_key h namespace key) value
       ttl_seconds now st)"

definition client_get_key ::
  "'st RedisClientHandler \<Rightarrow> string \<Rightarrow> string \<Rightarrow> Instant \<Rightarrow> 'st \<Rightarrow> (GuardAgentError + string option) \<times> 'st"
  where
  "client_get_key h namespace key now st =
     query_result (conn_get (connection h) (command_timeout h) (full_key h namespace key) now st)"

definition client_delete_keys ::
  "'st RedisClientHandler \<Rightarrow> string \<Rightarrow> string list \<Rightarrow> Instant \<Rightarrow> 'st \<Rightarrow> (GuardAgentError + unit) \<times> 'st"
  where
  "client_delete_keys h namespace keys now st =
     (if keys = [] then (Inr (), st)
      else query_result (conn_del (connection h) (command_timeout h)
             (map (full_key h namespace) keys) now st))"

definition client_list_keys ::
  "'st RedisClientHandler \<Rightarrow> string \<Rightarrow> Instant \<Rightarrow> 'st \<Rightarrow> (GuardAgentError + string list) \<times> 'st" where
  "client_list_keys h namespace now st =
     (let pre = client_key_prefix h @ '':'' @ namespace @ '':''
      in case query_result (conn_keys (connection h) (command_timeout h) (pre @ ''*'') now st) of
           (Inl e, st') \<Rightarrow> (Inl e, st')
         | (Inr full_keys, st') \<Rightarrow> (Inr (short_keys pre full_keys), st'))"

definition client_clear_namespace ::
  "'st RedisClientHandler \<Rightarrow> string \<Rightarrow> Instant \<Rightarrow> 'st \<Rightarrow> (GuardAgentError + unit) \<times> 'st" where
  "client_clear_namespace h namespace now st =
     (case client_list_keys h namespace now st of
        (Inl e, st') \<Rightarrow> (Inl e, st')
      | (Inr keys, st') \<Rightarrow> client_delete_keys h namespace keys now st')"

definition client_handler :: "'st RedisClientHandler \<Rightarrow> 'st RedisHandler" where
  "client_handler h =
     \<lparr> set_key = client_set_key h, get_key = client_get_key h,
       delete_keys = client_delete_keys h, list_keys = client_list_keys h,
       clear_namespace = client_clear_namespace h \<rparr>"

section \<open>The contract of a durable store\<close>

text \<open>\<open>live t st ns k\<close> is the record a reader sees at time \<open>t\<close>. Namespaces in use are \<open>ns_ok\<close>; the
  laws say what each operation returns and how it changes what every reader sees from now on. Records
  have a positive lifetime, as all records of the agent.\<close>

locale durable_store =
  fixes h :: "'st RedisHandler"
    and live :: "Instant \<Rightarrow> 'st \<Rightarrow> string \<Rightarrow> string \<Rightarrow> string option"
    and st_inv :: "'st \<Rightarrow> bool"
    and ns_ok :: "string \<Rightarrow> bool"
  assumes set_key_law:
    "st_inv st \<Longrightarrow> ns_ok ns \<Longrightarrow> 0 < ttl \<Longrightarrow>
       \<exists>st'. set_key h ns k v ttl now st = (Inr (), st') \<and> st_inv st' \<and>
         (\<forall>t ns' k'. ns_ok ns' \<longrightarrow> live t st' ns' k' =
            (if ns' = ns \<and> k' = k then (if t < now + from_secs ttl then Some v else None)
             else live t st ns' k'))"
    and get_key_law:
    "st_inv st \<Longrightarrow> ns_ok ns \<Longrightarrow>
       \<exists>st'. get_key h ns k now st = (Inr (live now st ns k), st') \<and> st_inv st' \<and>
         (\<forall>t ns' k'. now \<le> t \<and> ns_ok ns' \<longrightarrow> live t st' ns' k' = live t st ns' k')"
    and delete_keys_law:
    "st_inv st \<Longrightarrow> ns_ok ns \<Longrightarrow>
       \<exists>st'. delete_keys h ns ks now st = (Inr (), st') \<and> st_inv st' \<and>
         (\<forall>t ns' k'. ns_ok ns' \<longrightarrow> live t st' ns' k' =
            (if ns' = ns \<and> k' \<in> set ks then None else live t st ns' k'))"
    and list_keys_law:
    "st_inv st \<Longrightarrow> ns_ok ns \<Longrightarrow>
       \<exists>ks st'. list_keys h ns now st = (Inr ks, st') \<and> st_inv st' \<and>
         sorted ks \<and> distinct ks \<and> set ks = {k. live now st ns k \<noteq> None} \<and>
         (\<forall>t ns' k'. now \<le> t \<and> ns_ok ns' \<longrightarrow> live t st' ns' k' = live t st ns' k')"
    and clear_namespace_law:
    "st_inv st \<Longrightarrow> ns_ok ns \<Longrightarrow>
       \<exists>st'. clear_namespace h ns now st = (Inr (), st') \<and> st_inv st' \<and>
         (\<forall>t ns' k'. now \<le> t \<and> ns_ok ns' \<longrightarrow> live t st' ns' k' = (if ns' = ns then None else live t st ns' k'))"
begin

text \<open>A record written with a lifetime is read back until it expires.\<close>

lemma set_then_get:
  assumes "st_inv st" "ns_ok ns" "0 < ttl" "now \<le> t" "t < now + from_secs ttl"
  shows "fst (get_key h ns k t (snd (set_key h ns k v ttl now st))) = Inr (Some v)"
proof -
  obtain st' where s: "set_key h ns k v ttl now st = (Inr (), st')" "st_inv st'"
    "live t st' ns k = Some v"
    using set_key_law [OF assms(1-3), of k v now] assms by auto
  with get_key_law [OF s(2) assms(2), of k t] show ?thesis by auto
qed

text \<open>Clearing a namespace makes it list nothing, whatever was stored.\<close>

lemma clear_then_list:
  assumes "st_inv st" "ns_ok ns" "now \<le> t"
  shows "fst (list_keys h ns t (snd (clear_namespace h ns now st))) = Inr []"
proof -
  obtain st' where s: "clear_namespace h ns now st = (Inr (), st')" "st_inv st'"
    "\<And>k. live t st' ns k = None"
    using clear_namespace_law [OF assms(1,2), of now] assms by auto
  with list_keys_law [OF s(2) assms(2), of t] show ?thesis by auto
qed

text \<open>A deleted record is not listed again.\<close>

lemma delete_then_list:
  assumes "st_inv st" "ns_ok ns" "k \<in> set ks"
  shows "\<exists>ls. fst (list_keys h ns t (snd (delete_keys h ns ks now st))) = Inr ls \<and> k \<notin> set ls"
proof -
  obtain st' where s: "delete_keys h ns ks now st = (Inr (), st')" "st_inv st'"
    "live t st' ns k = None"
    using delete_keys_law [OF assms(1,2), of ks now] assms by auto
  with list_keys_law [OF s(2) assms(2), of t] show ?thesis by force
qed

end

section \<open>The in-memory store satisfies the contract\<close>

definition store_live :: "Instant \<Rightarrow> InMemoryRedisStore \<Rightarrow> string \<Rightarrow> string \<Rightarrow> string option" where
  "store_live t st ns k =
     (case map_of st (namespaced_key ns k) of
        Some e \<Rightarrow> if is_expired e t then None else Some (entry_value e)
      | None \<Rightarrow> None)"

definition store_inv :: "InMemoryRedisStore \<Rightarrow> bool" where
  "store_inv st = distinct (map fst st)"

definition plain_ns :: "string \<Rightarrow> bool" where
  "plain_ns ns \<longleftrightarrow> CHR '':'' \<notin> set ns"

lemma namespaced_key_inject:
  assumes "plain_ns ns" "plain_ns ns'"
  shows "namespaced_key ns k = namespaced_key ns' k' \<longleftrightarrow> ns = ns' \<and> k = k'"
proof
  assume eq: "namespaced_key ns k = namespaced_key ns' k'"
  have split: "takeWhile (\<lambda>c. c \<noteq> CHR '':'') (namespaced_key n x) = n" if "plain_ns n" for n x
    using that by (auto simp: namespaced_key_def plain_ns_def takeWhile_append)
  have "ns = ns'" using split [OF assms(1), of k] split [OF assms(2), of k'] eq by simp
  then show "ns = ns' \<and> k = k'" using eq by (simp add: namespaced_key_def)
qed simp

lemma plain_ns_used [simp]: "plain_ns NAMESPACE_EVENTS" "plain_ns NAMESPACE_METRICS"
  by (simp_all add: plain_ns_def NAMESPACE_EVENTS_def NAMESPACE_METRICS_def)

lemma strip_prefix_Some: "strip_prefix pre s = Some r \<longleftrightarrow> s = pre @ r"
  by (auto simp: strip_prefix_def prefix_def)

lemma set_short_keys: "set (short_keys pre full) = {k. pre @ k \<in> set full}"
  by (auto simp: short_keys_def set_map_filter strip_prefix_Some)

lemma distinct_short_keys: "distinct full \<Longrightarrow> distinct (short_keys pre full)"
  unfolding short_keys_def distinct_sort
proof (induction full)
  case (Cons s full)
  then show ?case
    by (auto simp: List.map_filter_simps set_map_filter strip_prefix_Some split: option.splits)
qed (simp add: List.map_filter_simps)

lemma sorted_short_keys: "sorted (short_keys pre full)"
  by (simp add: short_keys_def)

lemma map_of_retain_live:
  assumes "store_inv st"
  shows "map_of (retain_live now st) k =
    (case map_of st k of Some e \<Rightarrow> if is_expired e now then None else Some e | None \<Rightarrow> None)"
  using assms by (induction st) (auto simp: retain_live_def store_inv_def split: option.splits
      dest: map_of_SomeD intro!: weak_map_of_SomeI simp: map_of_eq_None_iff image_iff)

lemma store_inv_retain_live: "store_inv st \<Longrightarrow> store_inv (retain_live now st)"
  unfolding store_inv_def retain_live_def by (rule distinct_map_filter)

lemma is_expired_mono: "is_expired e t \<Longrightarrow> t \<le> t' \<Longrightarrow> is_expired e t'"
  by (auto simp: is_expired_def split: option.splits)

lemma store_live_retain:
  "store_inv st \<Longrightarrow> now \<le> t \<Longrightarrow> store_live t (retain_live now st) ns k = store_live t st ns k"
  by (auto simp: store_live_def map_of_retain_live split: option.splits dest: is_expired_mono)

lemma map_of_fold_delete:
  "map_of (fold (\<lambda>key s. AList.delete (f key) s) ks st) x = (if x \<in> f ` set ks then None else map_of st x)"
  by (induction ks arbitrary: st) (auto simp: AList.delete_conv)

lemma store_inv_fold_delete: "store_inv st \<Longrightarrow> store_inv (fold (\<lambda>key s. AList.delete (f key) s) ks st)"
  by (induction ks arbitrary: st) (simp_all add: store_inv_def AList.distinct_delete)

lemma listed_key_live:
  assumes "store_inv st"
  shows "ns @ '':'' @ k \<in> set (map fst (retain_live now st)) \<longleftrightarrow> store_live now st ns k \<noteq> None"
proof -
  have "ns @ '':'' @ k \<in> set (map fst (retain_live now st)) \<longleftrightarrow>
      map_of (retain_live now st) (namespaced_key ns k) \<noteq> None"
    by (simp add: map_of_eq_None_iff namespaced_key_def)
  then show ?thesis by (auto simp: map_of_retain_live [OF assms] store_live_def split: option.splits)
qed

lemma store_set_live:
  assumes "plain_ns ns" "plain_ns ns'"
  shows "store_live t (snd (store_set_key ns k v ttl now st)) ns' k' =
    (if ns' = ns \<and> k' = k then (if ttl = 0 \<or> t < now + from_secs ttl then Some v else None)
     else store_live t st ns' k')"
  using namespaced_key_inject [OF assms(2,1), of k' k]
  by (auto simp: store_live_def store_set_key_def Let_def AList.update_conv is_expired_def)

lemma store_get_live:
  assumes "store_inv st" "now \<le> t"
  shows "fst (store_get_key ns k now st) = Inr (store_live now st ns k)"
    and "store_live t (snd (store_get_key ns k now st)) ns' k' = store_live t st ns' k'"
    and "store_inv (snd (store_get_key ns k now st))"
proof -
  show "fst (store_get_key ns k now st) = Inr (store_live now st ns k)"
    by (auto simp: store_get_key_def store_live_def Let_def AList.delete_conv split: option.splits)
  show "store_live t (snd (store_get_key ns k now st)) ns' k' = store_live t st ns' k'"
    using assms(2) by (auto simp: store_get_key_def store_live_def Let_def AList.delete_conv
        split: option.splits dest: is_expired_mono)
  show "store_inv (snd (store_get_key ns k now st))"
    using assms(1) by (auto simp: store_get_key_def store_inv_def Let_def AList.distinct_delete
        split: option.splits)
qed

lemma store_clear_live:
  assumes "plain_ns ns" "plain_ns ns'" "store_inv st"
  shows "store_live t (snd (store_clear_namespace ns now st)) ns' k' =
    (if ns' = ns then None else store_live t st ns' k')"
proof -
  have pre: "starts_with (ns @ '':'') (namespaced_key ns' k') \<longleftrightarrow> ns' = ns"
    using namespaced_key_inject [OF assms(2,1)]
    by (auto simp: starts_with_def prefix_def namespaced_key_def)
  have "map_of (filter (\<lambda>(k, _). P k) st) x = (if P x then map_of st x else None)" for P x
    by (induction st) auto
  then show ?thesis using pre by (simp add: store_live_def store_clear_namespace_def)
qed

lemma store_delete_live:
  assumes "plain_ns ns" "plain_ns ns'"
  shows "store_live t (snd (store_delete_keys ns ks now st)) ns' k' =
    (if ns' = ns \<and> k' \<in> set ks then None else store_live t st ns' k')"
proof -
  have "namespaced_key ns' k' \<in> namespaced_key ns ` set ks \<longleftrightarrow> ns' = ns \<and> k' \<in> set ks"
    using namespaced_key_inject [OF assms(2,1)] by (auto simp: image_iff)
  then show ?thesis by (simp add: store_live_def store_delete_keys_def map_of_fold_delete)
qed

interpretation mem: durable_store in_memory_handler store_live store_inv plain_ns
proof (unfold_locales, goal_cases)
  case (1 st ns ttl k v now)
  then show ?case using store_set_live [of ns _ _ k v ttl now st]
    by (auto simp: in_memory_handler_def store_set_key_def Let_def store_inv_def AList.distinct_update)
next
  case (2 st ns k now)
  then show ?case using store_get_live [of st now _ ns k] store_get_live(3) [of st now now ns k]
    by (cases "store_get_key ns k now st") (auto simp: in_memory_handler_def)
next
  case (3 st ns ks now)
  show ?case
    using store_delete_live [OF 3(2), of _ _ ks now st] store_inv_fold_delete [OF 3(1)]
    by (simp add: in_memory_handler_def store_delete_keys_def)
next
  case (4 st ns now)
  then have "set (short_keys (ns @ '':'') (map fst (retain_live now st))) = {k. store_live now st ns k \<noteq> None}"
    using listed_key_live [of st ns _ now] by (simp add: set_short_keys)
  moreover have "store_inv (retain_live now st)" using 4 by (simp add: store_inv_retain_live)
  ultimately show ?case
    using 4 by (auto simp: in_memory_handler_def store_list_keys_def Let_def sorted_short_keys
        store_live_retain store_inv_def intro: distinct_short_keys)
next
  case (5 st ns now)
  have "store_inv (snd (store_clear_namespace ns now st))"
    using 5(1) unfolding store_inv_def store_clear_namespace_def by (simp add: distinct_map_filter)
  then show ?case using store_clear_live [OF 5(2) _ 5(1), of _ _ now]
    by (cases "store_clear_namespace ns now st")
      (auto simp: in_memory_handler_def store_clear_namespace_def)
qed

end
