(* ===== verification/Payload_Encryption.thy ===== *)
theory Payload_Encryption
  imports Json Errors
begin

text \<open>
  Payload encryption, \<^verbatim>\<open>src/src/encryption.rs\<close> (its canonical serializer is in \<open>Json\<close>). AES-256-GCM,
  base64 and the JSON parser belong to crates outside the repository: they are the fields of the
  record \<open>crypto\<close>. A nonce is drawn by the caller's entropy source and passed in.
\<close>

definition NONCE_SIZE :: nat where [const_defs]: "NONCE_SIZE = 12"
definition KEY_SIZE :: nat where [const_defs]: "KEY_SIZE = 32"

record crypto =
  b64_encode :: "bytes \<Rightarrow> string"
  b64_decode :: "string \<Rightarrow> string + bytes"
  aead_encrypt :: "bytes \<Rightarrow> bytes \<Rightarrow> bytes \<Rightarrow> bytes \<Rightarrow> string + bytes"
  aead_decrypt :: "bytes \<Rightarrow> bytes \<Rightarrow> bytes \<Rightarrow> bytes \<Rightarrow> string + bytes"
  json_from_slice :: "bytes \<Rightarrow> string + Value"
  json_float :: "f64 \<Rightarrow> string"

record PayloadEncryptor =
  cipher_key :: bytes

definition urlsafe_base64_encode :: "crypto \<Rightarrow> bytes \<Rightarrow> string" where
  "urlsafe_base64_encode cr bs = b64_encode cr bs"

definition encryptor_new :: "crypto \<Rightarrow> string \<Rightarrow> GuardAgentError + PayloadEncryptor" where
  "encryptor_new cr project_key =
     (if project_key = [] then Inl (Encryption ''Project key cannot be empty'')
      else case b64_decode cr (trim_end_matches (CHR ''='') project_key) of
             Inl e \<Rightarrow> Inl (Encryption (''Invalid project key format: '' @ e))
           | Inr decoded \<Rightarrow>
               (if length decoded = KEY_SIZE then Inr \<lparr>cipher_key = decoded\<rparr>
                else Inl (Encryption (''Invalid key size: '' @ show_nat (length decoded) @
                            '' bytes, expected '' @ show_nat KEY_SIZE))))"

definition aad_bytes :: "string option \<Rightarrow> bytes" where
  "aad_bytes aad = (case aad of None \<Rightarrow> [] | Some a \<Rightarrow> as_bytes a)"

definition encrypt ::
  "crypto \<Rightarrow> PayloadEncryptor \<Rightarrow> bytes \<Rightarrow> Value \<Rightarrow> string option \<Rightarrow> GuardAgentError + string" where
  "encrypt cr enc nonce data aad =
     (let plaintext = canonical_json (json_float cr) data
      in case aead_encrypt cr (cipher_key enc) nonce (aad_bytes aad) (as_bytes plaintext) of
           Inl e \<Rightarrow> Inl (Encryption (''Failed to encrypt payload: '' @ e))
         | Inr ciphertext \<Rightarrow> Inr (urlsafe_base64_encode cr (nonce @ ciphertext)))"

definition tampered :: GuardAgentError where
  "tampered = Encryption ''Invalid or tampered payload''"

definition decrypt ::
  "crypto \<Rightarrow> PayloadEncryptor \<Rightarrow> string \<Rightarrow> string option \<Rightarrow> GuardAgentError + Value" where
  "decrypt cr enc encrypted_data aad =
     (case b64_decode cr (trim_end_matches (CHR ''='') encrypted_data) of
        Inl _ \<Rightarrow> Inl tampered
      | Inr combined \<Rightarrow>
          (if length combined < NONCE_SIZE + 16 then Inl tampered
           else let nonce = take NONCE_SIZE combined; rest = drop NONCE_SIZE combined;
                    ciphertext = take (length rest - 16) rest; tag = drop (length rest - 16) rest
                in case aead_decrypt cr (cipher_key enc) nonce (aad_bytes aad) (ciphertext @ tag) of
                     Inl _ \<Rightarrow> Inl tampered
                   | Inr plaintext \<Rightarrow>
                       (case json_from_slice cr plaintext of Inl _ \<Rightarrow> Inl tampered | Inr v \<Rightarrow> Inr v)))"

definition verify_test_data :: Value where
  "verify_test_data = Object [(''test'', String ''verification'')]"

definition verify_key :: "crypto \<Rightarrow> PayloadEncryptor \<Rightarrow> bytes \<Rightarrow> bool" where
  "verify_key cr enc nonce =
     (case encrypt cr enc nonce verify_test_data None of
        Inl _ \<Rightarrow> False
      | Inr encrypted \<Rightarrow> decrypt cr enc encrypted None = Inr verify_test_data)"

section \<open>The contract of the crates, and the round trip\<close>

text \<open>What the sources rely on: base64 decodes what it encoded (with the padding removed), GCM
  appends a 16-byte tag and decrypts what it encrypted under the same key, nonce and associated
  data. What the JSON parser makes of the canonical text is shown in \<open>Json_Reader\<close>.\<close>

definition b64_ok :: "crypto \<Rightarrow> bool" where
  "b64_ok cr \<longleftrightarrow> (\<forall>bs. b64_decode cr (trim_end_matches (CHR ''='') (b64_encode cr bs)) = Inr bs)"

definition aead_ok :: "crypto \<Rightarrow> bytes \<Rightarrow> bool" where
  "aead_ok cr key \<longleftrightarrow>
     (\<forall>nonce aad msg. length nonce = NONCE_SIZE \<longrightarrow>
        (\<exists>c. aead_encrypt cr key nonce aad msg = Inr c \<and> length c = length msg + 16 \<and>
             aead_decrypt cr key nonce aad c = Inr msg))"

lemma encrypt_decrypt:
  assumes "b64_ok cr" "aead_ok cr (cipher_key enc)" "json_from_slice cr (as_bytes (canonical_json (json_float cr) v)) = Inr u"
    "length nonce = NONCE_SIZE"
  shows "\<exists>e. encrypt cr enc nonce v aad = Inr e \<and> decrypt cr enc e aad = Inr u"
proof -
  let ?p = "as_bytes (canonical_json (json_float cr) v)"
  obtain c where c: "aead_encrypt cr (cipher_key enc) nonce (aad_bytes aad) ?p = Inr c"
    "length c = length ?p + 16" "aead_decrypt cr (cipher_key enc) nonce (aad_bytes aad) c = Inr ?p"
    using assms(2,4) unfolding aead_ok_def by blast
  have "b64_decode cr (trim_end_matches (CHR ''='') (b64_encode cr (nonce @ c))) = Inr (nonce @ c)"
    using assms(1) by (simp add: b64_ok_def)
  moreover have "take (length c - 16) c @ drop (length c - 16) c = c" by simp
  ultimately have "decrypt cr enc (b64_encode cr (nonce @ c)) aad = Inr u"
    using assms(3,4) c by (simp add: decrypt_def Let_def del: append_take_drop_id)
  then show ?thesis using c(1) by (simp add: encrypt_def Let_def urlsafe_base64_encode_def)
qed

lemma encryptor_new_key_size:
  "encryptor_new cr key = Inr enc \<Longrightarrow> length (cipher_key enc) = KEY_SIZE \<and> key \<noteq> []"
  by (auto simp: encryptor_new_def split: if_splits sum.splits)

lemma decrypt_error_tampered: "decrypt cr enc s aad = Inl e \<Longrightarrow> e = tampered"
  by (auto simp: decrypt_def Let_def split: sum.splits if_splits)

end
