(* ===== verification/Signing.thy ===== *)
theory Signing
  imports Prelude
begin

text \<open>
  Request signing, \<^verbatim>\<open>src/src/signing.rs\<close>. HMAC-SHA256 belongs to the \<^verbatim>\<open>hmac\<close> and \<^verbatim>\<open>sha2\<close> crates and
  is the parameter \<open>hmac\<close>, a function of the key bytes and the message bytes.
\<close>

definition SIGNATURE_PREFIX :: string where "SIGNATURE_PREFIX = ''v1=''"

definition sign_payload :: "(bytes \<Rightarrow> bytes \<Rightarrow> bytes) \<Rightarrow> bytes \<Rightarrow> string option \<Rightarrow> string option" where
  "sign_payload hmac body secret =
     (case secret of
        None \<Rightarrow> None
      | Some key \<Rightarrow> Some (SIGNATURE_PREFIX @ hex_bytes (hmac (as_bytes key) body)))"

definition is_lower_hex :: "char \<Rightarrow> bool" where
  "is_lower_hex c \<longleftrightarrow> (let n = (of_char c :: nat) in (48 \<le> n \<and> n \<le> 57) \<or> (97 \<le> n \<and> n \<le> 102))"

lemma of_char_digit_char: "d < 16 \<Longrightarrow> (of_char (digit_char d) :: nat) = (if d < 10 then 48 + d else 87 + d)"
  by (simp add: digit_char_def)

lemma is_lower_hex_digit: "d < 16 \<Longrightarrow> is_lower_hex (digit_char d)"
  by (simp add: is_lower_hex_def Let_def of_char_digit_char)

lemma unat_u8_nibbles: "unat (b :: u8) div 16 < 16" "unat (b :: u8) mod 16 < 16"
  using unsigned_less [of b, where ?'a = nat] by auto

lemma hex_bytes_lower: "\<forall>c \<in> set (hex_bytes bs). is_lower_hex c"
  by (induction bs) (auto simp: hex_bytes_def hex2_def intro!: is_lower_hex_digit unat_u8_nibbles)

lemma digit_char_inject:
  assumes "a < 16" "b < 16" "digit_char a = digit_char b" shows "a = b"
proof -
  have "(of_char (digit_char a) :: nat) = of_char (digit_char b)" using assms(3) by simp
  then show ?thesis using of_char_digit_char [OF assms(1)] of_char_digit_char [OF assms(2)] assms(1,2)
    by (simp split: if_splits)
qed

lemma hex2_inject: "hex2 a = hex2 b \<longleftrightarrow> a = b"
proof
  assume "hex2 a = hex2 b"
  then have "unat a div 16 = unat b div 16" "unat a mod 16 = unat b mod 16"
    using digit_char_inject unat_u8_nibbles by (simp_all add: hex2_def)
  then show "a = b" by (metis div_mult_mod_eq word_unat_eq_iff)
qed simp

text \<open>The hexadecimal rendering is injective, so two signatures agree only if the digests do.\<close>

lemma hex_bytes_inject: "hex_bytes as = hex_bytes bs \<longleftrightarrow> as = bs"
proof (induction as arbitrary: bs)
  case Nil
  show ?case by (cases bs) (auto simp: hex_bytes_def hex2_def)
next
  case (Cons a as)
  show ?case
  proof (cases bs)
    case Nil
    then show ?thesis by (simp add: hex_bytes_def hex2_def)
  next
    case (Cons b bs')
    have "hex_bytes (a # as) = hex_bytes (b # bs') \<longleftrightarrow> hex2 a = hex2 b \<and> hex_bytes as = hex_bytes bs'"
      by (simp add: hex_bytes_def hex2_def)
    with Cons.IH [of bs'] \<open>bs = b # bs'\<close> show ?thesis by (simp add: hex2_inject)
  qed
qed

end
