(* ===== verification/Environment.thy ===== *)
theory Environment
  imports Utils Agent_Config Persistence Payload_Encryption Signing
begin

text \<open>
  What the agent's operations act on besides their own state. The record \<open>externals\<close> holds the
  code outside the repository that the sources call (the HTTP client, the serializers, the
  entropy source, the system clock, HMAC, gzip and the encryption crates); it is an argument of
  every operation that uses it. The record \<open>World\<close> is the part of the environment the operations
  change: the monotonic clock, the number of random draws, the requests put on the wire and when, the calls
  of the error hook (with whether the hook returned), the content of the durable store, and whether
  a panic has been raised.
\<close>

record HttpRequest =
  req_method :: string
  req_url :: string
  req_headers :: "(string \<times> string) list"
  req_body :: bytes
  req_gzip :: bool
  req_signature :: "string option"

record HttpResponse =
  resp_status :: u16
  resp_retry_after :: "string option"
  resp_text :: "string + string"

record externals =
  http :: "HttpRequest list \<Rightarrow> Instant \<Rightarrow> (string + HttpResponse) \<times> Duration"
  oversleep :: "Instant \<Rightarrow> Duration"
  system_time :: "Instant \<Rightarrow> int"
  uuid_draw :: "nat \<Rightarrow> string"
  nonce_draw :: "nat \<Rightarrow> bytes"
  hmac_sha256 :: "bytes \<Rightarrow> bytes \<Rightarrow> bytes"
  gzip_encode :: "bytes \<Rightarrow> bytes option"
  crypt :: crypto
  header_value_ok :: "string \<Rightarrow> bool"
  client_build :: "nat \<Rightarrow> (string \<times> string) list \<Rightarrow> string + unit"
  events_to_value :: "SecurityEvent list \<Rightarrow> string + Value"
  metrics_to_value :: "SecurityMetric list \<Rightarrow> string + Value"
  value_to_vec :: "Value \<Rightarrow> string + bytes"
  status_to_vec :: "AgentStatus \<Rightarrow> string + bytes"
  value_from_str :: "string \<Rightarrow> string + Value"
  ack_from_str :: "string \<Rightarrow> string + TelemetryAck"
  rules_from_value :: "Value \<Rightarrow> string + DynamicRules"
  datetime_to_string :: "DateTime \<Rightarrow> string"
  event_to_string :: "SecurityEvent \<Rightarrow> string + string"
  metric_to_string :: "SecurityMetric \<Rightarrow> string + string"
  event_from_str :: "string \<Rightarrow> string + SecurityEvent"
  metric_from_str :: "string \<Rightarrow> string + SecurityMetric"

record 'st World =
  clock :: Instant
  draws :: nat
  wire :: "HttpRequest list"
  sent_at :: "Instant list"
  hook_calls :: "(ErrorStage \<times> GuardAgentError \<times> bool) list"
  store :: 'st
  panicked :: bool

text \<open>Time passes by \<open>d\<close> and whatever the scheduler adds; a delay in seconds is first converted
  to a \<^verbatim>\<open>Duration\<close>, which panics on a value that is negative, not finite or too large.\<close>

definition sleep_for :: "externals \<Rightarrow> Duration \<Rightarrow> 'st World \<Rightarrow> 'st World" where
  "sleep_for ext d w = w\<lparr>clock := clock w + d + oversleep ext (clock w)\<rparr>"

definition sleep_secs :: "externals \<Rightarrow> f64 \<Rightarrow> 'st World \<Rightarrow> 'st World" where
  "sleep_secs ext secs w =
     (case from_secs_f64 secs of Some d \<Rightarrow> sleep_for ext d w | None \<Rightarrow> w\<lparr>panicked := True\<rparr>)"

text \<open>\<^verbatim>\<open>Utc::now()\<close>, and one draw of 32 hexadecimal digits.\<close>

definition utc_now :: "externals \<Rightarrow> 'st World \<Rightarrow> DateTime" where
  "utc_now ext w = system_time ext (clock w)"

definition draw_uuid :: "externals \<Rightarrow> 'st World \<Rightarrow> string \<times> 'st World" where
  "draw_uuid ext w = (uuid_draw ext (draws w), w\<lparr>draws := draws w + 1\<rparr>)"

definition draw_nonce :: "externals \<Rightarrow> 'st World \<Rightarrow> bytes \<times> 'st World" where
  "draw_nonce ext w = (nonce_draw ext (draws w), w\<lparr>draws := draws w + 1\<rparr>)"

text \<open>One exchange with the server: the request goes on the wire and the answer may depend on
  everything sent before and on the time.\<close>

definition http_send :: "externals \<Rightarrow> HttpRequest \<Rightarrow> 'st World \<Rightarrow> (string + HttpResponse) \<times> 'st World" where
  "http_send ext req w =
     (let log = wire w @ [req]; (r, d) = http ext log (clock w)
      in (r, w\<lparr>wire := log, sent_at := sent_at w @ [clock w], clock := clock w + d\<rparr>))"

text \<open>\<^verbatim>\<open>fire_hook\<close>: the hook's panic is caught; the call is recorded with its outcome.\<close>

definition fire_hook :: "AgentConfig \<Rightarrow> ErrorStage \<Rightarrow> GuardAgentError \<Rightarrow> 'st World \<Rightarrow> 'st World" where
  "fire_hook cfg stage err w =
     (case on_error cfg of
        None \<Rightarrow> w
      | Some hook \<Rightarrow> w\<lparr>hook_calls := hook_calls w @ [(stage, err, hook stage err)]\<rparr>)"

section \<open>What these steps leave unchanged\<close>

lemma sleep_frame [frame_simps, simp]:
  "wire (sleep_for ext d w) = wire w" "store (sleep_for ext d w) = store w"
  "hook_calls (sleep_for ext d w) = hook_calls w" "panicked (sleep_for ext d w) = panicked w"
  "wire (sleep_secs ext s w) = wire w" "store (sleep_secs ext s w) = store w"
  "hook_calls (sleep_secs ext s w) = hook_calls w" "sent_at (sleep_for ext d w) = sent_at w"
  "sent_at (sleep_secs ext s w) = sent_at w"
  by (simp_all add: sleep_for_def sleep_secs_def split: option.splits)

lemma fire_hook_frame [frame_simps, simp]:
  "wire (fire_hook cfg st e w) = wire w" "store (fire_hook cfg st e w) = store w"
  "clock (fire_hook cfg st e w) = clock w" "draws (fire_hook cfg st e w) = draws w"
  "panicked (fire_hook cfg st e w) = panicked w" "sent_at (fire_hook cfg st e w) = sent_at w"
  by (simp_all add: fire_hook_def split: option.splits)

lemma http_send_frame [frame_simps, simp]:
  "wire (snd (http_send ext req w)) = wire w @ [req]" "sent_at (snd (http_send ext req w)) = sent_at w @ [clock w]"
  "store (snd (http_send ext req w)) = store w"
  "hook_calls (snd (http_send ext req w)) = hook_calls w"
  "panicked (snd (http_send ext req w)) = panicked w"
  by (simp_all add: http_send_def Let_def case_prod_beta)

lemma draw_frame [frame_simps, simp]:
  "wire (snd (draw_uuid ext w)) = wire w" "store (snd (draw_uuid ext w)) = store w"
  "clock (snd (draw_uuid ext w)) = clock w" "hook_calls (snd (draw_uuid ext w)) = hook_calls w"
  "panicked (snd (draw_uuid ext w)) = panicked w"
  "wire (snd (draw_nonce ext w)) = wire w" "store (snd (draw_nonce ext w)) = store w"
  "clock (snd (draw_nonce ext w)) = clock w" "hook_calls (snd (draw_nonce ext w)) = hook_calls w"
  "panicked (snd (draw_nonce ext w)) = panicked w"
  "sent_at (snd (draw_uuid ext w)) = sent_at w" "sent_at (snd (draw_nonce ext w)) = sent_at w"
  by (simp_all add: draw_uuid_def draw_nonce_def)

lemma clock_mono [simp]:
  "clock w \<le> clock (sleep_for ext d w)" "clock w \<le> clock (sleep_secs ext s w)"
  "clock w \<le> clock (snd (http_send ext req w))"
  by (auto simp: sleep_for_def sleep_secs_def http_send_def Let_def case_prod_beta split: option.splits)

lemma sleep_secs_panicked:
  "panicked (sleep_secs ext s w) \<longleftrightarrow> panicked w \<or> from_secs_f64 s = None"
  by (simp add: sleep_secs_def split: option.splits)

end
