(* ===== verification/Circuit_Breaker.thy ===== *)
theory Circuit_Breaker
  imports Prelude
begin

text \<open>
  The circuit breaker of \<^verbatim>\<open>src/src/circuit_breaker.rs\<close>: the fields of its inner state, its three
  state-changing operations and the derived position, each with the clock reading as an argument.
  A step relation over these operations gives the reachable breakers; the invariant ties the
  failure count to the position, and the run lemmas say when the circuit opens, denies, and
  admits a probe.
\<close>

definition FAILURE_THRESHOLD :: u32 where [const_defs]: "FAILURE_THRESHOLD = 5"
definition RECOVERY_WINDOW :: Duration where "RECOVERY_WINDOW = from_secs 60"

datatype CircuitBreakerState = Closed | Open | HalfOpen

fun breaker_state_as_str :: "CircuitBreakerState \<Rightarrow> string" where
  "breaker_state_as_str Closed = ''CLOSED''"
| "breaker_state_as_str Open = ''OPEN''"
| "breaker_state_as_str HalfOpen = ''HALF_OPEN''"

record CircuitBreaker =
  threshold :: u32
  recovery :: Duration
  failures :: u32
  opened_at :: "Instant option"
  half_open :: bool

definition breaker_new :: "u32 \<Rightarrow> Duration \<Rightarrow> CircuitBreaker" where
  "breaker_new t r =
     \<lparr> threshold = max t 1, recovery = r, failures = 0, opened_at = None, half_open = False \<rparr>"

definition breaker_default :: CircuitBreaker where
  "breaker_default = breaker_new FAILURE_THRESHOLD RECOVERY_WINDOW"

definition admit :: "Instant \<Rightarrow> CircuitBreaker \<Rightarrow> bool \<times> CircuitBreaker" where
  "admit now b =
     (case opened_at b of
        Some opened \<Rightarrow>
          (if recovery b \<le> duration_since now opened then (True, b\<lparr>half_open := True\<rparr>) else (False, b))
      | None \<Rightarrow> (True, b))"

definition record_success :: "CircuitBreaker \<Rightarrow> CircuitBreaker" where
  "record_success b = b\<lparr>failures := 0, opened_at := None, half_open := False\<rparr>"

definition record_failure :: "Instant \<Rightarrow> CircuitBreaker \<Rightarrow> CircuitBreaker" where
  "record_failure now b =
     (if half_open b then b\<lparr>half_open := False, opened_at := Some now\<rparr>
      else let b' = b\<lparr>failures := saturating_add (failures b) 1\<rparr>
           in if threshold b' \<le> failures b' then b'\<lparr>opened_at := Some now\<rparr> else b')"

definition breaker_state :: "Instant \<Rightarrow> CircuitBreaker \<Rightarrow> CircuitBreakerState" where
  "breaker_state now b =
     (case (opened_at b, half_open b) of
        (None, _) \<Rightarrow> Closed
      | (Some _, True) \<Rightarrow> HalfOpen
      | (Some opened, False) \<Rightarrow>
          (if recovery b \<le> duration_since now opened then HalfOpen else Open))"

section \<open>Reachable breakers\<close>

inductive breaker_step :: "CircuitBreaker \<Rightarrow> CircuitBreaker \<Rightarrow> bool" where
  step_admit: "breaker_step b (snd (admit now b))"
| step_success: "breaker_step b (record_success b)"
| step_failure: "breaker_step b (record_failure now b)"

inductive breaker_reachable :: "u32 \<Rightarrow> Duration \<Rightarrow> CircuitBreaker \<Rightarrow> bool" for t r where
  reach_new: "breaker_reachable t r (breaker_new t r)"
| reach_step: "breaker_reachable t r b \<Longrightarrow> breaker_step b b' \<Longrightarrow> breaker_reachable t r b'"

text \<open>The circuit is open exactly when the failure count has reached the threshold, and a probe
  is outstanding only on an open circuit.\<close>

definition breaker_inv :: "CircuitBreaker \<Rightarrow> bool" where
  "breaker_inv b \<longleftrightarrow>
     1 \<le> threshold b \<and> (opened_at b \<noteq> None \<longleftrightarrow> threshold b \<le> failures b) \<and>
     (half_open b \<longrightarrow> opened_at b \<noteq> None)"

lemma breaker_inv_new: "breaker_inv (breaker_new t r)"
  by (auto simp: breaker_inv_def breaker_new_def max_def word_le_nat_alt)

lemma saturating_add_mono: "a \<le> saturating_add a 1"
  using unat_u32_less [of a] by (simp add: word_le_nat_alt unat_saturating_add)

lemma breaker_inv_step: "breaker_step b b' \<Longrightarrow> breaker_inv b \<Longrightarrow> breaker_inv b'"
proof (induction rule: breaker_step.induct)
  case (step_admit b now)
  then show ?case by (auto simp: breaker_inv_def admit_def split: option.splits)
next
  case (step_success b)
  then show ?case by (auto simp: breaker_inv_def record_success_def word_le_nat_alt)
next
  case (step_failure b now)
  have "threshold b \<le> failures b \<Longrightarrow> threshold b \<le> saturating_add (failures b) 1"
    using saturating_add_mono [of "failures b"] by simp
  with step_failure show ?case by (auto simp: breaker_inv_def record_failure_def Let_def)
qed

lemma breaker_reachable_inv: "breaker_reachable t r b \<Longrightarrow> breaker_inv b"
  by (induction rule: breaker_reachable.induct) (auto intro: breaker_inv_new breaker_inv_step)

lemma breaker_step_config:
  "breaker_step b b' \<Longrightarrow> threshold b' = threshold b \<and> recovery b' = recovery b"
  by (induction rule: breaker_step.induct)
    (auto simp: admit_def record_success_def record_failure_def Let_def split: option.splits)

section \<open>Opening, denying, probing\<close>

text \<open>\<open>n\<close> failures in a row, at the given times.\<close>

fun fail_run :: "CircuitBreaker \<Rightarrow> Instant list \<Rightarrow> CircuitBreaker" where
  "fail_run b [] = b"
| "fail_run b (t # ts) = fail_run (record_failure t b) ts"

lemma fail_run_closed:
  assumes "\<not> half_open b" "breaker_inv b" "unat (failures b) + length ts < unat (threshold b)"
  shows "opened_at (fail_run b ts) = None \<and> \<not> half_open (fail_run b ts) \<and>
    unat (failures (fail_run b ts)) = unat (failures b) + length ts \<and>
    threshold (fail_run b ts) = threshold b \<and> recovery (fail_run b ts) = recovery b"
  using assms
proof (induction ts arbitrary: b)
  case Nil
  then show ?case by (auto simp: breaker_inv_def word_le_nat_alt)
next
  case (Cons t ts)
  have u: "unat (saturating_add (failures b) 1) = unat (failures b) + 1"
    using Cons.prems(3) unat_u32_less [of "threshold b"] by (simp add: unat_saturating_add)
  then have rf: "record_failure t b = b\<lparr>failures := saturating_add (failures b) 1\<rparr>"
    using Cons.prems by (simp add: record_failure_def Let_def word_le_nat_alt)
  have "breaker_inv (record_failure t b)"
    using Cons.prems(2) by (rule breaker_inv_step [OF breaker_step.step_failure])
  then show ?case using Cons.IH [of "record_failure t b"] Cons.prems by (simp add: rf u)
qed

lemma fail_run_append: "fail_run b (ts @ us) = fail_run (fail_run b ts) us"
  by (induction ts arbitrary: b) simp_all

text \<open>The failure that reaches the threshold opens the circuit at its own time.\<close>

lemma fail_run_opens:
  assumes "\<not> half_open b" "breaker_inv b" "unat (failures b) + length ts + 1 = unat (threshold b)"
  shows "opened_at (fail_run b (ts @ [t])) = Some t"
proof -
  let ?c = "fail_run b ts"
  have c: "\<not> half_open ?c" "unat (failures ?c) + 1 = unat (threshold ?c)"
    using fail_run_closed [OF assms(1,2), of ts] assms(3) by auto
  then have "unat (saturating_add (failures ?c) 1) = unat (threshold ?c)"
    using unat_u32_less [of "threshold ?c"] by (simp add: unat_saturating_add)
  then show ?thesis using c by (simp add: fail_run_append record_failure_def Let_def word_le_nat_alt)
qed

lemma admit_open_denied:
  "opened_at b = Some t \<Longrightarrow> duration_since now t < recovery b \<Longrightarrow> admit now b = (False, b)"
  by (simp add: admit_def)

lemma admit_after_recovery:
  "opened_at b = Some t \<Longrightarrow> recovery b \<le> duration_since now t \<Longrightarrow>
   admit now b = (True, b\<lparr>half_open := True\<rparr>)"
  by (simp add: admit_def)

lemma admit_denied_iff_open:
  assumes "breaker_inv b" "\<not> half_open b"
  shows "fst (admit now b) \<longleftrightarrow> breaker_state now b \<noteq> Open"
  using assms by (auto simp: admit_def breaker_state_def split: option.splits)

lemma record_success_closes: "opened_at (record_success b) = None" "failures (record_success b) = 0"
  by (simp_all add: record_success_def)

end
