(* ===== verification/Rate_Limiter.thy ===== *)
theory Rate_Limiter
  imports Float64
begin

text \<open>
  The sliding-window limiter of \<^verbatim>\<open>src/src/rate_limiter.rs\<close>. The clock reading of each call is an
  argument. The section after the model runs the limiter over a sequence of calls and shows that
  no window of the configured length ever holds more admitted calls than the cap.
\<close>

record RateLimiter =
  max_calls :: nat
  time_window :: Duration
  calls :: "Instant list"

definition limiter_new :: "nat \<Rightarrow> Duration \<Rightarrow> RateLimiter" where
  "limiter_new mc w = \<lparr> max_calls = mc, time_window = w, calls = [] \<rparr>"

definition acquire :: "Instant \<Rightarrow> RateLimiter \<Rightarrow> bool \<times> RateLimiter" where
  "acquire now l =
     (let kept = filter (\<lambda>call_time. duration_since now call_time < time_window l) (calls l)
      in if length kept < max_calls l then (True, l\<lparr>calls := kept @ [now]\<rparr>)
         else (False, l\<lparr>calls := kept\<rparr>))"

definition retry_after :: "Instant \<Rightarrow> RateLimiter \<Rightarrow> f64" where
  "retry_after now l =
     (if calls l = [] then Fin 0
      else let elapsed = as_secs_f64 (duration_since now (min_list (calls l)))
           in f64_max (f64_sub (as_secs_f64 (time_window l)) elapsed) (Fin 0))"

section \<open>Runs of the limiter\<close>

text \<open>The admission times of a sequence of calls, and the limiter after it.\<close>

fun admitted :: "RateLimiter \<Rightarrow> Instant list \<Rightarrow> Instant list" where
  "admitted l [] = []"
| "admitted l (t # ts) =
     (case acquire t l of (ok, l') \<Rightarrow> (if ok then t # admitted l' ts else admitted l' ts))"

fun after_calls :: "RateLimiter \<Rightarrow> Instant list \<Rightarrow> RateLimiter" where
  "after_calls l [] = l"
| "after_calls l (t # ts) = after_calls (snd (acquire t l)) ts"

definition in_window :: "Instant \<Rightarrow> Duration \<Rightarrow> Instant \<Rightarrow> bool" where
  "in_window start w t \<longleftrightarrow> start \<le> t \<and> t < start + w"

lemma acquire_frame [frame_simps, simp]:
  "max_calls (snd (acquire t l)) = max_calls l"
  "time_window (snd (acquire t l)) = time_window l"
  by (simp_all add: acquire_def Let_def)

lemma acquire_bounded: "length (calls l) \<le> max_calls l \<Longrightarrow> length (calls (snd (acquire t l))) \<le> max_calls l"
  by (simp add: acquire_def Let_def) (meson le_antisym le_trans length_filter_le not_le_imp_less)

lemma acquire_rejected_iff:
  "fst (acquire t l) = False \<longleftrightarrow>
     max_calls l \<le> length (filter (\<lambda>c. duration_since t c < time_window l) (calls l))"
  by (auto simp: acquire_def Let_def)

text \<open>The invariant of a run: \<open>hist\<close> is everything admitted so far (in time order, not after
  \<open>t\<close>), and the limiter remembers at least those of it that are still in the window of \<open>t\<close>.\<close>

definition tracks :: "RateLimiter \<Rightarrow> Instant list \<Rightarrow> Instant \<Rightarrow> bool" where
  "tracks l hist t \<longleftrightarrow>
     filter (\<lambda>c. t - c < time_window l) (calls l) = filter (\<lambda>c. t - c < time_window l) hist \<and>
     (\<forall>c \<in> set hist. c \<le> t) \<and>
     (\<forall>start. length (filter (in_window start (time_window l)) hist) \<le> max_calls l)"

lemma filter_window_later:
  "t \<le> (t' :: nat) \<Longrightarrow> filter (\<lambda>c. t - c < w) xs = filter (\<lambda>c. t - c < w) ys \<Longrightarrow>
   \<forall>c \<in> set ys. c \<le> t \<Longrightarrow>
   filter (\<lambda>c. t' - c < w) xs = filter (\<lambda>c. t' - c < w) ys"
proof -
  assume t: "t \<le> t'" and eq: "filter (\<lambda>c. t - c < w) xs = filter (\<lambda>c. t - c < w) ys"
  have "filter (\<lambda>c. t' - c < w) zs = filter (\<lambda>c. t' - c < w) (filter (\<lambda>c. t - c < w) zs)" for zs
    using t by (induction zs) auto
  then show ?thesis using eq by metis
qed

lemma tracks_acquire:
  assumes "tracks l hist t" "t \<le> t'"
  shows "tracks (snd (acquire t' l)) (if fst (acquire t' l) then hist @ [t'] else hist) t'"
proof -
  let ?w = "time_window l" and ?kept = "filter (\<lambda>c. t' - c < time_window l) (calls l)"
  have h: "\<forall>c \<in> set hist. c \<le> t'" and kept: "?kept = filter (\<lambda>c. t' - c < ?w) hist"
    using assms filter_window_later [of t t' ?w "calls l" hist] by (auto simp: tracks_def)
  have win: "length (filter (in_window start ?w) (hist @ [t'])) \<le> max_calls l"
    if "length ?kept < max_calls l" for start
  proof (cases "in_window start ?w t'")
    case False
    then show ?thesis using assms(1) by (simp add: tracks_def)
  next
    case True
    then have "t' - c < ?w" if "in_window start ?w c" for c
      using that by (auto simp: in_window_def)
    then have "length (filter (in_window start ?w) hist) \<le> length (filter (\<lambda>c. t' - c < ?w) hist)"
      by (induction hist) auto
    then show ?thesis using that True kept by simp
  qed
  show ?thesis
  proof (cases "length ?kept < max_calls l")
    case True
    then have "acquire t' l = (True, l\<lparr>calls := ?kept @ [t']\<rparr>)"
      by (simp add: acquire_def duration_since_def)
    then show ?thesis using h kept win [OF True] by (simp add: tracks_def)
  next
    case False
    then have "acquire t' l = (False, l\<lparr>calls := ?kept\<rparr>)"
      by (simp add: acquire_def duration_since_def)
    then show ?thesis using assms(1) h kept by (simp add: tracks_def)
  qed
qed

lemma tracks_run:
  assumes "tracks l hist t" "sorted (t # ts)"
  shows "\<exists>t'. tracks (after_calls l ts) (hist @ admitted l ts) t'"
  using assms
proof (induction ts arbitrary: l hist t)
  case (Cons t' ts)
  have "tracks (snd (acquire t' l)) (if fst (acquire t' l) then hist @ [t'] else hist) t'"
    using Cons.prems by (intro tracks_acquire [where t = t]) auto
  then show ?case
    using Cons.IH [of "snd (acquire t' l)" "if fst (acquire t' l) then hist @ [t'] else hist" t']
      Cons.prems(2)
    by (auto simp: case_prod_beta split: if_splits)
qed auto

lemma after_calls_frame [frame_simps, simp]:
  "max_calls (after_calls l ts) = max_calls l" "time_window (after_calls l ts) = time_window l"
  by (induction ts arbitrary: l) simp_all

lemma tracks_new: "tracks (limiter_new mc w) [] t"
  by (simp add: tracks_def limiter_new_def)

lemma admitted_per_window:
  assumes "sorted ts"
  shows "length (filter (in_window start w) (admitted (limiter_new mc w) ts)) \<le> mc"
proof -
  have "sorted (0 # ts)" using assms by simp
  then obtain t' where "tracks (after_calls (limiter_new mc w) ts) ([] @ admitted (limiter_new mc w) ts) t'"
    using tracks_run [OF tracks_new] by blast
  then show ?thesis by (simp add: tracks_def limiter_new_def)
qed

text \<open>A limiter whose oldest remembered call has left the window admits the next call.\<close>

lemma acquire_after_window:
  assumes "0 < max_calls l" "length (calls l) \<le> max_calls l" "calls l \<noteq> []"
    and "min_list (calls l) + time_window l \<le> now"
  shows "fst (acquire now l)"
proof -
  have mem: "min_list (calls l) \<in> set (calls l)"
    using assms(3) by (simp add: min_list_Min)
  have "\<not> duration_since now (min_list (calls l)) < time_window l"
    using assms(4) by (simp add: duration_since_def)
  then have "length (filter (\<lambda>c. duration_since now c < time_window l) (calls l)) < length (calls l)"
    using mem by (intro length_filter_less) auto
  then show ?thesis using assms(2) by (simp add: acquire_def Let_def)
qed

end
