(* ===== verification/Retry_Loop.thy ===== *)
theory Retry_Loop
  imports Prelude
begin

text \<open>
  The attempt loop shared by the two retry routines of the transport: at most \<open>n\<close> passes over a
  body that either returns or goes on, and a fallback when the attempts are used up. The locale
  \<open>attempt_body\<close> states what a body promises (an invariant, and at most one unit of cost per pass)
  and proves once what the loop then guarantees; the transport interprets it for its POST and its
  GET loop.
\<close>

datatype ('r, 's) loop_step = Return 'r 's | Again 's

primrec retry_loop ::
  "nat \<Rightarrow> (nat \<Rightarrow> 's \<Rightarrow> ('r, 's) loop_step) \<Rightarrow> 'r \<Rightarrow> nat \<Rightarrow> 's \<Rightarrow> 'r \<times> 's" where
  "retry_loop 0 body fallback attempt s = (fallback, s)"
| "retry_loop (Suc n) body fallback attempt s =
     (case body attempt s of
        Return r s' \<Rightarrow> (r, s')
      | Again s' \<Rightarrow> retry_loop n body fallback (attempt + 1) s')"

lemma retry_loop_rule:
  assumes "I attempt s"
    and "\<And>a s s'. I a s \<Longrightarrow> body a s = Again s' \<Longrightarrow> I (a + 1) s'"
    and "\<And>a s r s'. I a s \<Longrightarrow> body a s = Return r s' \<Longrightarrow> Q r s'"
    and "\<And>s. I (attempt + n) s \<Longrightarrow> Q fallback s"
  shows "Q (fst (retry_loop n body fallback attempt s)) (snd (retry_loop n body fallback attempt s))"
  using assms(1,4)
proof (induction n arbitrary: attempt s)
  case (Suc n)
  show ?case
  proof (cases "body attempt s")
    case (Again s')
    have "I (attempt + 1) s'" using assms(2) Suc.prems(1) Again by blast
    then show ?thesis using Suc.IH [of "attempt + 1" s'] Suc.prems(2) Again by simp
  qed (use assms(3) Suc.prems(1) in auto)
qed simp

text \<open>The state after one pass, whether it returned or not.\<close>

fun step_state :: "('r, 's) loop_step \<Rightarrow> 's" where
  "step_state (Return r s) = s"
| "step_state (Again s) = s"

locale attempt_body =
  fixes body :: "nat \<Rightarrow> 's \<Rightarrow> ('r, 's) loop_step"
    and inv :: "'s \<Rightarrow> bool"
    and cost :: "'s \<Rightarrow> nat"
  assumes inv_step: "inv s \<Longrightarrow> inv (step_state (body a s))"
    and cost_step: "cost s \<le> cost (step_state (body a s)) \<and> cost (step_state (body a s)) \<le> cost s + 1"
begin

lemma inv_Again: "inv s \<Longrightarrow> body a s = Again s' \<Longrightarrow> inv s'"
  using inv_step [of s a] by simp

lemma inv_Return: "inv s \<Longrightarrow> body a s = Return r s' \<Longrightarrow> inv s'"
  using inv_step [of s a] by simp

lemma loop_inv: "inv s \<Longrightarrow> inv (snd (retry_loop n body fallback a s))"
  by (rule retry_loop_rule [where I = "\<lambda>_. inv" and Q = "\<lambda>_. inv"]) (auto intro: inv_Again inv_Return)

lemma loop_cost:
  "cost s \<le> cost (snd (retry_loop n body fallback a s)) \<and>
   cost (snd (retry_loop n body fallback a s)) \<le> cost s + n"
proof (induction n arbitrary: a s)
  case (Suc n)
  show ?case
  proof (cases "body a s")
    case (Again s')
    with cost_step [of s a] Suc.IH [of s' "a + 1"] show ?thesis by auto
  next
    case (Return r s')
    with cost_step [of s a] show ?thesis by auto
  qed
qed simp

end

end
