(* ===== verification/Transport.thy ===== *)
theory Transport
  imports Environment Circuit_Breaker Rate_Limiter Retry_Loop
begin

text \<open>
  The HTTP transport, \<^verbatim>\<open>src/src/transport.rs\<close>: construction with fail-closed encryption, the
  classification of responses, one POST and one GET attempt, the two retry loops, batch sending
  with 413 split-or-drop, the encrypted envelope, status and rules. Every operation takes the
  externals and passes the pair of transport state and world.
\<close>

definition AGENT_VERSION :: string where "AGENT_VERSION = ''3.2.2''"
definition NON_RETRYABLE_STATUS_CODES :: "u16 list" where "NON_RETRYABLE_STATUS_CODES = [400, 404, 422]"
definition MAX_RETRY_AFTER_SECS :: f64 where [const_defs]: "MAX_RETRY_AFTER_SECS = Fin 300"
definition MAX_RETRY_BACKOFF_SECS :: f64 where [const_defs]: "MAX_RETRY_BACKOFF_SECS = Fin 60"
definition DEFAULT_RETRY_AFTER_SECS :: f64 where [const_defs]: "DEFAULT_RETRY_AFTER_SECS = Fin 60"
definition RETRY_AFTER_HEADER_MAX_LEN :: nat where [const_defs]: "RETRY_AFTER_HEADER_MAX_LEN = 32"
definition RATE_LIMIT_MAX_CALLS :: nat where [const_defs]: "RATE_LIMIT_MAX_CALLS = 100"
definition RATE_LIMIT_WINDOW_SECS :: nat where [const_defs]: "RATE_LIMIT_WINDOW_SECS = 60"

section \<open>Outcomes and batches\<close>

datatype SendOutcome = Accepted | PermanentDrop u16 string | Failed GuardAgentError

fun is_confirmed :: "SendOutcome \<Rightarrow> bool" where
  "is_confirmed Accepted = True"
| "is_confirmed (PermanentDrop _ _) = True"
| "is_confirmed (Failed _) = False"

datatype GetAttempt = GetOk Value | GetRateLimited f64 | GetRetryable GuardAgentError

datatype AttemptResult =
    AttemptAccepted
  | AttemptPartialFailure "string list"
  | AttemptPermanent u16 string
  | AttemptTooLarge string
  | AttemptRateLimited f64
  | AttemptRetryable GuardAgentError

datatype BatchItems = Events "SecurityEvent list" | Metrics "SecurityMetric list"

fun batch_len :: "BatchItems \<Rightarrow> nat" where
  "batch_len (Events events) = length events"
| "batch_len (Metrics metrics) = length metrics"

fun batch_label :: "BatchItems \<Rightarrow> string" where
  "batch_label (Events _) = ''events''"
| "batch_label (Metrics _) = ''metrics''"

fun batch_split :: "BatchItems \<Rightarrow> BatchItems \<times> BatchItems" where
  "batch_split (Events events) =
     (let midpoint = length events div 2 in (Events (take midpoint events), Events (drop midpoint events)))"
| "batch_split (Metrics metrics) =
     (let midpoint = length metrics div 2 in (Metrics (take midpoint metrics), Metrics (drop midpoint metrics)))"

fun items_value :: "externals \<Rightarrow> BatchItems \<Rightarrow> string + Value" where
  "items_value ext (Events events) = events_to_value ext events"
| "items_value ext (Metrics metrics) = metrics_to_value ext metrics"

fun batch_summary :: "BatchItems \<Rightarrow> string" where
  "batch_summary (Events events) = show_nat (length events) @ '' event(s)''"
| "batch_summary (Metrics metrics) = show_nat (length metrics) @ '' metric(s)''"

section \<open>Construction\<close>

record HttpTransport =
  client_headers :: "(string \<times> string) list"
  tr_config :: AgentConfig
  breaker :: CircuitBreaker
  rate_limiter :: RateLimiter
  requests_sent :: u64
  requests_failed :: u64
  bytes_sent :: u64
  encryptor :: "PayloadEncryptor option"

text \<open>The default headers, in the order they are inserted; each value but the static content type
  is validated.\<close>

definition default_headers :: "AgentConfig \<Rightarrow> string \<Rightarrow> (string \<times> string) list" where
  "default_headers cfg install_id =
     [(''user-agent'', ''guard-agent-rs/'' @ AGENT_VERSION), (''content-type'', ''application/json''),
      (''X-API-Key'', api_key cfg), (''X-Agent-Install-Id'', install_id)] @
     (case project_id cfg of None \<Rightarrow> [] | Some p \<Rightarrow> [(''X-Project-Id'', p)])"

definition init_encryptor :: "externals \<Rightarrow> AgentConfig \<Rightarrow> bytes \<Rightarrow> GuardAgentError + PayloadEncryptor option" where
  "init_encryptor ext cfg nonce =
     (case project_encryption_key cfg of
        None \<Rightarrow> Inr None
      | Some key \<Rightarrow>
          (if key = [] then Inr None
           else case encryptor_new (crypt ext) key of
                  Inl e \<Rightarrow> Inl e
                | Inr enc \<Rightarrow>
                    (if verify_key (crypt ext) enc nonce then Inr (Some enc)
                     else Inl (EncryptionConfig
                       ''Encryption round-trip failed at startup; refusing plaintext fallback''))))"

definition transport_new ::
  "externals \<Rightarrow> AgentConfig \<Rightarrow> string \<Rightarrow> bytes \<Rightarrow> GuardAgentError + HttpTransport" where
  "transport_new ext cfg install_id nonce =
     (let hs = default_headers cfg install_id
      in if \<not> list_all (\<lambda>(n, v). n = ''content-type'' \<or> header_value_ok ext v) hs
         then Inl (Transport ''header value contains invalid characters'')
         else case client_build ext (timeout cfg) hs of
                Inl e \<Rightarrow> Inl (Transport (''failed to build HTTP client: '' @ e))
              | Inr _ \<Rightarrow>
                  (case init_encryptor ext cfg nonce of
                     Inl e \<Rightarrow> Inl e
                   | Inr enc \<Rightarrow>
                       Inr \<lparr> client_headers = hs, tr_config = cfg, breaker = breaker_default,
                             rate_limiter = limiter_new RATE_LIMIT_MAX_CALLS (from_secs RATE_LIMIT_WINDOW_SECS),
                             requests_sent = 0, requests_failed = 0, bytes_sent = 0, encryptor = enc \<rparr>))"

definition transport_breaker_state :: "Instant \<Rightarrow> HttpTransport \<Rightarrow> CircuitBreakerState" where
  "transport_breaker_state now t = breaker_state now (breaker t)"

definition counters :: "HttpTransport \<Rightarrow> u64 \<times> u64 \<times> u64" where
  "counters t = (requests_sent t, requests_failed t, bytes_sent t)"

section \<open>Classification of responses\<close>

definition parse_ack :: "externals \<Rightarrow> string \<Rightarrow> AttemptResult" where
  "parse_ack ext body_text =
     (case ack_from_str ext body_text of
        Inr ack \<Rightarrow>
          (let errors = (case ack_errors ack of None \<Rightarrow> [] | Some es \<Rightarrow> es)
           in if ack_success ack = Some False \<or> errors \<noteq> [] then AttemptPartialFailure errors
              else AttemptAccepted)
      | Inl _ \<Rightarrow> AttemptRetryable (Transport ''200 response with unparseable JSON body''))"

definition classify_response :: "externals \<Rightarrow> u16 \<Rightarrow> string \<Rightarrow> string \<Rightarrow> string option \<Rightarrow> AttemptResult" where
  "classify_response ext status body_text url retry_after_header =
     (if status = 200 then parse_ack ext body_text
      else if 201 \<le> status \<and> status \<le> 299 then AttemptAccepted
      else if status = 429
        then AttemptRateLimited (parse_retry_after_seconds retry_after_header DEFAULT_RETRY_AFTER_SECS)
      else if status = 413 then AttemptTooLarge (summarize_response_body body_text)
      else if status \<in> set NON_RETRYABLE_STATUS_CODES
        then AttemptPermanent status (summarize_response_body body_text)
      else if status = 401 \<or> status = 403
        then AttemptRetryable (Transport (''Authentication failed: '' @ show_nat (unat status) @ '' for POST '' @ url))
      else if 500 \<le> status \<and> status \<le> 599
        then AttemptRetryable (Transport (''Server error '' @ show_nat (unat status) @ '' for POST '' @ url @
               '': '' @ summarize_response_body body_text))
      else AttemptRetryable (Transport (''Client error '' @ show_nat (unat status) @ '' for POST '' @ url @
               '': '' @ summarize_response_body body_text)))"

definition classify_attempt :: "externals \<Rightarrow> HttpResponse \<Rightarrow> string \<Rightarrow> AttemptResult" where
  "classify_attempt ext response url =
     (let retry_after_header = map_option (take RETRY_AFTER_HEADER_MAX_LEN) (resp_retry_after response)
      in case resp_text response of
           Inl e \<Rightarrow> AttemptRetryable (Transport (''Failed to read response body for POST '' @ url @ '': '' @ e))
         | Inr body_text \<Rightarrow> classify_response ext (resp_status response) body_text url retry_after_header)"

definition classify_get_attempt :: "externals \<Rightarrow> HttpResponse \<Rightarrow> string \<Rightarrow> GetAttempt" where
  "classify_get_attempt ext response url =
     (let status = resp_status response;
          retry_after_header = map_option (take RETRY_AFTER_HEADER_MAX_LEN) (resp_retry_after response)
      in case resp_text response of
           Inl e \<Rightarrow> GetRetryable (Transport (''Failed to read response body for GET '' @ url @ '': '' @ e))
         | Inr body_text \<Rightarrow>
             (if 200 \<le> status \<and> status < 300
              then (case value_from_str ext body_text of
                      Inl _ \<Rightarrow> GetRetryable (Transport (''GET '' @ url @ '' returned status '' @
                                 show_nat (unat status) @ '' with unparseable JSON body''))
                    | Inr v \<Rightarrow> GetOk v)
              else if status = 429
                then GetRateLimited (parse_retry_after_seconds retry_after_header DEFAULT_RETRY_AFTER_SECS)
              else GetRetryable (Transport (''Client error '' @ show_nat (unat status) @ '' for GET '' @ url @
                     '': '' @ summarize_response_body body_text))))"

section \<open>One attempt\<close>

type_synonym 'st tstate = "HttpTransport \<times> 'st World"

definition api_url :: "HttpTransport \<Rightarrow> string \<Rightarrow> string" where
  "api_url t label = endpoint (tr_config t) @ ''/api/v1/'' @ label"

definition maybe_compress :: "externals \<Rightarrow> AgentConfig \<Rightarrow> bytes \<Rightarrow> bytes \<times> bool" where
  "maybe_compress ext cfg body =
     (if compression_enabled cfg \<and> compression_threshold cfg \<le> length body
      then (gzip_bytes (gzip_encode ext) body, True) else (body, False))"

definition post_request :: "externals \<Rightarrow> HttpTransport \<Rightarrow> string \<Rightarrow> bytes \<Rightarrow> HttpRequest" where
  "post_request ext t label body =
     (let (wire_body, gzipped) = maybe_compress ext (tr_config t) body
      in \<lparr> req_method = ''POST'', req_url = api_url t label, req_headers = client_headers t,
           req_body = wire_body, req_gzip = gzipped,
           req_signature = sign_payload (hmac_sha256 ext) body (payload_signing_secret (tr_config t)) \<rparr>)"

definition attempt_post :: "externals \<Rightarrow> string \<Rightarrow> bytes \<Rightarrow> 'st tstate \<Rightarrow> AttemptResult \<times> 'st tstate" where
  "attempt_post ext label body s =
     (let (t, w) = s;
          req = post_request ext t label body;
          t1 = t\<lparr>bytes_sent := bytes_sent t + of_nat (min (length (req_body req)) (2 ^ 64 - 1))\<rparr>;
          (r, w1) = http_send ext req w;
          url = api_url t label
      in case r of
           Inl e \<Rightarrow> (AttemptRetryable (Transport (''HTTP client error for POST '' @ url @ '': '' @ e)), (t1, w1))
         | Inr response \<Rightarrow>
             (classify_attempt ext response url, (t1\<lparr>requests_sent := requests_sent t1 + 1\<rparr>, w1)))"

definition get_request :: "HttpTransport \<Rightarrow> string \<Rightarrow> HttpRequest" where
  "get_request t url =
     \<lparr> req_method = ''GET'', req_url = url, req_headers = client_headers t, req_body = [],
       req_gzip = False, req_signature = None \<rparr>"

definition get_attempt :: "externals \<Rightarrow> string \<Rightarrow> 'st tstate \<Rightarrow> GetAttempt \<times> 'st tstate" where
  "get_attempt ext url s =
     (let (t, w) = s; (r, w1) = http_send ext (get_request t url) w
      in case r of
           Inl e \<Rightarrow> (GetRetryable (Transport (''HTTP client error for GET '' @ url @ '': '' @ e)), (t, w1))
         | Inr response \<Rightarrow> (classify_get_attempt ext response url, (t, w1)))"

section \<open>The retry loops\<close>

definition total_attempts :: "AgentConfig \<Rightarrow> nat" where
  "total_attempts cfg = unat (saturating_add (retry_attempts cfg) 1)"

definition sleep_backoff :: "externals \<Rightarrow> AgentConfig \<Rightarrow> nat \<Rightarrow> 'st World \<Rightarrow> 'st World" where
  "sleep_backoff ext cfg attempt w =
     sleep_secs ext (calculate_backoff_delay (of_nat attempt) (backoff_factor cfg) MAX_RETRY_BACKOFF_SECS) w"

definition count_failed :: "HttpTransport \<Rightarrow> HttpTransport" where
  "count_failed t = t\<lparr>requests_failed := requests_failed t + 1\<rparr>"

definition note_success :: "HttpTransport \<Rightarrow> HttpTransport" where
  "note_success t = t\<lparr>breaker := record_success (breaker t)\<rparr>"

definition note_failure :: "Instant \<Rightarrow> HttpTransport \<Rightarrow> HttpTransport" where
  "note_failure now t = t\<lparr>breaker := record_failure now (breaker t)\<rparr>"

text \<open>\<^verbatim>\<open>{errors:?}\<close> of a vector of strings.\<close>

definition debug_char :: "char \<Rightarrow> string" where
  "debug_char c =
     (let n = (of_char c :: nat)
      in if n = 0 then [CHR 0x5C, CHR ''0'']
         else if n = 9 then [CHR 0x5C, CHR ''t''] else if n = 13 then [CHR 0x5C, CHR ''r'']
         else if n = 10 then [CHR 0x5C, CHR ''n''] else if n = 34 then [CHR 0x5C, CHR 0x22]
         else if n = 92 then [CHR 0x5C, CHR 0x5C]
         else if n < 32 \<or> (127 \<le> n \<and> n \<le> 160) \<or> n = 173
           then [CHR 0x5C, CHR ''u'', CHR 0x7B] @ show_base 16 n @ [CHR 0x7D]
         else [c])"

definition debug_strings :: "string list \<Rightarrow> string" where
  "debug_strings ss =
     ''['' @ join '', '' (map (\<lambda>s. [CHR 0x22] @ concat (map debug_char s) @ [CHR 0x22]) ss) @ '']''"

definition breaker_open_error :: GuardAgentError where
  "breaker_open_error = Transport ''Circuit breaker is OPEN''"

text \<open>The exhausted attempt of the POST loop: the failure is counted, the hook is called.\<close>

definition give_up :: "GuardAgentError \<Rightarrow> 'st tstate \<Rightarrow> (string + SendOutcome, 'st tstate) loop_step" where
  "give_up err s =
     (let (t, w) = s
      in Return (Inr (Failed err)) (count_failed t, fire_hook (tr_config t) TransportSend err w))"

text \<open>The body of the loop of \<^verbatim>\<open>send_with_retry\<close>: limiter, breaker, one attempt. A 413 escapes as
  \<^const>\<open>Inl\<close>.\<close>

definition send_body ::
  "externals \<Rightarrow> string \<Rightarrow> bytes \<Rightarrow> nat \<Rightarrow> nat \<Rightarrow> 'st tstate \<Rightarrow> (string + SendOutcome, 'st tstate) loop_step" where
  "send_body ext label body limit attempt s =
     (let (t, w) = s; cfg = tr_config t; (ok, rl) = acquire (clock w) (rate_limiter t);
          t1 = t\<lparr>rate_limiter := rl\<rparr>
      in if \<not> ok then Again (t1, sleep_secs ext (retry_after (clock w) rl) w)
         else let (admitted, b) = admit (clock w) (breaker t1); t2 = t1\<lparr>breaker := b\<rparr>
              in if \<not> admitted then
                   (if attempt + 1 = limit then give_up breaker_open_error (t2, w)
                    else Again (t2, sleep_backoff ext cfg attempt w))
                 else let (res, t3, w3) = attempt_post ext label body (t2, w)
                      in case res of
                           AttemptAccepted \<Rightarrow> Return (Inr Accepted) (note_success t3, w3)
                         | AttemptPartialFailure errors \<Rightarrow>
                             Return (Inr (Failed (Transport (''Server acknowledged '' @ label @
                               '' batch with partial failure: '' @ debug_strings errors))))
                               (note_success t3, w3)
                         | AttemptPermanent status_code detail \<Rightarrow>
                             Return (Inr (PermanentDrop status_code detail)) (t3, w3)
                         | AttemptTooLarge detail \<Rightarrow> Return (Inl detail) (t3, w3)
                         | AttemptRateLimited secs \<Rightarrow>
                             (let t4 = note_failure (clock w3) t3
                              in if attempt + 1 = limit then give_up (RateLimited secs) (t4, w3)
                                 else Again (t4, sleep_secs ext (f64_min secs MAX_RETRY_AFTER_SECS) w3))
                         | AttemptRetryable err \<Rightarrow>
                             (let t4 = note_failure (clock w3) t3
                              in if attempt + 1 = limit then give_up err (t4, w3)
                                 else Again (t4, sleep_backoff ext cfg attempt w3)))"

definition loop_exited :: GuardAgentError where
  "loop_exited = Transport ''retry loop exited unexpectedly''"

definition send_with_retry ::
  "externals \<Rightarrow> string \<Rightarrow> bytes \<Rightarrow> 'st tstate \<Rightarrow> (string + SendOutcome) \<times> 'st tstate" where
  "send_with_retry ext label body s =
     (let limit = total_attempts (tr_config (fst s))
      in retry_loop limit (send_body ext label body limit) (Inr (Failed loop_exited)) 0 s)"

text \<open>The body of the loop of \<^verbatim>\<open>get_with_retry\<close>.\<close>

definition get_body ::
  "externals \<Rightarrow> string \<Rightarrow> nat \<Rightarrow> nat \<Rightarrow> 'st tstate \<Rightarrow> (Value option, 'st tstate) loop_step" where
  "get_body ext url limit attempt s =
     (let (t, w) = s; cfg = tr_config t; (ok, rl) = acquire (clock w) (rate_limiter t);
          t1 = t\<lparr>rate_limiter := rl\<rparr>
      in if \<not> ok then Again (t1, sleep_secs ext (retry_after (clock w) rl) w)
         else let (admitted, b) = admit (clock w) (breaker t1); t2 = t1\<lparr>breaker := b\<rparr>
              in if \<not> admitted then
                   (if attempt + 1 = limit then Return None (count_failed t2, w)
                    else Again (t2, sleep_backoff ext cfg attempt w))
                 else let (res, t3, w3) = get_attempt ext url (t2, w)
                      in case res of
                           GetOk v \<Rightarrow>
                             (let t4 = note_success t3
                              in if is_object v
                                 then Return (Some v) (t4\<lparr>requests_sent := requests_sent t4 + 1\<rparr>, w3)
                                 else Again (count_failed t4, w3))
                         | GetRateLimited secs \<Rightarrow>
                             (let t4 = note_failure (clock w3) t3
                              in if attempt + 1 = limit then Return None (count_failed t4, w3)
                                 else Again (t4, sleep_secs ext (f64_min secs MAX_RETRY_AFTER_SECS) w3))
                         | GetRetryable err \<Rightarrow>
                             (let t4 = note_failure (clock w3) t3
                              in if attempt + 1 = limit then Return None (count_failed t4, w3)
                                 else Again (t4, sleep_backoff ext cfg attempt w3)))"

definition get_with_retry :: "externals \<Rightarrow> string \<Rightarrow> 'st tstate \<Rightarrow> Value option \<times> 'st tstate" where
  "get_with_retry ext label s =
     (let limit = total_attempts (tr_config (fst s)); url = api_url (fst s) label
      in retry_loop limit (get_body ext url limit) None 0 s)"

definition fetch_rules :: "externals \<Rightarrow> 'st tstate \<Rightarrow> DynamicRules option \<times> 'st tstate" where
  "fetch_rules ext s =
     (case get_with_retry ext ''rules'' s of
        (None, s') \<Rightarrow> (None, s')
      | (Some v, s') \<Rightarrow>
          ((case rules_from_value ext v of Inr rules \<Rightarrow> Some rules | Inl _ \<Rightarrow> None), s'))"

section \<open>Batches\<close>

text \<open>The envelopes. A JSON null stands for an absent version, as \<^verbatim>\<open>json!\<close> renders an option.\<close>

definition json_opt :: "string option \<Rightarrow> Value" where
  "json_opt s = (case s of None \<Rightarrow> Null | Some x \<Rightarrow> String x)"

definition split_kinds :: "BatchItems \<Rightarrow> Value \<Rightarrow> Value \<times> Value" where
  "split_kinds items v = (case items of Events _ \<Rightarrow> (v, Array []) | Metrics _ \<Rightarrow> (Array [], v))"

definition build_batch_body ::
  "externals \<Rightarrow> AgentConfig \<Rightarrow> BatchItems \<Rightarrow> 'st World \<Rightarrow> (string + bytes) \<times> 'st World" where
  "build_batch_body ext cfg items w =
     (case items_value ext items of
        Inl e \<Rightarrow> (Inl e, w)
      | Inr v \<Rightarrow>
          (let (events, metrics) = split_kinds items v; (uuid, w1) = draw_uuid ext w;
               envelope = Object
                 [(''project_id'', String (payload_project_id cfg)), (''events'', events),
                  (''metrics'', metrics), (''batch_id'', String (generate_batch_id (system_time ext (clock w)) uuid)),
                  (''created_at'', String (datetime_to_string ext (utc_now ext w))),
                  (''compressed'', Bool False), (''agent_version'', String AGENT_VERSION),
                  (''guard_version'', json_opt (guard_version cfg)),
                  (''guard_core_version'', json_opt (guard_core_version cfg))]
           in (value_to_vec ext envelope, w1)))"

text \<open>The outcome of the retry loop on a batch: a permanent rejection calls the hook.\<close>

definition report_outcome :: "SendOutcome \<Rightarrow> 'st tstate \<Rightarrow> SendOutcome \<times> 'st tstate" where
  "report_outcome out s =
     (case out of
        PermanentDrop status_code detail \<Rightarrow>
          (let (t, w) = s in (out, (t, fire_hook (tr_config t) TransportSend (Permanent status_code detail) w)))
      | _ \<Rightarrow> (out, s))"

definition drop_too_large :: "string \<Rightarrow> 'st tstate \<Rightarrow> SendOutcome \<times> 'st tstate" where
  "drop_too_large detail s =
     (let (t, w) = s
      in (PermanentDrop 413 detail, (t, fire_hook (tr_config t) TransportSend (PayloadTooLarge detail) w)))"

text \<open>An error before anything is sent: the hook is called at the given stage, the batch retained.\<close>

definition abort_send :: "ErrorStage \<Rightarrow> GuardAgentError \<Rightarrow> 'st tstate \<Rightarrow> SendOutcome \<times> 'st tstate" where
  "abort_send stage err s = (let (t, w) = s in (Failed err, (t, fire_hook (tr_config t) stage err w)))"

definition send_batch_encrypted ::
  "externals \<Rightarrow> PayloadEncryptor \<Rightarrow> BatchItems \<Rightarrow> 'st tstate \<Rightarrow> SendOutcome \<times> 'st tstate" where
  "send_batch_encrypted ext enc items s =
     (let (t, w) = s; cfg = tr_config t
      in case items_value ext items of
           Inl e \<Rightarrow> abort_send EncryptionStage (Serialization e) s
         | Inr v \<Rightarrow>
             (let (events, metrics) = split_kinds items v;
                  payload = Object [(''events'', events), (''metrics'', metrics)];
                  (nonce, w1) = draw_nonce ext w
              in case encrypt (crypt ext) enc nonce payload None of
                   Inl e \<Rightarrow> abort_send EncryptionStage e (t, w1)
                 | Inr encrypted_payload \<Rightarrow>
                     (let (uuid, w2) = draw_uuid ext w1;
                          envelope = Object
                            [(''encrypted_payload'', String encrypted_payload),
                             (''batch_id'', String (generate_batch_id (system_time ext (clock w2)) uuid)),
                             (''agent_version'', String AGENT_VERSION),
                             (''guard_version'', json_opt (guard_version cfg)),
                             (''guard_core_version'', json_opt (guard_core_version cfg))]
                      in case value_to_vec ext envelope of
                           Inl e \<Rightarrow> abort_send EncryptionStage (Serialization e) (t, w2)
                         | Inr body \<Rightarrow>
                             (case send_with_retry ext ''events/encrypted'' body (t, w2) of
                                (Inr out, s') \<Rightarrow> report_outcome out s'
                              | (Inl detail, s') \<Rightarrow> drop_too_large detail s'))))"

text \<open>The plaintext path of \<^verbatim>\<open>send_batch\<close> up to the answer of the retry loop: \<^const>\<open>Inl\<close> is a final
  outcome that needs no request.\<close>

definition send_plain ::
  "externals \<Rightarrow> BatchItems \<Rightarrow> 'st tstate \<Rightarrow> (SendOutcome + string + SendOutcome) \<times> 'st tstate" where
  "send_plain ext items s =
     (let (t, w) = s
      in case build_batch_body ext (tr_config t) items w of
           (Inl e, w1) \<Rightarrow>
             (let (out, s') = abort_send TransportSend (Serialization e) (t, w1) in (Inl out, s'))
         | (Inr body, w1) \<Rightarrow>
             (let (r, s') = send_with_retry ext (batch_label items) body (t, w1) in (Inr r, s')))"

lemma batch_split_len:
  "batch_split items = (l, r) \<Longrightarrow> 1 < batch_len items \<Longrightarrow>
   batch_len l + batch_len r = batch_len items \<and> 0 < batch_len l \<and> 0 < batch_len r"
  by (cases items) (auto simp: Let_def)

text \<open>\<^verbatim>\<open>send_batch\<close> and \<^verbatim>\<open>split_or_drop\<close> call each other on halves of the batch.\<close>

function (sequential) send_batch :: "externals \<Rightarrow> BatchItems \<Rightarrow> 'st tstate \<Rightarrow> SendOutcome \<times> 'st tstate"
  and split_or_drop :: "externals \<Rightarrow> BatchItems \<Rightarrow> string \<Rightarrow> 'st tstate \<Rightarrow> SendOutcome \<times> 'st tstate" where
  "send_batch ext items s =
     (case encryptor (fst s) of
        Some enc \<Rightarrow> send_batch_encrypted ext enc items s
      | None \<Rightarrow>
          (case send_plain ext items s of
             (Inl out, s') \<Rightarrow> (out, s')
           | (Inr (Inr out), s') \<Rightarrow> report_outcome out s'
           | (Inr (Inl detail), s') \<Rightarrow> split_or_drop ext items detail s'))"
| "split_or_drop ext items detail s =
     (if batch_len items \<le> 1 then drop_too_large detail s
      else let (left, right) = batch_split items; (left_outcome, s') = send_batch ext left s
           in if is_confirmed left_outcome then send_batch ext right s' else (left_outcome, s'))"
  by pat_completeness auto

termination
proof (relation "measure (\<lambda>x. case x of Inl (ext, items, s) \<Rightarrow> 2 * batch_len items + 1
                                      | Inr (ext, items, detail, s) \<Rightarrow> 2 * batch_len items)", goal_cases)
  case (3 ext items detail s x l r)
  then show ?case using batch_split_len [of items l r] by simp
next
  case (4 ext items detail s x l r y out s')
  then show ?case using batch_split_len [of items l r] by simp
qed auto

declare send_batch.simps [simp del] split_or_drop.simps [simp del]

section \<open>Status\<close>

definition send_status :: "externals \<Rightarrow> AgentStatus \<Rightarrow> 'st tstate \<Rightarrow> SendOutcome \<times> 'st tstate" where
  "send_status ext status s =
     (case status_to_vec ext status of
        Inl e \<Rightarrow> abort_send TransportSend (Serialization e) s
      | Inr body \<Rightarrow>
          (case send_with_retry ext ''status'' body s of
             (Inr out, s') \<Rightarrow> (out, s')
           | (Inl detail, s') \<Rightarrow> abort_send TransportSend (PayloadTooLarge detail) s'))"

end
