(* ===== verification/Agent_State.thy ===== *)
theory Agent_State
  imports Transport
begin

text \<open>
  The state of the agent and its buffer operations, the first part of \<^verbatim>\<open>src/src/agent.rs\<close>: the core
  state behind the async mutex, the shared record, persisting and forgetting records, draining and
  requeueing a buffer, and enqueueing under the three overflow policies. Each definition that the
  sources run under one acquisition of the core mutex is one function here. The notification
  \<^verbatim>\<open>space_freed\<close> carries no data and only shortens the polling wait of the \<^verbatim>\<open>block\<close> policy. Counters are
  machine words with the wrap-around of a release build.
\<close>

definition PARTIAL_FAILURE_MAX_BACKOFF_SECS :: f64 where
  [const_defs]: "PARTIAL_FAILURE_MAX_BACKOFF_SECS = Fin 300"
definition BLOCK_POLICY_POLL_MS :: nat where [const_defs]: "BLOCK_POLICY_POLL_MS = 50"

record 'a BufferedItem =
  item :: 'a
  redis_key :: "string option"

record LoopFailures =
  lf_flush :: u32
  lf_status :: u32
  lf_rules :: u32

record 'st CoreState =
  events :: "SecurityEvent BufferedItem list"
  metrics :: "SecurityMetric BufferedItem list"
  redis_handler :: "'st RedisHandler option"
  events_flushed :: u64
  metrics_flushed :: u64
  events_dropped :: u64
  metrics_dropped :: u64
  events_sent :: u64
  metrics_sent :: u64
  events_failed :: u64
  metrics_failed :: u64
  redis_persist_failures :: u64
  events_failure_streak :: u32
  metrics_failure_streak :: u32
  events_retry_after :: "Instant option"
  metrics_retry_after :: "Instant option"
  last_flush_instant :: "Instant option"
  last_flush :: "DateTime option"
  loop_failures :: LoopFailures
  status_consecutive_failures :: u32
  last_status_push_ok :: "bool option"
  cached_rules :: "DynamicRules option"
  rules_last_update :: "Instant option"
  rules_fetched :: u64

definition core_new :: "'st CoreState" where
  "core_new =
     \<lparr> events = [], metrics = [], redis_handler = None, events_flushed = 0, metrics_flushed = 0,
       events_dropped = 0, metrics_dropped = 0, events_sent = 0, metrics_sent = 0,
       events_failed = 0, metrics_failed = 0, redis_persist_failures = 0,
       events_failure_streak = 0, metrics_failure_streak = 0, events_retry_after = None,
       metrics_retry_after = None, last_flush_instant = None, last_flush = None,
       loop_failures = \<lparr> lf_flush = 0, lf_status = 0, lf_rules = 0 \<rparr>,
       status_consecutive_failures = 0, last_status_push_ok = None, cached_rules = None,
       rules_last_update = None, rules_fetched = 0 \<rparr>"

text \<open>\<open>flush_permits\<close> is the number of free permits of the flush semaphore, \<open>inflight\<close> the number of
  spawned flush tasks that have not finished.\<close>

record 'st Shared =
  config :: AgentConfig
  sh_install_id :: string
  transport :: HttpTransport
  redactor :: Redactor
  core :: "'st CoreState"
  flush_permits :: nat
  inflight :: nat
  started_at :: Instant
  running :: bool

type_synonym 'st astate = "'st Shared \<times> 'st World"

section \<open>Persistence of single records\<close>

definition persist_item ::
  "externals \<Rightarrow> string \<Rightarrow> string \<Rightarrow> string + string \<Rightarrow> 'st CoreState \<Rightarrow> 'st World \<Rightarrow>
   string option \<times> 'st CoreState \<times> 'st World" where
  "persist_item ext namespace pre serialized c w =
     (case redis_handler c of
        None \<Rightarrow> (None, c, w)
      | Some handler \<Rightarrow>
          (let (uuid, w1) = draw_uuid ext w;
               short_key = generate_short_key (system_time ext (clock w)) uuid pre
           in case serialized of
                Inl _ \<Rightarrow> (None, c\<lparr>redis_persist_failures := redis_persist_failures c + 1\<rparr>, w1)
              | Inr value \<Rightarrow>
                  (case set_key handler namespace short_key value PERSIST_TTL_SECONDS (clock w1) (store w1) of
                     (Inr _, st) \<Rightarrow> (Some short_key, c, w1\<lparr>store := st\<rparr>)
                   | (Inl _, st) \<Rightarrow>
                       (None, c\<lparr>redis_persist_failures := redis_persist_failures c + 1\<rparr>, w1\<lparr>store := st\<rparr>))))"

definition delete_live ::
  "'st CoreState \<Rightarrow> string \<Rightarrow> string list \<Rightarrow> 'st World \<Rightarrow> 'st World" where
  "delete_live c namespace keys w =
     (case redis_handler c of
        None \<Rightarrow> w
      | Some handler \<Rightarrow> w\<lparr>store := snd (delete_keys handler namespace keys (clock w) (store w))\<rparr>)"

definition forget_key :: "'st CoreState \<Rightarrow> string \<Rightarrow> string option \<Rightarrow> 'st World \<Rightarrow> 'st World" where
  "forget_key c namespace key w =
     (case key of
        None \<Rightarrow> w
      | Some k \<Rightarrow> if k = [] then w else delete_live c namespace [k] w)"

definition live_keys :: "string option list \<Rightarrow> string list" where
  "live_keys keys = filter (\<lambda>k. k \<noteq> []) (List.map_filter id keys)"

definition confirm_keys :: "'st CoreState \<Rightarrow> string \<Rightarrow> string option list \<Rightarrow> 'st World \<Rightarrow> 'st World" where
  "confirm_keys c namespace keys w =
     (if live_keys keys = [] then w else delete_live c namespace (live_keys keys) w)"

section \<open>Draining and requeueing\<close>

definition drain :: "'a BufferedItem list \<Rightarrow> u64 \<Rightarrow> 'a list \<times> string option list \<times> 'a BufferedItem list \<times> u64" where
  "drain deque counter = (map item deque, map redis_key deque, [], counter + of_nat (length deque))"

fun requeue_one ::
  "nat \<Rightarrow> 'a \<times> string option \<Rightarrow> 'a BufferedItem list \<times> u64 \<times> string option list \<Rightarrow>
   'a BufferedItem list \<times> u64 \<times> string option list" where
  "requeue_one capacity (x, k) (deque, dropped, evicted) =
     (if capacity \<le> length deque \<and> deque \<noteq> []
      then (\<lparr> item = x, redis_key = k \<rparr> # butlast deque, dropped + 1, evicted @ [redis_key (last deque)])
      else (\<lparr> item = x, redis_key = k \<rparr> # deque, dropped, evicted))"

definition requeue ::
  "'a BufferedItem list \<Rightarrow> nat \<Rightarrow> 'a list \<Rightarrow> string option list \<Rightarrow> u64 \<Rightarrow>
   'a BufferedItem list \<times> u64 \<times> string option list" where
  "requeue deque capacity items keys dropped =
     fold (requeue_one capacity) (rev (zip items keys)) (deque, dropped, [])"

section \<open>Enqueueing\<close>

definition watermark_threshold :: "AgentConfig \<Rightarrow> f64" where
  "watermark_threshold cfg = f64_mul (f64_of_nat (buffer_size cfg)) (high_watermark_ratio cfg)"

definition spawn_gated_flush :: "'st Shared \<Rightarrow> 'st Shared" where
  "spawn_gated_flush sh = (if running sh then sh\<lparr>inflight := inflight sh + 1\<rparr> else sh)"

text \<open>One pass of the enqueue loop: done, evicted one item and try again, wait for space, or the
  panic of \<^verbatim>\<open>expect\<close> on an empty buffer at capacity zero.\<close>

datatype 'st enq =
    EnqDone "GuardAgentError + unit" "'st astate"
  | EnqRetry "'st astate"
  | EnqWait "'st astate"
  | EnqPanic

definition enqueue_event_pass :: "externals \<Rightarrow> SecurityEvent \<Rightarrow> 'st astate \<Rightarrow> 'st enq" where
  "enqueue_event_pass ext event s =
     (let (sh, w) = s; cfg = config sh; c = core sh
      in if length (events c) < buffer_size cfg then
           (let (key, c1, w1) = persist_item ext NAMESPACE_EVENTS ''event'' (event_to_string ext event) c w;
                c2 = c1\<lparr>events := events c1 @ [\<lparr> item = event, redis_key = key \<rparr>]\<rparr>;
                trigger = f64_le (watermark_threshold cfg) (f64_of_nat (length (events c2)));
                sh1 = sh\<lparr>core := c2\<rparr>
            in EnqDone (Inr ()) (if trigger then spawn_gated_flush sh1 else sh1, w1))
         else case buffer_overflow_policy cfg of
                Drop \<Rightarrow>
                  (case events c of
                     [] \<Rightarrow> EnqPanic
                   | evicted # rest \<Rightarrow>
                       (let c1 = c\<lparr>events := rest, events_dropped := events_dropped c + 1\<rparr>
                        in EnqRetry (sh\<lparr>core := c1\<rparr>, forget_key c1 NAMESPACE_EVENTS (redis_key evicted) w)))
              | Raise \<Rightarrow> EnqDone (Inl (BufferFull (buffer_size cfg))) (sh, w)
              | Block \<Rightarrow> EnqWait (sh, w))"

definition enqueue_metric_pass :: "externals \<Rightarrow> SecurityMetric \<Rightarrow> 'st astate \<Rightarrow> 'st enq" where
  "enqueue_metric_pass ext metric s =
     (let (sh, w) = s; cfg = config sh; c = core sh
      in if length (metrics c) < buffer_size cfg then
           (let (key, c1, w1) = persist_item ext NAMESPACE_METRICS ''metric'' (metric_to_string ext metric) c w;
                c2 = c1\<lparr>metrics := metrics c1 @ [\<lparr> item = metric, redis_key = key \<rparr>]\<rparr>;
                trigger = f64_le (watermark_threshold cfg) (f64_of_nat (length (metrics c2)));
                sh1 = sh\<lparr>core := c2\<rparr>
            in EnqDone (Inr ()) (if trigger then spawn_gated_flush sh1 else sh1, w1))
         else case buffer_overflow_policy cfg of
                Drop \<Rightarrow>
                  (case metrics c of
                     [] \<Rightarrow> EnqPanic
                   | evicted # rest \<Rightarrow>
                       (let c1 = c\<lparr>metrics := rest, metrics_dropped := metrics_dropped c + 1\<rparr>
                        in EnqRetry (sh\<lparr>core := c1\<rparr>, forget_key c1 NAMESPACE_METRICS (redis_key evicted) w)))
              | Raise \<Rightarrow> EnqDone (Inl (BufferFull (buffer_size cfg))) (sh, w)
              | Block \<Rightarrow> EnqWait (sh, w))"

text \<open>The loop, with \<open>n\<close> passes of fuel; \<open>other k\<close> is what the rest of the program does to the state
  during a wait with \<open>k\<close> passes left (at least the polling interval goes by, or a notification
  arrives). \<^const>\<open>None\<close>: the fuel is used up, or a panic.\<close>

fun enqueue_event ::
  "externals \<Rightarrow> (nat \<Rightarrow> 'st astate \<Rightarrow> 'st astate) \<Rightarrow> nat \<Rightarrow> SecurityEvent \<Rightarrow> 'st astate \<Rightarrow>
   ((GuardAgentError + unit) \<times> 'st astate) option" where
  "enqueue_event ext other 0 event s = None"
| "enqueue_event ext other (Suc n) event s =
     (case enqueue_event_pass ext event s of
        EnqDone r s' \<Rightarrow> Some (r, s')
      | EnqRetry s' \<Rightarrow> enqueue_event ext other n event s'
      | EnqWait s' \<Rightarrow> enqueue_event ext other n event (other n s')
      | EnqPanic \<Rightarrow> None)"

fun enqueue_metric ::
  "externals \<Rightarrow> (nat \<Rightarrow> 'st astate \<Rightarrow> 'st astate) \<Rightarrow> nat \<Rightarrow> SecurityMetric \<Rightarrow> 'st astate \<Rightarrow>
   ((GuardAgentError + unit) \<times> 'st astate) option" where
  "enqueue_metric ext other 0 metric s = None"
| "enqueue_metric ext other (Suc n) metric s =
     (case enqueue_metric_pass ext metric s of
        EnqDone r s' \<Rightarrow> Some (r, s')
      | EnqRetry s' \<Rightarrow> enqueue_metric ext other n metric s'
      | EnqWait s' \<Rightarrow> enqueue_metric ext other n metric (other n s')
      | EnqPanic \<Rightarrow> None)"

definition try_send_event ::
  "externals \<Rightarrow> (nat \<Rightarrow> 'st astate \<Rightarrow> 'st astate) \<Rightarrow> nat \<Rightarrow> SecurityEvent \<Rightarrow> 'st astate \<Rightarrow>
   ((GuardAgentError + unit) \<times> 'st astate) option" where
  "try_send_event ext other n event s =
     (if \<not> enable_events (config (fst s)) then Some (Inr (), s)
      else enqueue_event ext other n (redact_event (redactor (fst s)) event) s)"

definition try_send_metric ::
  "externals \<Rightarrow> (nat \<Rightarrow> 'st astate \<Rightarrow> 'st astate) \<Rightarrow> nat \<Rightarrow> SecurityMetric \<Rightarrow> 'st astate \<Rightarrow>
   ((GuardAgentError + unit) \<times> 'st astate) option" where
  "try_send_metric ext other n metric s =
     (if \<not> enable_metrics (config (fst s)) then Some (Inr (), s)
      else enqueue_metric ext other n (redact_metric (redactor (fst s)) metric) s)"

definition send_event ::
  "externals \<Rightarrow> (nat \<Rightarrow> 'st astate \<Rightarrow> 'st astate) \<Rightarrow> nat \<Rightarrow> SecurityEvent \<Rightarrow> 'st astate \<Rightarrow> 'st astate option" where
  "send_event ext other n event s =
     (case try_send_event ext other n event s of
        None \<Rightarrow> None
      | Some (Inr _, s') \<Rightarrow> Some s'
      | Some (Inl err, (sh, w)) \<Rightarrow> Some (sh, fire_hook (config sh) FlushEvents err w))"

definition send_metric ::
  "externals \<Rightarrow> (nat \<Rightarrow> 'st astate \<Rightarrow> 'st astate) \<Rightarrow> nat \<Rightarrow> SecurityMetric \<Rightarrow> 'st astate \<Rightarrow> 'st astate option" where
  "send_metric ext other n metric s =
     (case try_send_metric ext other n metric s of
        None \<Rightarrow> None
      | Some (Inr _, s') \<Rightarrow> Some s'
      | Some (Inl err, (sh, w)) \<Rightarrow> Some (sh, fire_hook (config sh) FlushMetrics err w))"

end
