(* ===== verification/Agent_Flush.thy ===== *)
theory Agent_Flush
  imports Agent_State
begin

text \<open>
  Flushing, the second part of \<^verbatim>\<open>src/src/agent.rs\<close>: the per-kind retry gates, the drain, send, and
  confirm-or-requeue handshake of each kind, the gated flush of the background triggers, and
  clearing. The steps of one flush are separate definitions, one per acquisition of the core mutex,
  and \<open>flush_events\<close> and \<open>flush_metrics\<close> compose them.
\<close>

definition gate_closed :: "Instant \<Rightarrow> Instant option \<Rightarrow> bool" where
  "gate_closed now gate = (case gate of None \<Rightarrow> False | Some g \<Rightarrow> now < g)"

definition retention_description :: "'st CoreState \<Rightarrow> string \<Rightarrow> string" where
  "retention_description c kind =
     ''requeued in memory'' @ (if redis_handler c \<noteq> None then '' and retained in Redis'' else []) @
     '' ('' @ kind @ '')''"

definition core_set_last_flush :: "externals \<Rightarrow> 'st World \<Rightarrow> 'st CoreState \<Rightarrow> 'st CoreState" where
  "core_set_last_flush ext w c =
     c\<lparr>last_flush_instant := Some (clock w), last_flush := Some (utc_now ext w)\<rparr>"

text \<open>\<^verbatim>\<open>core.loop_failures.flush += 1\<close>.\<close>

definition bump_flush_failures :: "'st CoreState \<Rightarrow> 'st CoreState" where
  "bump_flush_failures c = c\<lparr>loop_failures := (loop_failures c)\<lparr>lf_flush := lf_flush (loop_failures c) + 1\<rparr>\<rparr>"

text \<open>The delay after a failed flush, and the instant the gate opens again; \<^const>\<open>None\<close> is the panic
  of the conversion to a \<^verbatim>\<open>Duration\<close>.\<close>

definition streak_delay :: "AgentConfig \<Rightarrow> u32 \<Rightarrow> f64" where
  "streak_delay cfg streak =
     calculate_backoff_delay (streak - 1) (f64_of_nat (flush_interval cfg)) PARTIAL_FAILURE_MAX_BACKOFF_SECS"

definition gate_until :: "AgentConfig \<Rightarrow> u32 \<Rightarrow> Instant \<Rightarrow> Instant option" where
  "gate_until cfg streak now = map_option (\<lambda>d. now + d) (from_secs_f64 (streak_delay cfg streak))"

section \<open>Events\<close>

definition drain_events :: "'st CoreState \<Rightarrow> SecurityEvent list \<times> string option list \<times> 'st CoreState" where
  "drain_events c =
     (let (items, keys, rest, n) = drain (events c) (events_flushed c)
      in (items, keys, c\<lparr>events := rest, events_flushed := n\<rparr>))"

definition accept_events :: "nat \<Rightarrow> 'st CoreState \<Rightarrow> 'st CoreState" where
  "accept_events n_items c =
     c\<lparr>events_sent := events_sent c + of_nat n_items, events_failure_streak := 0, events_retry_after := None\<rparr>"

definition requeue_events ::
  "AgentConfig \<Rightarrow> SecurityEvent list \<Rightarrow> string option list \<Rightarrow> 'st CoreState \<Rightarrow> string option list \<times> 'st CoreState" where
  "requeue_events cfg items keys c =
     (let (deque, dropped, evicted) = requeue (events c) (buffer_size cfg) items keys (events_dropped c)
      in (evicted, c\<lparr>events := deque, events_dropped := dropped\<rparr>))"

definition fail_events :: "AgentConfig \<Rightarrow> nat \<Rightarrow> Instant \<Rightarrow> 'st CoreState \<Rightarrow> 'st CoreState" where
  "fail_events cfg n_items now c =
     (let streak = saturating_add (events_failure_streak c) 1
      in bump_flush_failures
           (c\<lparr>events_failed := events_failed c + of_nat n_items, events_failure_streak := streak,
              events_retry_after := gate_until cfg streak now\<rparr>))"

definition finish_events ::
  "SendOutcome \<Rightarrow> SecurityEvent list \<Rightarrow> string option list \<Rightarrow> 'st astate \<Rightarrow> 'st astate" where
  "finish_events outcome items keys s =
     (let (sh, w) = s; cfg = config sh
      in case outcome of
           Accepted \<Rightarrow>
             (let w1 = confirm_keys (core sh) NAMESPACE_EVENTS keys w
              in (sh\<lparr>core := accept_events (length items) (core sh)\<rparr>, w1))
         | PermanentDrop _ _ \<Rightarrow> (sh, confirm_keys (core sh) NAMESPACE_EVENTS keys w)
         | Failed err \<Rightarrow>
             (let (evicted, c1) = requeue_events cfg items keys (core sh);
                  c2 = fail_events cfg (length items) (clock w) c1;
                  w1 = (if events_retry_after c2 = None then w\<lparr>panicked := True\<rparr> else w);
                  w2 = (if evicted \<noteq> [] then confirm_keys c2 NAMESPACE_EVENTS evicted w1 else w1)
              in (sh\<lparr>core := c2\<rparr>, fire_hook cfg FlushEvents err w2)))"

definition flush_events :: "externals \<Rightarrow> 'st astate \<Rightarrow> 'st astate" where
  "flush_events ext s =
     (let (sh, w) = s
      in if gate_closed (clock w) (events_retry_after (core sh)) then s
         else let (items, keys, c1) = drain_events (core sh)
              in if items = [] then (sh\<lparr>core := c1\<rparr>, w)
                 else let c2 = core_set_last_flush ext w c1;
                          (outcome, t, w1) = send_batch ext (Events items) (transport sh, w)
                      in finish_events outcome items keys (sh\<lparr>core := c2, transport := t\<rparr>, w1))"

section \<open>Metrics\<close>

definition drain_metrics :: "'st CoreState \<Rightarrow> SecurityMetric list \<times> string option list \<times> 'st CoreState" where
  "drain_metrics c =
     (let (items, keys, rest, n) = drain (metrics c) (metrics_flushed c)
      in (items, keys, c\<lparr>metrics := rest, metrics_flushed := n\<rparr>))"

definition accept_metrics :: "nat \<Rightarrow> 'st CoreState \<Rightarrow> 'st CoreState" where
  "accept_metrics n_items c =
     c\<lparr>metrics_sent := metrics_sent c + of_nat n_items, metrics_failure_streak := 0, metrics_retry_after := None\<rparr>"

definition requeue_metrics ::
  "AgentConfig \<Rightarrow> SecurityMetric list \<Rightarrow> string option list \<Rightarrow> 'st CoreState \<Rightarrow> string option list \<times> 'st CoreState" where
  "requeue_metrics cfg items keys c =
     (let (deque, dropped, evicted) = requeue (metrics c) (buffer_size cfg) items keys (metrics_dropped c)
      in (evicted, c\<lparr>metrics := deque, metrics_dropped := dropped\<rparr>))"

definition fail_metrics :: "AgentConfig \<Rightarrow> nat \<Rightarrow> Instant \<Rightarrow> 'st CoreState \<Rightarrow> 'st CoreState" where
  "fail_metrics cfg n_items now c =
     (let streak = saturating_add (metrics_failure_streak c) 1
      in bump_flush_failures
           (c\<lparr>metrics_failed := metrics_failed c + of_nat n_items, metrics_failure_streak := streak,
              metrics_retry_after := gate_until cfg streak now\<rparr>))"

definition finish_metrics ::
  "SendOutcome \<Rightarrow> SecurityMetric list \<Rightarrow> string option list \<Rightarrow> 'st astate \<Rightarrow> 'st astate" where
  "finish_metrics outcome items keys s =
     (let (sh, w) = s; cfg = config sh
      in case outcome of
           Accepted \<Rightarrow>
             (let w1 = confirm_keys (core sh) NAMESPACE_METRICS keys w
              in (sh\<lparr>core := accept_metrics (length items) (core sh)\<rparr>, w1))
         | PermanentDrop _ _ \<Rightarrow> (sh, confirm_keys (core sh) NAMESPACE_METRICS keys w)
         | Failed err \<Rightarrow>
             (let (evicted, c1) = requeue_metrics cfg items keys (core sh);
                  c2 = fail_metrics cfg (length items) (clock w) c1;
                  w1 = (if metrics_retry_after c2 = None then w\<lparr>panicked := True\<rparr> else w);
                  w2 = (if evicted \<noteq> [] then confirm_keys c2 NAMESPACE_METRICS evicted w1 else w1)
              in (sh\<lparr>core := c2\<rparr>, fire_hook cfg FlushMetrics err w2)))"

definition flush_metrics :: "externals \<Rightarrow> 'st astate \<Rightarrow> 'st astate" where
  "flush_metrics ext s =
     (let (sh, w) = s
      in if gate_closed (clock w) (metrics_retry_after (core sh)) then s
         else let (items, keys, c1) = drain_metrics (core sh)
              in if items = [] then (sh\<lparr>core := c1\<rparr>, w)
                 else let c2 = core_set_last_flush ext w c1;
                          (outcome, t, w1) = send_batch ext (Metrics items) (transport sh, w)
                      in finish_metrics outcome items keys (sh\<lparr>core := c2, transport := t\<rparr>, w1))"

section \<open>Both kinds\<close>

definition do_flush :: "externals \<Rightarrow> 'st astate \<Rightarrow> 'st astate" where
  "do_flush ext s = flush_metrics ext (flush_events ext s)"

definition flush_needed :: "AgentConfig \<Rightarrow> Instant \<Rightarrow> 'st CoreState \<Rightarrow> bool" where
  "flush_needed cfg now c =
     (let buffered = length (events c) + length (metrics c);
          elapsed_ok = (case last_flush_instant c of
                          None \<Rightarrow> True
                        | Some prev \<Rightarrow> from_secs (flush_interval cfg) \<le> duration_since now prev);
          watermark_ok = f64_le (f64_mul (f64_of_nat (buffer_size cfg)) (high_watermark_ratio cfg))
                           (f64_of_nat buffered)
      in buffered \<noteq> 0 \<and> (elapsed_ok \<or> watermark_ok))"

definition flush_if_needed :: "externals \<Rightarrow> 'st astate \<Rightarrow> 'st astate" where
  "flush_if_needed ext s =
     (let (sh, w) = s in if flush_needed (config sh) (clock w) (core sh) then do_flush ext s else s)"

text \<open>Running \<open>f\<close> while holding one permit of the flush semaphore.\<close>

definition with_permit :: "('st astate \<Rightarrow> 'st astate) \<Rightarrow> 'st astate \<Rightarrow> 'st astate" where
  "with_permit f s =
     (let (sh, w) = s; (sh1, w1) = f (sh\<lparr>flush_permits := flush_permits sh - 1\<rparr>, w)
      in (sh1\<lparr>flush_permits := flush_permits sh1 + 1\<rparr>, w1))"

text \<open>\<^verbatim>\<open>flush_buffer\<close> waits for a permit; \<open>other\<close> is what the rest of the program does meanwhile, until one
  is free.\<close>

definition flush_buffer :: "externals \<Rightarrow> ('st astate \<Rightarrow> 'st astate) \<Rightarrow> 'st astate \<Rightarrow> 'st astate" where
  "flush_buffer ext other s =
     with_permit (do_flush ext) (if flush_permits (fst s) = 0 then other s else s)"

text \<open>The spawned task of \<^verbatim>\<open>spawn_gated_flush\<close>: it gives up when no permit is free. When it is done it
  leaves the in-flight list.\<close>

definition run_spawned_flush :: "externals \<Rightarrow> 'st astate \<Rightarrow> 'st astate" where
  "run_spawned_flush ext s =
     (let (sh, w) = (if flush_permits (fst s) = 0 then s else with_permit (flush_if_needed ext) s)
      in (sh\<lparr>inflight := inflight sh - 1\<rparr>, w))"

definition clear_buffer :: "'st astate \<Rightarrow> 'st astate" where
  "clear_buffer s =
     (let (sh, w) = s; c = (core sh)\<lparr>events := [], metrics := []\<rparr>; sh1 = sh\<lparr>core := c\<rparr>
      in case redis_handler c of
           None \<Rightarrow> (sh1, w)
         | Some handler \<Rightarrow>
             (let (_, st1) = clear_namespace handler NAMESPACE_EVENTS (clock w) (store w);
                  (_, st2) = clear_namespace handler NAMESPACE_METRICS (clock w) st1
              in (sh1, w\<lparr>store := st2\<rparr>)))"

end
