(* ===== verification/Transport_Retry.thy ===== *)
theory Transport_Retry
  imports Transport "HOL-Library.Sublist"
begin

text \<open>
  The retry loops of the transport. What every operation keeps (\<open>advances\<close>), the two loops as
  instances of \<open>attempt_body\<close> (the wire gains at most one copy of one request per attempt, no sleep
  panics), and what the answer of a loop says about the last request on the wire.
\<close>

section \<open>What every operation keeps\<close>

definition steady :: "HttpTransport \<Rightarrow> HttpTransport \<Rightarrow> bool" where
  "steady t t' \<longleftrightarrow> tr_config t' = tr_config t \<and> client_headers t' = client_headers t \<and>
     encryptor t' = encryptor t \<and> max_calls (rate_limiter t') = max_calls (rate_limiter t) \<and>
     time_window (rate_limiter t') = time_window (rate_limiter t)"

definition advances :: "'st tstate \<Rightarrow> 'st tstate \<Rightarrow> bool" where
  "advances s s' \<longleftrightarrow> steady (fst s) (fst s') \<and> store (snd s') = store (snd s) \<and>
     clock (snd s) \<le> clock (snd s') \<and> prefix (wire (snd s)) (wire (snd s')) \<and>
     prefix (hook_calls (snd s)) (hook_calls (snd s'))"

lemma advances_refl [simp]: "advances s s"
  by (simp add: advances_def steady_def)

lemma advances_trans: "advances a b \<Longrightarrow> advances b c \<Longrightarrow> advances a c"
  by (auto simp: advances_def steady_def intro: prefix_order.trans)

lemma post_request_steady: "steady t t' \<Longrightarrow> post_request ext t' label body = post_request ext t label body"
  by (simp add: steady_def post_request_def api_url_def)

lemma api_url_steady: "steady t t' \<Longrightarrow> api_url t' label = api_url t label"
  by (simp add: steady_def api_url_def)

lemma steady_note [simp]:
  "steady t (t'\<lparr>breaker := b\<rparr>) \<longleftrightarrow> steady t t'" "steady t (note_success t') \<longleftrightarrow> steady t t'"
  "steady t (note_failure now t') \<longleftrightarrow> steady t t'" "steady t (count_failed t') \<longleftrightarrow> steady t t'"
  "steady t (t'\<lparr>requests_sent := n\<rparr>) \<longleftrightarrow> steady t t'" "steady t (t'\<lparr>bytes_sent := n\<rparr>) \<longleftrightarrow> steady t t'"
  "steady t (t'\<lparr>rate_limiter := snd (acquire now (rate_limiter t'))\<rparr>) \<longleftrightarrow> steady t t'"
  by (simp_all add: steady_def note_success_def note_failure_def count_failed_def)

lemma hook_prefix [simp]: "prefix (hook_calls w) (hook_calls (fire_hook cfg st e w))"
  by (simp add: fire_hook_def split: option.splits)

section \<open>One attempt\<close>

text \<open>The server's answer to the last request of a log, at some time.\<close>

definition answered :: "externals \<Rightarrow> HttpRequest list \<Rightarrow> (HttpResponse \<Rightarrow> bool) \<Rightarrow> bool" where
  "answered ext sent P \<longleftrightarrow> (\<exists>now resp d. http ext sent now = (Inr resp, d) \<and> P resp)"

lemma answered_mono: "answered ext sent P \<Longrightarrow> (\<And>r. P r \<Longrightarrow> Q r) \<Longrightarrow> answered ext sent Q"
  by (auto simp: answered_def)

lemma attempt_post_facts:
  assumes "attempt_post ext label body s = (res, s')"
  shows "wire (snd s') = wire (snd s) @ [post_request ext (fst s) label body]" "advances s s'"
    "panicked (snd s') = panicked (snd s)" "hook_calls (snd s') = hook_calls (snd s)"
    "(\<exists>e. res = AttemptRetryable e) \<or>
     answered ext (wire (snd s')) (\<lambda>resp. classify_attempt ext resp (api_url (fst s) label) = res)"
  using assms
  by (cases s; auto simp: attempt_post_def http_send_def Let_def case_prod_beta advances_def steady_def
      answered_def split: sum.splits prod.splits; metis prod.collapse)+

lemma get_attempt_facts:
  assumes "get_attempt ext url s = (res, s')"
  shows "wire (snd s') = wire (snd s) @ [get_request (fst s) url]" "advances s s'"
    "panicked (snd s') = panicked (snd s)" "hook_calls (snd s') = hook_calls (snd s)" "fst s' = fst s"
    "(\<exists>e. res = GetRetryable e) \<or>
     answered ext (wire (snd s')) (\<lambda>resp. classify_get_attempt ext resp url = res)"
  using assms
  by (cases s; auto simp: get_attempt_def http_send_def Let_def case_prod_beta advances_def steady_def
      answered_def split: sum.splits prod.splits; metis prod.collapse)+

section \<open>The body of the POST loop\<close>

text \<open>A pass reaches the wire exactly when the limiter has room and the breaker admits.\<close>

definition may_send :: "'st tstate \<Rightarrow> bool" where
  "may_send s \<longleftrightarrow> fst (acquire (clock (snd s)) (rate_limiter (fst s))) \<and>
                  fst (admit (clock (snd s)) (breaker (fst s)))"

definition gated :: "'st tstate \<Rightarrow> 'st tstate" where
  "gated s = (let (t, w) = s
              in (t\<lparr>rate_limiter := snd (acquire (clock w) (rate_limiter t)),
                   breaker := snd (admit (clock w) (breaker t))\<rparr>, w))"

lemma gated_facts [simp]:
  "snd (gated s) = snd s" "steady t (fst (gated s)) \<longleftrightarrow> steady t (fst s)" "tr_config (fst (gated s)) = tr_config (fst s)"
  by (simp_all add: gated_def case_prod_beta steady_def)

lemma post_request_gated [simp]: "post_request ext (fst (gated s)) label body = post_request ext (fst s) label body"
  by (rule post_request_steady) (simp add: steady_def gated_def case_prod_beta)

text \<open>What follows the attempt itself.\<close>

definition after_post ::
  "externals \<Rightarrow> string \<Rightarrow> nat \<Rightarrow> nat \<Rightarrow> AttemptResult \<times> 'st tstate \<Rightarrow> (string + SendOutcome, 'st tstate) loop_step" where
  "after_post ext label limit attempt r =
     (let (res, t3, w3) = r
      in case res of
           AttemptAccepted \<Rightarrow> Return (Inr Accepted) (note_success t3, w3)
         | AttemptPartialFailure errors \<Rightarrow>
             Return (Inr (Failed (Transport (''Server acknowledged '' @ label @
               '' batch with partial failure: '' @ debug_strings errors)))) (note_success t3, w3)
         | AttemptPermanent status_code detail \<Rightarrow> Return (Inr (PermanentDrop status_code detail)) (t3, w3)
         | AttemptTooLarge detail \<Rightarrow> Return (Inl detail) (t3, w3)
         | AttemptRateLimited secs \<Rightarrow>
             (let t4 = note_failure (clock w3) t3
              in if attempt + 1 = limit then give_up (RateLimited secs) (t4, w3)
                 else Again (t4, sleep_secs ext (f64_min secs MAX_RETRY_AFTER_SECS) w3))
         | AttemptRetryable err \<Rightarrow>
             (let t4 = note_failure (clock w3) t3
              in if attempt + 1 = limit then give_up err (t4, w3)
                 else Again (t4, sleep_backoff ext (tr_config t3) attempt w3)))"

lemma attempt_post_config:
  "tr_config (fst (snd (attempt_post ext label body s))) = tr_config (fst s)"
  using attempt_post_facts(2) [of ext label body s, OF prod.collapse [symmetric]] by (simp add: advances_def steady_def)

lemma send_body_may_send:
  "may_send s \<Longrightarrow> send_body ext label body limit a s = after_post ext label limit a (attempt_post ext label body (gated s))"
  by (cases s) (auto simp: send_body_def may_send_def gated_def after_post_def Let_def case_prod_beta
      attempt_post_config split: AttemptResult.splits)

lemma send_body_blocked:
  assumes "\<not> may_send s"
  shows "wire (snd (step_state (send_body ext label body limit a s))) = wire (snd s)"
    "advances s (step_state (send_body ext label body limit a s))"
    "send_body ext label body limit a s = Return r s' \<Longrightarrow> r = Inr (Failed breaker_open_error) \<and> a + 1 = limit"
  using assms
  by (cases s; auto simp: send_body_def may_send_def Let_def case_prod_beta give_up_def sleep_backoff_def
      advances_def count_failed_def steady_def split: if_splits)+

lemma after_post_facts:
  "wire (snd (step_state (after_post ext label limit a (res, t, w)))) = wire w"
  "advances (t, w) (step_state (after_post ext label limit a (res, t, w)))"
  by (auto simp: after_post_def Let_def give_up_def sleep_backoff_def advances_def
      count_failed_def note_success_def note_failure_def steady_def
      split: AttemptResult.splits if_splits)

lemma send_body_step:
  "advances s (step_state (send_body ext label body limit a s))"
  "wire (snd (step_state (send_body ext label body limit a s))) =
     wire (snd s) @ (if may_send s then [post_request ext (fst s) label body] else [])"
proof -
  obtain res t w where ap: "attempt_post ext label body (gated s) = (res, t, w)" by (metis prod.exhaust)
  have g: "advances s (gated s)" by (simp add: advances_def steady_def gated_def case_prod_beta)
  note f = attempt_post_facts [OF ap]
  note h = after_post_facts [where ext = ext and label = label and limit = limit and a = a and res = res and t = t and w = w]
  show "advances s (step_state (send_body ext label body limit a s))"
    using send_body_blocked(2) [of s] f(2) g h(2) send_body_may_send [of s] ap
    by (cases "may_send s") (auto intro: advances_trans)
  show "wire (snd (step_state (send_body ext label body limit a s))) =
     wire (snd s) @ (if may_send s then [post_request ext (fst s) label body] else [])"
    using send_body_blocked(1) [of s] f(1) h(1) send_body_may_send [of s] ap by simp
qed

text \<open>The POST loop as an instance of the attempt loop: from the start state \<open>s0\<close> on, the wire only
  gains copies of one request.\<close>

definition post_inv :: "externals \<Rightarrow> string \<Rightarrow> bytes \<Rightarrow> 'st tstate \<Rightarrow> 'st tstate \<Rightarrow> bool" where
  "post_inv ext label body s0 s \<longleftrightarrow> advances s0 s \<and>
     (\<exists>k. wire (snd s) = wire (snd s0) @ replicate k (post_request ext (fst s0) label body))"

definition wire_length :: "'st tstate \<Rightarrow> nat" where
  "wire_length s = length (wire (snd s))"

lemma post_inv_refl [simp]: "post_inv ext label body s s"
  by (auto simp: post_inv_def intro: exI [of _ 0])

lemma post_inv_step:
  assumes "post_inv ext label body s0 s"
  shows "post_inv ext label body s0 (step_state (send_body ext label body limit a s))"
proof -
  from assms obtain k where k: "wire (snd s) = wire (snd s0) @ replicate k (post_request ext (fst s0) label body)"
    and adv: "advances s0 s" by (auto simp: post_inv_def)
  have "post_request ext (fst s) label body = post_request ext (fst s0) label body"
    using adv by (intro post_request_steady) (simp add: advances_def)
  then have "wire (snd (step_state (send_body ext label body limit a s))) =
    wire (snd s0) @ replicate (k + (if may_send s then 1 else 0)) (post_request ext (fst s0) label body)"
    using k by (simp add: send_body_step(2) replicate_add)
  then show ?thesis using adv send_body_step(1) [of s ext label body limit a]
    unfolding post_inv_def by (blast intro: advances_trans)
qed

interpretation post: attempt_body "send_body ext label body limit" "post_inv ext label body s0" wire_length
  for ext label body limit and s0 :: "'st tstate"
  by unfold_locales (simp_all add: post_inv_step wire_length_def send_body_step(2))

text \<open>No sleep of the loop panics when the backoff factor is not negative.\<close>

definition transport_ok :: "'st tstate \<Rightarrow> bool" where
  "transport_ok s \<longleftrightarrow> \<not> panicked (snd s) \<and> \<not> f64_lt (backoff_factor (tr_config (fst s))) (Fin 0) \<and>
     time_window (rate_limiter (fst s)) = from_secs RATE_LIMIT_WINDOW_SECS"

lemma as_secs_f64_nonneg: "f64_le (Fin 0) (as_secs_f64 d)"
proof -
  have add: "f64_le (Fin 0) (f64_add a b)" if "f64_le (Fin 0) a" "f64_le (Fin 0) b" for a b
    using that round64_nonneg by (cases a; cases b) auto
  have div: "f64_le (Fin 0) (f64_div a (Fin 1000000000))" if "f64_le (Fin 0) a" for a
    using that round64_nonneg by (cases a) auto
  show ?thesis unfolding as_secs_f64_def f64_of_nat_def by (intro add div round64_nonneg) simp_all
qed

lemma round64_neg: "x < 0 \<Longrightarrow> f64_le (round64 x) (Fin 0)"
  using round_pos_nonneg [of "- x"] by (simp add: round64_def Let_def)

lemma retry_after_bounds:
  assumes "time_window l = from_secs 60"
  shows "\<exists>z. retry_after now l = Fin z \<and> 0 \<le> z \<and> z \<le> 60"
proof -
  have w: "as_secs_f64 (from_secs 60) = Fin 60"
    using round64_nat [of 60] round64_nat [of 0] by (simp add: as_secs_f64_def from_secs_def)
  have "\<exists>z. f64_max (f64_sub (Fin 60) e) (Fin 0) = Fin z \<and> 0 \<le> z \<and> z \<le> 60" if e: "f64_le (Fin 0) e" for e
  proof (cases e)
    case (Fin x)
    show ?thesis
    proof (cases "x \<le> 60")
      case True
      have "representable 60" using representable_scaled_nat [of 60 0] by simp
      with True e Fin obtain z where "round64 (60 - x) = Fin z" "0 \<le> z" "z \<le> 60"
        using round64_le_representable [of "60 - x" 60] by auto
      with Fin show ?thesis by (auto simp: f64_sub_def f64_max_def)
    next
      case False
      with Fin round64_neg [of "60 - x"] show ?thesis
        by (cases "round64 (60 - x)") (auto simp: f64_sub_def f64_max_def)
    qed
  qed (use e in \<open>auto simp: f64_sub_def f64_max_def\<close>)
  then show ?thesis using assms as_secs_f64_nonneg by (auto simp: retry_after_def Let_def w)
qed

lemma sleep_secs_calm:
  assumes "\<exists>z. secs = Fin z \<and> 0 \<le> z \<and> z \<le> 1000000000"
  shows "panicked (sleep_secs ext secs w) = panicked w"
  using assms from_secs_f64_total unfolding sleep_secs_panicked by (metis option.distinct(1))

lemma sleep_backoff_calm:
  assumes "\<not> f64_lt (backoff_factor cfg) (Fin 0)"
  shows "panicked (sleep_backoff ext cfg a w) = panicked w"
proof -
  obtain z where "calculate_backoff_delay (of_nat a) (backoff_factor cfg) MAX_RETRY_BACKOFF_SECS = Fin z" "0 \<le> z" "z \<le> 60"
    using calculate_backoff_delay_bounds [OF _ assms, of 60 "of_nat a"] by (auto simp: const_defs)
  then show ?thesis unfolding sleep_backoff_def by (intro sleep_secs_calm) auto
qed

lemma sleep_limited_calm:
  assumes "time_window l = from_secs RATE_LIMIT_WINDOW_SECS"
  shows "panicked (sleep_secs ext (retry_after now l) w) = panicked w"
  using retry_after_bounds [of l now] assms by (intro sleep_secs_calm) (auto simp: const_defs)

lemma sleep_retry_after_calm:
  "panicked (sleep_secs ext (f64_min (parse_retry_after_seconds h DEFAULT_RETRY_AFTER_SECS) MAX_RETRY_AFTER_SECS) w) =
   panicked w"
proof -
  obtain z where "parse_retry_after_seconds h (Fin 60) = Fin z" "0 \<le> z"
    using parse_retry_after_nonneg [of 60 h] by auto
  then show ?thesis using f64_min_le [of "Fin z" 300] by (intro sleep_secs_calm) (auto simp: const_defs)
qed

lemmas calm_simps = sleep_backoff_calm sleep_limited_calm sleep_retry_after_calm

text \<open>A rate-limited answer always carries a parsed \<^verbatim>\<open>Retry-After\<close>.\<close>

lemma classify_rate_limited:
  "classify_attempt ext resp url = AttemptRateLimited secs \<Longrightarrow>
   \<exists>h. secs = parse_retry_after_seconds h DEFAULT_RETRY_AFTER_SECS"
  "classify_get_attempt ext resp url = GetRateLimited secs \<Longrightarrow>
   \<exists>h. secs = parse_retry_after_seconds h DEFAULT_RETRY_AFTER_SECS"
  by (auto simp: classify_attempt_def classify_get_attempt_def classify_response_def parse_ack_def Let_def
      split: sum.splits if_splits)

lemma after_post_calm:
  assumes "\<And>secs. res = AttemptRateLimited secs \<Longrightarrow> \<exists>h. secs = parse_retry_after_seconds h DEFAULT_RETRY_AFTER_SECS"
    and "\<not> f64_lt (backoff_factor (tr_config t)) (Fin 0)"
  shows "panicked (snd (step_state (after_post ext label limit a (res, t, w)))) = panicked w"
  using assms by (auto simp: after_post_def Let_def give_up_def calm_simps split: AttemptResult.splits)

lemma transport_ok_advances:
  "transport_ok s \<Longrightarrow> advances s s' \<Longrightarrow> panicked (snd s') = panicked (snd s) \<Longrightarrow> transport_ok s'"
  by (simp add: transport_ok_def advances_def steady_def)

lemma send_body_ok:
  assumes "transport_ok s"
  shows "transport_ok (step_state (send_body ext label body limit a s))"
proof (rule transport_ok_advances [OF assms send_body_step(1)])
  obtain res t w where ap: "attempt_post ext label body (gated s) = (res, t, w)" by (metis prod.exhaust)
  note f = attempt_post_facts [OF ap]
  have rl: "\<exists>h. secs = parse_retry_after_seconds h DEFAULT_RETRY_AFTER_SECS" if "res = AttemptRateLimited secs" for secs
    using f(5) that classify_rate_limited(1) by (auto simp: answered_def)
  have cfg: "tr_config t = tr_config (fst s)" using attempt_post_config [of ext label body "gated s"] ap by simp
  have "panicked (snd (step_state (send_body ext label body limit a s))) = panicked (snd s)" if "\<not> may_send s"
    using that assms
    by (cases s) (auto simp: send_body_def may_send_def transport_ok_def Let_def case_prod_beta give_up_def calm_simps)
  then show "panicked (snd (step_state (send_body ext label body limit a s))) = panicked (snd s)"
    using after_post_calm [OF rl, where t = t and w = w] assms ap cfg f(3)
    by (cases "may_send s") (auto simp: send_body_may_send transport_ok_def)
qed

interpretation post_safe: attempt_body "send_body ext label body limit" transport_ok wire_length
  for ext label body limit
  by unfold_locales (simp_all add: send_body_ok wire_length_def send_body_step(2))

section \<open>The body of the GET loop\<close>

definition after_get ::
  "externals \<Rightarrow> nat \<Rightarrow> nat \<Rightarrow> GetAttempt \<times> 'st tstate \<Rightarrow> (Value option, 'st tstate) loop_step" where
  "after_get ext limit attempt r =
     (let (res, t3, w3) = r
      in case res of
           GetOk v \<Rightarrow>
             (let t4 = note_success t3
              in if is_object v
                 then Return (Some v) (t4\<lparr>requests_sent := requests_sent t4 + 1\<rparr>, w3)
                 else Again (count_failed t4, w3))
         | GetRateLimited secs \<Rightarrow>
             (let t4 = note_failure (clock w3) t3
              in if attempt + 1 = limit then Return None (count_failed t4, w3)
                 else Again (t4, sleep_secs ext (f64_min secs MAX_RETRY_AFTER_SECS) w3))
         | GetRetryable err \<Rightarrow>
             (let t4 = note_failure (clock w3) t3
              in if attempt + 1 = limit then Return None (count_failed t4, w3)
                 else Again (t4, sleep_backoff ext (tr_config t3) attempt w3)))"

lemma get_attempt_config: "tr_config (fst (snd (get_attempt ext url s))) = tr_config (fst s)"
  using get_attempt_facts(5) [of ext url s, OF prod.collapse [symmetric]] by simp

lemma get_body_may_send:
  "may_send s \<Longrightarrow> get_body ext url limit a s = after_get ext limit a (get_attempt ext url (gated s))"
  by (cases s) (auto simp: get_body_def may_send_def gated_def after_get_def Let_def case_prod_beta
      get_attempt_config split: GetAttempt.splits)

lemma get_body_blocked:
  assumes "\<not> may_send s"
  shows "wire (snd (step_state (get_body ext url limit a s))) = wire (snd s)"
    "hook_calls (snd (step_state (get_body ext url limit a s))) = hook_calls (snd s)"
    "advances s (step_state (get_body ext url limit a s))"
    "get_body ext url limit a s = Return r s' \<Longrightarrow> r = None"
    "transport_ok s \<Longrightarrow> panicked (snd (step_state (get_body ext url limit a s))) = panicked (snd s)"
  using assms
  by (cases s; auto simp: get_body_def may_send_def Let_def case_prod_beta sleep_backoff_def
      advances_def count_failed_def steady_def transport_ok_def calm_simps [unfolded sleep_backoff_def]
      split: if_splits)+

lemma after_get_facts:
  "wire (snd (step_state (after_get ext limit a (res, t, w)))) = wire w"
  "hook_calls (snd (step_state (after_get ext limit a (res, t, w)))) = hook_calls w"
  "advances (t, w) (step_state (after_get ext limit a (res, t, w)))"
  by (auto simp: after_get_def Let_def sleep_backoff_def advances_def
      count_failed_def note_success_def note_failure_def steady_def split: GetAttempt.splits if_splits)

lemma after_get_calm:
  assumes "\<And>secs. res = GetRateLimited secs \<Longrightarrow> \<exists>h. secs = parse_retry_after_seconds h DEFAULT_RETRY_AFTER_SECS"
    and "\<not> f64_lt (backoff_factor (tr_config t)) (Fin 0)"
  shows "panicked (snd (step_state (after_get ext limit a (res, t, w)))) = panicked w"
  using assms by (auto simp: after_get_def Let_def calm_simps split: GetAttempt.splits)

lemma get_request_gated [simp]: "get_request (fst (gated s)) url = get_request (fst s) url"
  by (simp add: get_request_def gated_def case_prod_beta)

lemma get_body_step:
  "advances s (step_state (get_body ext url limit a s))"
  "wire (snd (step_state (get_body ext url limit a s))) =
     wire (snd s) @ (if may_send s then [get_request (fst s) url] else [])"
  "hook_calls (snd (step_state (get_body ext url limit a s))) = hook_calls (snd s)"
  "transport_ok s \<Longrightarrow> panicked (snd (step_state (get_body ext url limit a s))) = panicked (snd s)"
proof -
  obtain res t w where ap: "get_attempt ext url (gated s) = (res, t, w)" by (metis prod.exhaust)
  have g: "advances s (gated s)" by (simp add: advances_def steady_def gated_def case_prod_beta)
  note f = get_attempt_facts [OF ap]
  note h = after_get_facts [where ext = ext and limit = limit and a = a and res = res and t = t and w = w]
  show "advances s (step_state (get_body ext url limit a s))"
    using get_body_blocked(3) [of s] f(2) g h(3) get_body_may_send [of s] ap
    by (cases "may_send s") (auto intro: advances_trans)
  show "wire (snd (step_state (get_body ext url limit a s))) =
     wire (snd s) @ (if may_send s then [get_request (fst s) url] else [])"
    using get_body_blocked(1) [of s] f(1) h(1) get_body_may_send [of s] ap by simp
  show "hook_calls (snd (step_state (get_body ext url limit a s))) = hook_calls (snd s)"
    using get_body_blocked(2) [of s] f(4) h(2) get_body_may_send [of s] ap by (cases "may_send s") simp_all
  have rl: "\<exists>h. secs = parse_retry_after_seconds h DEFAULT_RETRY_AFTER_SECS" if "res = GetRateLimited secs" for secs
    using f(6) that classify_rate_limited(2) by (auto simp: answered_def)
  show "panicked (snd (step_state (get_body ext url limit a s))) = panicked (snd s)" if "transport_ok s"
    using get_body_blocked(5) [of s] after_get_calm [OF rl, where t = t and w = w] that ap f(3,5) get_body_may_send [of s]
    by (cases "may_send s") (auto simp: transport_ok_def)
qed

definition get_inv :: "string \<Rightarrow> 'st tstate \<Rightarrow> 'st tstate \<Rightarrow> bool" where
  "get_inv url s0 s \<longleftrightarrow> advances s0 s \<and> hook_calls (snd s) = hook_calls (snd s0) \<and>
     (transport_ok s0 \<longrightarrow> transport_ok s) \<and>
     (\<exists>k. wire (snd s) = wire (snd s0) @ replicate k (get_request (fst s0) url))"

lemma get_inv_refl [simp]: "get_inv url s s"
  by (auto simp: get_inv_def intro: exI [of _ 0])

lemma get_inv_step:
  assumes "get_inv url s0 s"
  shows "get_inv url s0 (step_state (get_body ext url limit a s))"
proof -
  let ?s' = "step_state (get_body ext url limit a s)"
  from assms obtain k where k: "wire (snd s) = wire (snd s0) @ replicate k (get_request (fst s0) url)"
    and adv: "advances s0 s" by (auto simp: get_inv_def)
  have "get_request (fst s) url = get_request (fst s0) url"
    using adv by (simp add: advances_def steady_def get_request_def)
  then have "wire (snd ?s') = wire (snd s0) @ replicate (k + (if may_send s then 1 else 0)) (get_request (fst s0) url)"
    using k by (simp add: get_body_step(2) replicate_add)
  moreover have "transport_ok s \<Longrightarrow> transport_ok ?s'"
    using transport_ok_advances [OF _ get_body_step(1)] get_body_step(4) by blast
  moreover have "advances s0 ?s'" using adv get_body_step(1) [of s ext url limit a] by (rule advances_trans)
  ultimately show ?thesis using assms get_body_step(3) [of ext url limit a s] unfolding get_inv_def by metis
qed

interpretation get: attempt_body "get_body ext url limit" "get_inv url s0" wire_length
  for ext url limit and s0 :: "'st tstate"
  by unfold_locales (simp_all add: get_inv_step wire_length_def get_body_step(2))

section \<open>The pace of the requests\<close>

text \<open>\<open>hist\<close> are the admissions of the limiter: each request has one of its own, at the time it was sent.
  An admission without a request is one the breaker has refused.\<close>

definition paced :: "'st tstate \<Rightarrow> bool" where
  "paced s \<longleftrightarrow> length (sent_at (snd s)) = length (wire (snd s)) \<and>
     (\<exists>hist t. tracks (rate_limiter (fst s)) hist t \<and> t \<le> clock (snd s) \<and> subseq (sent_at (snd s)) hist)"

definition same_pace :: "'st tstate \<Rightarrow> 'st tstate \<Rightarrow> bool" where
  "same_pace s s' \<longleftrightarrow> rate_limiter (fst s') = rate_limiter (fst s) \<and> sent_at (snd s') = sent_at (snd s) \<and>
     wire (snd s') = wire (snd s) \<and> clock (snd s) \<le> clock (snd s')"

lemma paced_same: "same_pace s s' \<Longrightarrow> paced s \<Longrightarrow> paced s'"
  unfolding paced_def same_pace_def by (metis le_trans)

text \<open>One pass: the limiter is asked at the start, and a request goes out at once or not at all.\<close>

lemma paced_pass:
  assumes "paced s" and "rate_limiter (fst s') = snd (acquire (clock (snd s)) (rate_limiter (fst s)))"
    and "clock (snd s) \<le> clock (snd s')" and "sent_at (snd s') = sent_at (snd s) @ (if may_send s then [clock (snd s)] else [])"
    and "length (wire (snd s')) = length (wire (snd s)) + (if may_send s then 1 else 0)"
  shows "paced s'"
proof -
  let ?now = "clock (snd s)" and ?l = "rate_limiter (fst s)"
  from assms(1) obtain hist t where h: "tracks ?l hist t" "t \<le> ?now" "subseq (sent_at (snd s)) hist" by (auto simp: paced_def)
  let ?hist = "if fst (acquire ?now ?l) then hist @ [?now] else hist"
  have "tracks (snd (acquire ?now ?l)) ?hist ?now" using h(1,2) by (rule tracks_acquire)
  moreover have "subseq (sent_at (snd s')) ?hist"
    using h(3) assms(4) by (auto simp: may_send_def subseq_append_le_same_iff intro: list_emb_append_mono subseq_rev_drop_many)
  moreover have "length (sent_at (snd s')) = length (wire (snd s'))" using assms(1,4,5) by (simp add: paced_def)
  ultimately show ?thesis
    unfolding paced_def assms(2) using assms(3) by (intro conjI exI [of _ ?hist] exI [of _ ?now]) assumption+
qed

lemma attempt_pace:
  "rate_limiter (fst (snd (attempt_post ext label body s))) = rate_limiter (fst s)"
  "sent_at (snd (snd (attempt_post ext label body s))) = sent_at (snd s) @ [clock (snd s)]"
  "sent_at (snd (snd (get_attempt ext url s))) = sent_at (snd s) @ [clock (snd s)]"
  by (cases s; auto simp: attempt_post_def get_attempt_def http_send_def Let_def split: sum.splits prod.splits)+

lemma after_pace:
  "rate_limiter (fst (step_state (after_post ext label limit a (res, t, w)))) = rate_limiter t"
  "sent_at (snd (step_state (after_post ext label limit a (res, t, w)))) = sent_at w"
  "rate_limiter (fst (step_state (after_get ext limit a (gres, t, w)))) = rate_limiter t"
  "sent_at (snd (step_state (after_get ext limit a (gres, t, w)))) = sent_at w"
  by (auto simp: after_post_def after_get_def Let_def give_up_def sleep_backoff_def count_failed_def note_success_def
      note_failure_def split: AttemptResult.splits GetAttempt.splits)

lemma send_body_pace:
  "rate_limiter (fst (step_state (send_body ext label body limit a s))) = snd (acquire (clock (snd s)) (rate_limiter (fst s)))"
  "sent_at (snd (step_state (send_body ext label body limit a s))) = sent_at (snd s) @ (if may_send s then [clock (snd s)] else [])"
proof -
  obtain res t w where ap: "attempt_post ext label body (gated s) = (res, t, w)" by (metis prod.exhaust)
  have "rate_limiter (fst (step_state (send_body ext label body limit a s))) = snd (acquire (clock (snd s)) (rate_limiter (fst s))) \<and>
    sent_at (snd (step_state (send_body ext label body limit a s))) = sent_at (snd s)" if "\<not> may_send s"
    using that by (cases s) (auto simp: send_body_def may_send_def Let_def case_prod_beta give_up_def sleep_backoff_def count_failed_def)
  then show "rate_limiter (fst (step_state (send_body ext label body limit a s))) = snd (acquire (clock (snd s)) (rate_limiter (fst s)))"
    "sent_at (snd (step_state (send_body ext label body limit a s))) = sent_at (snd s) @ (if may_send s then [clock (snd s)] else [])"
    using attempt_pace(1,2) [of ext label body "gated s"] ap send_body_may_send [of s]
    by (cases "may_send s"; simp add: after_pace gated_def case_prod_beta)+
qed

lemma get_body_pace:
  "rate_limiter (fst (step_state (get_body ext url limit a s))) = snd (acquire (clock (snd s)) (rate_limiter (fst s)))"
  "sent_at (snd (step_state (get_body ext url limit a s))) = sent_at (snd s) @ (if may_send s then [clock (snd s)] else [])"
proof -
  obtain res t w where ap: "get_attempt ext url (gated s) = (res, t, w)" by (metis prod.exhaust)
  have "rate_limiter (fst (step_state (get_body ext url limit a s))) = snd (acquire (clock (snd s)) (rate_limiter (fst s))) \<and>
    sent_at (snd (step_state (get_body ext url limit a s))) = sent_at (snd s)" if "\<not> may_send s"
    using that by (cases s) (auto simp: get_body_def may_send_def Let_def case_prod_beta sleep_backoff_def count_failed_def)
  then show "rate_limiter (fst (step_state (get_body ext url limit a s))) = snd (acquire (clock (snd s)) (rate_limiter (fst s)))"
    "sent_at (snd (step_state (get_body ext url limit a s))) = sent_at (snd s) @ (if may_send s then [clock (snd s)] else [])"
    using attempt_pace(3) [of ext url "gated s"] get_attempt_facts(5) [OF ap] ap get_body_may_send [of s]
    by (cases "may_send s"; simp add: after_pace gated_def case_prod_beta)+
qed

interpretation post_paced: attempt_body "send_body ext label body limit" paced wire_length
  for ext label body limit
proof
  fix s :: "'a tstate" and a
  show "paced (step_state (send_body ext label body limit a s))" if "paced s"
    using send_body_step(1) [of s ext label body limit a] send_body_step(2) [of ext label body limit a s]
    by (intro paced_pass [OF that send_body_pace(1) _ send_body_pace(2)]) (auto simp: advances_def)
qed (rule post.cost_step)

interpretation get_paced: attempt_body "get_body ext url limit" paced wire_length
  for ext url limit
proof
  fix s :: "'a tstate" and a
  show "paced (step_state (get_body ext url limit a s))" if "paced s"
    using get_body_step(1) [of s ext url limit a] get_body_step(2) [of ext url limit a s]
    by (intro paced_pass [OF that get_body_pace(1) _ get_body_pace(2)]) (auto simp: advances_def)
qed (rule get.cost_step)

section \<open>The retry loops\<close>

lemma send_with_retry_paced: "paced s \<Longrightarrow> paced (snd (send_with_retry ext label body s))"
  by (simp add: send_with_retry_def Let_def post_paced.loop_inv)

lemma get_with_retry_paced: "paced s \<Longrightarrow> paced (snd (get_with_retry ext label s))"
  by (simp add: get_with_retry_def Let_def get_paced.loop_inv)

lemma send_with_retry_inv: "post_inv ext label body s (snd (send_with_retry ext label body s))"
  by (simp add: send_with_retry_def Let_def post.loop_inv)

lemma send_with_retry_advances: "advances s (snd (send_with_retry ext label body s))"
  using send_with_retry_inv [of ext label body s] by (simp add: post_inv_def)

lemma send_with_retry_ok: "transport_ok s \<Longrightarrow> transport_ok (snd (send_with_retry ext label body s))"
  by (simp add: send_with_retry_def Let_def post_safe.loop_inv)

lemma send_with_retry_wire_length:
  "wire_length (snd (send_with_retry ext label body s)) \<le> wire_length s + total_attempts (tr_config (fst s))"
  by (simp add: send_with_retry_def Let_def post.loop_cost)

lemma send_with_retry_wire:
  "\<exists>k \<le> total_attempts (tr_config (fst s)).
     wire (snd (snd (send_with_retry ext label body s))) =
     wire (snd s) @ replicate k (post_request ext (fst s) label body)"
  using send_with_retry_inv [of ext label body s] send_with_retry_wire_length [of ext label body s]
  by (auto simp: post_inv_def wire_length_def)

text \<open>What each answer of the POST loop says: a confirmation or a 413 is the server's answer to the
  last request on the wire.\<close>

fun justified :: "externals \<Rightarrow> string \<Rightarrow> HttpRequest list \<Rightarrow> string + SendOutcome \<Rightarrow> bool" where
  "justified ext url sent (Inr Accepted) = answered ext sent (\<lambda>r. classify_attempt ext r url = AttemptAccepted)"
| "justified ext url sent (Inr (PermanentDrop code detail)) =
     answered ext sent (\<lambda>r. classify_attempt ext r url = AttemptPermanent code detail)"
| "justified ext url sent (Inl detail) = answered ext sent (\<lambda>r. classify_attempt ext r url = AttemptTooLarge detail)"
| "justified ext url sent (Inr (Failed e)) = True"

lemma after_post_justified:
  assumes "after_post ext label limit a (res, t, w) = Return r s'"
    and "(\<exists>e. res = AttemptRetryable e) \<or> answered ext (wire w) (\<lambda>resp. classify_attempt ext resp url = res)"
  shows "justified ext url (wire (snd s')) r"
  using assms by (auto simp: after_post_def Let_def give_up_def split: AttemptResult.splits if_splits)

lemma send_body_justified:
  assumes "send_body ext label body limit a s = Return r s'"
  shows "justified ext (api_url (fst s) label) (wire (snd s')) r \<and> (r = Inr (Failed breaker_open_error) \<or> may_send s)"
proof (cases "may_send s")
  case True
  obtain res t w where ap: "attempt_post ext label body (gated s) = (res, t, w)" by (metis prod.exhaust)
  have "api_url (fst (gated s)) label = api_url (fst s) label" by (simp add: api_url_def)
  with True assms ap attempt_post_facts(5) [OF ap] show ?thesis
    using after_post_justified [of ext label limit a res t w r s' "api_url (fst s) label"]
    by (simp add: send_body_may_send)
next
  case False
  then show ?thesis using assms send_body_blocked(3) by fastforce
qed

lemma send_body_grows:
  "send_body ext label body limit a s = Return r s' \<Longrightarrow> may_send s \<Longrightarrow> wire_length s < wire_length s'"
  using send_body_step(2) [of ext label body limit a s] by (simp add: wire_length_def)

lemma send_with_retry_justified:
  assumes "send_with_retry ext label body s = (r, s')"
  shows "justified ext (api_url (fst s) label) (wire (snd s')) r"
    "(\<forall>e. r \<noteq> Inr (Failed e)) \<Longrightarrow> wire_length s < wire_length s'"
proof -
  let ?limit = "total_attempts (tr_config (fst s))"
  let ?run = "retry_loop ?limit (send_body ext label body ?limit) (Inr (Failed loop_exited)) 0 s"
  let ?Q = "\<lambda>r s'. justified ext (api_url (fst s) label) (wire (snd s')) r \<and>
                   ((\<forall>e. r \<noteq> Inr (Failed e)) \<longrightarrow> wire_length s < wire_length s')"
  have "?Q (fst ?run) (snd ?run)"
  proof (rule retry_loop_rule [where I = "\<lambda>_. post_inv ext label body s"])
    show "post_inv ext label body s s" by simp
  next
    fix a u u' assume "post_inv ext label body s u" "send_body ext label body ?limit a u = Again u'"
    then show "post_inv ext label body s u'" by (rule post.inv_Again)
  next
    fix a u r u' assume inv: "post_inv ext label body s u" and ret: "send_body ext label body ?limit a u = Return r u'"
    have "api_url (fst u) label = api_url (fst s) label"
      using inv by (intro api_url_steady) (simp add: post_inv_def advances_def)
    moreover have "wire_length s \<le> wire_length u" using inv by (auto simp: post_inv_def wire_length_def)
    ultimately show "?Q r u'"
      using send_body_justified [OF ret] send_body_grows [OF ret] by auto
  qed simp
  then show "justified ext (api_url (fst s) label) (wire (snd s')) r"
    "(\<forall>e. r \<noteq> Inr (Failed e)) \<Longrightarrow> wire_length s < wire_length s'"
    using assms by (simp_all add: send_with_retry_def Let_def)
qed

lemma get_with_retry_inv:
  "get_inv (api_url (fst s) label) s (snd (get_with_retry ext label s))"
  by (simp add: get_with_retry_def Let_def get.loop_inv)

lemma get_with_retry_wire_length:
  "wire_length (snd (get_with_retry ext label s)) \<le> wire_length s + total_attempts (tr_config (fst s))"
  by (simp add: get_with_retry_def Let_def get.loop_cost)

lemma get_body_Some:
  assumes "get_body ext url limit a s = Return (Some v) s'"
  shows "is_object v \<and> answered ext (wire (snd s')) (\<lambda>r. classify_get_attempt ext r url = GetOk v)"
proof -
  obtain res t w where ap: "get_attempt ext url (gated s) = (res, t, w)" by (metis prod.exhaust)
  have "may_send s" using assms get_body_blocked(4) by blast
  with assms ap have "after_get ext limit a (res, t, w) = Return (Some v) s'" by (simp add: get_body_may_send)
  then have "res = GetOk v" "is_object v" "wire (snd s') = wire w"
    by (auto simp: after_get_def Let_def split: GetAttempt.splits if_splits)
  with get_attempt_facts(6) [OF ap] show ?thesis by auto
qed

lemma get_with_retry_Some:
  assumes "get_with_retry ext label s = (Some v, s')"
  shows "is_object v \<and> answered ext (wire (snd s')) (\<lambda>r. classify_get_attempt ext r (api_url (fst s) label) = GetOk v)"
proof -
  let ?limit = "total_attempts (tr_config (fst s))" and ?url = "api_url (fst s) label"
  let ?run = "retry_loop ?limit (get_body ext ?url ?limit) None 0 s"
  let ?Q = "\<lambda>r s'. \<forall>v. r = Some v \<longrightarrow>
    is_object v \<and> answered ext (wire (snd s')) (\<lambda>r. classify_get_attempt ext r ?url = GetOk v)"
  have "?Q (fst ?run) (snd ?run)"
    by (rule retry_loop_rule [where I = "\<lambda>_ _. True"]) (use get_body_Some in blast)+
  then show ?thesis using assms by (simp add: get_with_retry_def Let_def)
qed

end
