(* ===== verification/Transport_Batch.thy ===== *)
theory Transport_Batch
  imports Transport_Retry
begin

text \<open>
  The batch operations of the transport: the number of requests of a split, what a confirmed batch
  says about every item of it (\<open>settled_all\<close>), and what an encrypted batch puts on the wire.
\<close>

section \<open>Batches\<close>

lemma batch_split_label:
  "batch_split items = (l, r) \<Longrightarrow> batch_label l = batch_label items \<and> batch_label r = batch_label items"
  by (cases items) (auto simp: Let_def)

lemma build_batch_body_frame:
  assumes "build_batch_body ext cfg items w = (r, w')"
  shows "wire w' = wire w" "store w' = store w" "clock w' = clock w" "hook_calls w' = hook_calls w"
    "panicked w' = panicked w" "sent_at w' = sent_at w"
  using assms
  by (auto simp: build_batch_body_def draw_uuid_def Let_def case_prod_beta split: sum.splits prod.splits)

text \<open>Reports and aborts touch the hook calls only.\<close>

lemma report_facts:
  "wire (snd (snd (report_outcome out s))) = wire (snd s)" "advances s (snd (report_outcome out s))"
  "panicked (snd (snd (report_outcome out s))) = panicked (snd s)" "fst (report_outcome out s) = out"
  "same_pace s (snd (report_outcome out s))"
  by (auto simp: report_outcome_def advances_def steady_def same_pace_def split: SendOutcome.splits prod.splits)

lemma drop_too_large_facts:
  "wire (snd (snd (drop_too_large detail s))) = wire (snd s)" "advances s (snd (drop_too_large detail s))"
  "panicked (snd (snd (drop_too_large detail s))) = panicked (snd s)"
  "fst (drop_too_large detail s) = PermanentDrop 413 detail" "same_pace s (snd (drop_too_large detail s))"
  by (auto simp: drop_too_large_def advances_def steady_def same_pace_def split: prod.splits)

lemma abort_send_facts:
  "wire (snd (snd (abort_send stage e s))) = wire (snd s)" "advances s (snd (abort_send stage e s))"
  "panicked (snd (snd (abort_send stage e s))) = panicked (snd s)" "fst (abort_send stage e s) = Failed e"
  "same_pace s (snd (abort_send stage e s))"
  by (auto simp: abort_send_def advances_def steady_def same_pace_def split: prod.splits)

lemmas outcome_facts = report_facts drop_too_large_facts abort_send_facts

text \<open>The two bottom operations of a batch: each sends one body by the retry loop, or aborts.\<close>

lemma advances_same_wire:
  assumes "wire w' = wire w" "store w' = store w" "clock w' = clock w" "hook_calls w' = hook_calls w"
  shows "advances (t, w) (t, w')"
  using assms by (simp add: advances_def steady_def)

definition bounded_step :: "nat \<Rightarrow> 'st tstate \<Rightarrow> 'st tstate \<Rightarrow> bool" where
  "bounded_step k s s' \<longleftrightarrow> advances s s' \<and> (transport_ok s \<longrightarrow> transport_ok s') \<and>
     (paced s \<longrightarrow> paced s') \<and> wire_length s' \<le> wire_length s + k"

lemma bounded_step_trans: "bounded_step j a b \<Longrightarrow> bounded_step k b c \<Longrightarrow> bounded_step (j + k) a c"
  by (auto simp: bounded_step_def intro: advances_trans)

lemma bounded_step_mono: "bounded_step j a b \<Longrightarrow> j \<le> k \<Longrightarrow> bounded_step k a b"
  by (auto simp: bounded_step_def)

lemma bounded_step_quiet:
  "advances s s' \<Longrightarrow> same_pace s s' \<Longrightarrow> panicked (snd s') = panicked (snd s) \<Longrightarrow> bounded_step 0 s s'"
  by (auto simp: bounded_step_def wire_length_def same_pace_def intro: transport_ok_advances paced_same [unfolded same_pace_def])

lemma bounded_step_retry:
  "bounded_step (total_attempts (tr_config (fst s))) s (snd (send_with_retry ext label body s))"
  by (simp add: bounded_step_def send_with_retry_advances send_with_retry_ok send_with_retry_paced send_with_retry_wire_length)

lemma bounded_step_outcome:
  "bounded_step 0 s (snd (report_outcome out s))" "bounded_step 0 s (snd (drop_too_large detail s))"
  "bounded_step 0 s (snd (abort_send stage e s))"
  by (auto intro!: bounded_step_quiet simp: outcome_facts)

text \<open>An encrypted body: an envelope around the ciphertext of the batch, and nothing else of it.\<close>

definition sealed :: "externals \<Rightarrow> PayloadEncryptor \<Rightarrow> AgentConfig \<Rightarrow> BatchItems \<Rightarrow> bytes \<Rightarrow> bool" where
  "sealed ext enc cfg items body \<longleftrightarrow>
     (\<exists>v nonce ct batch_id. items_value ext items = Inr v \<and>
        encrypt (crypt ext) enc nonce
          (Object [(''events'', fst (split_kinds items v)), (''metrics'', snd (split_kinds items v))]) None = Inr ct \<and>
        value_to_vec ext (Object
          [(''encrypted_payload'', String ct), (''batch_id'', String batch_id),
           (''agent_version'', String AGENT_VERSION), (''guard_version'', json_opt (guard_version cfg)),
           (''guard_core_version'', json_opt (guard_core_version cfg))]) = Inr body)"

lemma send_batch_encrypted_cases:
  obtains (aborted) e s1 where "bounded_step 0 s s1" "wire (snd s1) = wire (snd s)"
      "send_batch_encrypted ext enc items s = abort_send EncryptionStage e s1"
  | (sent) body s1 where "bounded_step 0 s s1" "wire (snd s1) = wire (snd s)" "fst s1 = fst s"
      "sealed ext enc (tr_config (fst s)) items body"
      "send_batch_encrypted ext enc items s =
         (case send_with_retry ext ''events/encrypted'' body s1 of
            (Inr out, s') \<Rightarrow> report_outcome out s'
          | (Inl detail, s') \<Rightarrow> drop_too_large detail s')"
proof (cases "items_value ext items")
  case (Inl e)
  then show thesis by (intro aborted [of s]) (auto simp: send_batch_encrypted_def bounded_step_def)
next
  case (Inr v)
  define t w where "t = fst s" and "w = snd s"
  define w1 where "w1 = snd (draw_nonce ext w)"
  define w2 where "w2 = snd (draw_uuid ext w1)"
  let ?payload = "Object [(''events'', fst (split_kinds items v)), (''metrics'', snd (split_kinds items v))]"
  have q: "bounded_step 0 s (t, w1)" "wire w1 = wire (snd s)" "bounded_step 0 s (t, w2)" "wire w2 = wire (snd s)"
    by (auto intro!: bounded_step_quiet simp: t_def w_def w1_def w2_def advances_def steady_def same_pace_def)
  show thesis
  proof (cases "encrypt (crypt ext) enc (fst (draw_nonce ext w)) ?payload None")
    case (Inl e)
    then show thesis using \<open>items_value ext items = Inr v\<close> q(1,2)
      by (intro aborted [of "(t, w1)" e])
         (auto simp: send_batch_encrypted_def Let_def case_prod_beta t_def w_def w1_def)
  next
    case (Inr ct)
    let ?env = "Object
      [(''encrypted_payload'', String ct),
       (''batch_id'', String (generate_batch_id (system_time ext (clock w2)) (fst (draw_uuid ext w1)))),
       (''agent_version'', String AGENT_VERSION), (''guard_version'', json_opt (guard_version (tr_config t))),
       (''guard_core_version'', json_opt (guard_core_version (tr_config t)))]"
    show thesis
    proof (cases "value_to_vec ext ?env")
      case (Inl e)
      then show thesis using \<open>items_value ext items = Inr v\<close> Inr q(3,4)
        by (intro aborted [of "(t, w2)" "Serialization e"])
           (auto simp: send_batch_encrypted_def Let_def case_prod_beta t_def w_def w1_def w2_def)
    next
      case (Inr body)
      have "sealed ext enc (tr_config (fst s)) items body"
        unfolding sealed_def using \<open>items_value ext items = Inr v\<close>
          \<open>encrypt (crypt ext) enc (fst (draw_nonce ext w)) ?payload None = Inr ct\<close> Inr t_def by blast
      then show thesis
        using \<open>items_value ext items = Inr v\<close> Inr q(3,4)
          \<open>encrypt (crypt ext) enc (fst (draw_nonce ext w)) ?payload None = Inr ct\<close>
        by (intro sent [of "(t, w2)" body])
           (auto simp: send_batch_encrypted_def Let_def case_prod_beta t_def w_def w1_def w2_def)
    qed
  qed
qed

lemma send_batch_encrypted_bounded:
  "bounded_step (total_attempts (tr_config (fst s))) s (snd (send_batch_encrypted ext enc items s))"
proof (cases rule: send_batch_encrypted_cases [of s ext enc items])
  case (aborted e s1)
  then show ?thesis using bounded_step_trans [OF aborted(1) bounded_step_outcome(3)]
    by (auto intro: bounded_step_mono)
next
  case (sent body s1)
  obtain r s' where r: "send_with_retry ext ''events/encrypted'' body s1 = (r, s')" by (cases "send_with_retry ext ''events/encrypted'' body s1")
  have "bounded_step (total_attempts (tr_config (fst s))) s1 s'"
    using bounded_step_retry [of s1 ext "''events/encrypted''" body] sent(3) r by simp
  then have "bounded_step (total_attempts (tr_config (fst s))) s s'"
    using bounded_step_trans [OF sent(1)] by fastforce
  then show ?thesis using sent(5) r bounded_step_trans [OF _ bounded_step_outcome(1)]
      bounded_step_trans [OF _ bounded_step_outcome(2)]
    by (cases r) fastforce+
qed

lemma send_plain_bounded:
  "bounded_step (total_attempts (tr_config (fst s))) s (snd (send_plain ext items s))"
proof -
  obtain t w where s: "s = (t, w)" by (cases s)
  obtain r w1 where b: "build_batch_body ext (tr_config t) items w = (r, w1)" by (metis prod.exhaust)
  have q: "bounded_step 0 (t, w) (t, w1)"
    using build_batch_body_frame [OF b] by (intro bounded_step_quiet) (auto simp: advances_def steady_def same_pace_def)
  show ?thesis
  proof (cases r)
    case (Inl e)
    have "snd (send_plain ext items s) = snd (abort_send TransportSend (Serialization e) (t, w1))"
      using Inl b s by (simp add: send_plain_def case_prod_beta)
    then show ?thesis using bounded_step_trans [OF q bounded_step_outcome(3)] s by (auto intro: bounded_step_mono)
  next
    case (Inr body)
    have "snd (send_plain ext items s) = snd (send_with_retry ext (batch_label items) body (t, w1))"
      using Inr b s by (simp add: send_plain_def case_prod_beta)
    then show ?thesis using bounded_step_trans [OF q bounded_step_retry] s by simp
  qed
qed

lemma advances_config: "advances s s' \<Longrightarrow> tr_config (fst s') = tr_config (fst s)"
  by (simp add: advances_def steady_def)

lemma send_batch_eqs:
  "encryptor (fst s) = Some enc \<Longrightarrow> send_batch ext items s = send_batch_encrypted ext enc items s"
  "encryptor (fst s) = None \<Longrightarrow> send_plain ext items s = (Inl out, s') \<Longrightarrow> send_batch ext items s = (out, s')"
  "encryptor (fst s) = None \<Longrightarrow> send_plain ext items s = (Inr (Inr out), s') \<Longrightarrow>
     send_batch ext items s = report_outcome out s'"
  "encryptor (fst s) = None \<Longrightarrow> send_plain ext items s = (Inr (Inl detail), s') \<Longrightarrow>
     send_batch ext items s = split_or_drop ext items detail s'"
  by (simp_all add: send_batch.simps)

lemma split_or_drop_eqs:
  "batch_len items \<le> 1 \<Longrightarrow> split_or_drop ext items detail s = drop_too_large detail s"
  "1 < batch_len items \<Longrightarrow> batch_split items = (l, r) \<Longrightarrow> send_batch ext l s = (lo, s') \<Longrightarrow>
     split_or_drop ext items detail s = (if is_confirmed lo then send_batch ext r s' else (lo, s'))"
  by (simp_all add: split_or_drop.simps)

text \<open>The mutual recursion as one induction rule over the cases that recurse.\<close>

lemma send_batch_induct:
  assumes batch: "\<And>items s. (\<And>detail s'. encryptor (fst s) = None \<Longrightarrow>
        send_plain ext items s = (Inr (Inl detail), s') \<Longrightarrow> Q items detail s') \<Longrightarrow> P items s"
    and split: "\<And>items detail s.
        (\<And>l r. 1 < batch_len items \<Longrightarrow> batch_split items = (l, r) \<Longrightarrow> P l s) \<Longrightarrow>
        (\<And>l r lo s'. 1 < batch_len items \<Longrightarrow> batch_split items = (l, r) \<Longrightarrow>
           send_batch ext l s = (lo, s') \<Longrightarrow> is_confirmed lo \<Longrightarrow> P r s') \<Longrightarrow> Q items detail s"
  shows "P items s" "Q items detail s"
proof -
  have "(ext' = ext \<longrightarrow> P items s)" and "(ext'' = ext \<longrightarrow> Q items detail s)" for ext' ext'' :: externals
  proof (induction ext' items s and ext'' items detail s rule: send_batch_split_or_drop.induct)
    case (1 ext' items s)
    show ?case
    proof
      assume "ext' = ext"
      then show "P items s" using "1.IH" [OF _ _ refl] by (intro batch) force
    qed
  next
    case (2 ext'' items detail s)
    show ?case
    proof
      assume e: "ext'' = ext"
      show "Q items detail s"
      proof (rule split)
        fix l r assume "1 < batch_len items" "batch_split items = (l, r)"
        then show "P l s" using "2.IH"(1) [OF _ refl, of l r] e by simp
      next
        fix l r lo s' assume "1 < batch_len items" "batch_split items = (l, r)"
          "send_batch ext l s = (lo, s')" "is_confirmed lo"
        then show "P r s'" using "2.IH"(2) [OF _ refl _ refl, of l r lo s'] e by simp
      qed
    qed
  qed
  then show "P items s" "Q items detail s" by blast+
qed

text \<open>Splitting a batch of \<open>n\<close> items down to single items costs at most \<open>2 n - 1\<close> runs of the loop.\<close>

lemma send_batch_bounded_step:
  assumes split: "\<And>detail s'. encryptor (fst s) = None \<Longrightarrow> send_plain ext items s = (Inr (Inl detail), s') \<Longrightarrow>
      bounded_step (k * total_attempts (tr_config (fst s'))) s' (snd (split_or_drop ext items detail s'))"
  shows "bounded_step ((k + 1) * total_attempts (tr_config (fst s))) s (snd (send_batch ext items s))"
proof (cases "encryptor (fst s)")
  case (Some enc)
  then show ?thesis using bounded_step_mono [OF send_batch_encrypted_bounded, of s "(k + 1) * total_attempts (tr_config (fst s))"]
    by (simp add: send_batch_eqs)
next
  case None
  let ?A = "total_attempts (tr_config (fst s))"
  obtain p s' where ps: "send_plain ext items s = (p, s')" by (metis prod.exhaust)
  have b: "bounded_step ?A s s'" using send_plain_bounded [of s ext items] ps by simp
  then have cfg: "tr_config (fst s') = tr_config (fst s)" by (simp add: bounded_step_def advances_config)
  consider (final) out where "p = Inl out" | (out) out where "p = Inr (Inr out)" | (big) detail where "p = Inr (Inl detail)"
    by (metis sum.exhaust)
  then show ?thesis
  proof cases
    case final
    then show ?thesis using None ps bounded_step_mono [OF b] by (simp add: send_batch_eqs)
  next
    case out
    then show ?thesis using None ps bounded_step_mono [OF bounded_step_trans [OF b bounded_step_outcome(1)]]
      by (simp add: send_batch_eqs)
  next
    case big
    have "bounded_step (?A + k * ?A) s (snd (split_or_drop ext items detail s'))"
      using bounded_step_trans [OF b split [OF None]] ps big cfg by simp
    then show ?thesis using None ps big by (simp add: send_batch_eqs)
  qed
qed

lemma split_or_drop_bounded_step:
  assumes left: "\<And>l r. 1 < batch_len items \<Longrightarrow> batch_split items = (l, r) \<Longrightarrow>
      bounded_step ((2 * batch_len l - 1) * total_attempts (tr_config (fst s))) s (snd (send_batch ext l s))"
    and right: "\<And>l r lo s'. 1 < batch_len items \<Longrightarrow> batch_split items = (l, r) \<Longrightarrow> send_batch ext l s = (lo, s') \<Longrightarrow>
      is_confirmed lo \<Longrightarrow>
      bounded_step ((2 * batch_len r - 1) * total_attempts (tr_config (fst s'))) s' (snd (send_batch ext r s'))"
  shows "bounded_step ((2 * max 1 (batch_len items) - 2) * total_attempts (tr_config (fst s))) s
           (snd (split_or_drop ext items detail s))"
proof (cases "1 < batch_len items")
  case False
  then show ?thesis using bounded_step_outcome(2) [of s detail] by (simp add: split_or_drop_eqs bounded_step_mono)
next
  case True
  let ?A = "total_attempts (tr_config (fst s))"
  obtain l r where lr: "batch_split items = (l, r)" by (cases "batch_split items")
  obtain lo s' where ls: "send_batch ext l s = (lo, s')" by (metis prod.exhaust)
  have len: "batch_len l + batch_len r = batch_len items" "0 < batch_len l" "0 < batch_len r"
    using batch_split_len [OF lr] True by auto
  have bl: "bounded_step ((2 * batch_len l - 1) * ?A) s s'" using left [OF True lr] ls by simp
  then have cfg: "tr_config (fst s') = tr_config (fst s)" by (simp add: bounded_step_def advances_config)
  have sum: "(2 * batch_len l - 1) * ?A + (2 * batch_len r - 1) * ?A = (2 * max 1 (batch_len items) - 2) * ?A"
    unfolding distrib_right [symmetric] using len by (intro arg_cong [where f = "\<lambda>k. k * ?A"]) auto
  show ?thesis
  proof (cases "is_confirmed lo")
    case c: True
    show ?thesis using bounded_step_trans [OF bl right [OF True lr ls c, unfolded cfg]] c sum
      by (simp add: split_or_drop_eqs(2) [OF True lr ls])
  next
    case False
    then show ?thesis using bounded_step_mono [OF bl] sum [symmetric]
      by (simp add: split_or_drop_eqs(2) [OF True lr ls])
  qed
qed

lemma send_batch_bounded:
  "bounded_step ((2 * max 1 (batch_len items) - 1) * total_attempts (tr_config (fst s))) s (snd (send_batch ext items s))"
  "bounded_step ((2 * max 1 (batch_len items) - 2) * total_attempts (tr_config (fst s))) s
     (snd (split_or_drop ext items detail s))"
proof (induction items s and items detail s rule: send_batch_induct [where ext = ext])
  case (1 items s)
  have "2 * max 1 (batch_len items) - 1 = (2 * max 1 (batch_len items) - 2) + 1" by linarith
  then show ?case using send_batch_bounded_step [OF 1] by metis
next
  case (2 items detail s)
  show ?case
  proof (rule split_or_drop_bounded_step)
    fix l r assume h: "1 < batch_len items" "batch_split items = (l, r)"
    then have "max 1 (batch_len l) = batch_len l" using batch_split_len [of items l r] by auto
    with 2(1) [OF h] show "bounded_step ((2 * batch_len l - 1) * total_attempts (tr_config (fst s))) s (snd (send_batch ext l s))"
      by simp
  next
    fix l r lo s' assume h: "1 < batch_len items" "batch_split items = (l, r)" "send_batch ext l s = (lo, s')" "is_confirmed lo"
    then have "max 1 (batch_len r) = batch_len r" using batch_split_len [of items l r] by auto
    with 2(2) [OF h] show "bounded_step ((2 * batch_len r - 1) * total_attempts (tr_config (fst s'))) s' (snd (send_batch ext r s'))"
      by simp
  qed
qed

section \<open>Confirmed batches\<close>

text \<open>A plaintext request carries a batch when its body was built from that batch; building uses the
  clock and the random draws of the world and nothing else of it.\<close>

definition fresh_world :: "Instant \<Rightarrow> nat \<Rightarrow> unit World" where
  "fresh_world now n =
     \<lparr> clock = now, draws = n, wire = [], sent_at = [], hook_calls = [], store = (), panicked = False \<rparr>"

definition carries :: "externals \<Rightarrow> HttpTransport \<Rightarrow> BatchItems \<Rightarrow> HttpRequest \<Rightarrow> bool" where
  "carries ext t items req \<longleftrightarrow>
     (\<exists>now n body. fst (build_batch_body ext (tr_config t) items (fresh_world now n)) = Inr body \<and>
        req = post_request ext t (batch_label items) body)"

lemma build_batch_body_fresh:
  "fst (build_batch_body ext cfg items (fresh_world (clock w) (draws w))) = fst (build_batch_body ext cfg items w)"
  by (simp add: build_batch_body_def fresh_world_def draw_uuid_def utc_now_def Let_def case_prod_beta split: sum.splits)

lemma carries_steady: "steady t t' \<Longrightarrow> carries ext t' items req \<longleftrightarrow> carries ext t items req"
  by (simp add: carries_def post_request_steady) (simp add: steady_def)

text \<open>A batch is settled by a log when, after the first \<open>base\<close> requests, some request carries it and
  the server accepted it, rejected it for good, or found it too large as a single item.\<close>

definition settles :: "externals \<Rightarrow> BatchItems \<Rightarrow> string \<Rightarrow> HttpResponse \<Rightarrow> bool" where
  "settles ext items url resp =
     (case classify_attempt ext resp url of
        AttemptAccepted \<Rightarrow> True
      | AttemptPermanent _ _ \<Rightarrow> True
      | AttemptTooLarge _ \<Rightarrow> batch_len items \<le> 1
      | _ \<Rightarrow> False)"

definition settled :: "externals \<Rightarrow> HttpTransport \<Rightarrow> nat \<Rightarrow> HttpRequest list \<Rightarrow> BatchItems \<Rightarrow> bool" where
  "settled ext t base sent items \<longleftrightarrow>
     (\<exists>pre req. prefix (pre @ [req]) sent \<and> base \<le> length pre \<and> carries ext t items req \<and>
        answered ext (pre @ [req]) (settles ext items (api_url t (batch_label items))))"

inductive settled_all :: "externals \<Rightarrow> HttpTransport \<Rightarrow> nat \<Rightarrow> HttpRequest list \<Rightarrow> BatchItems \<Rightarrow> bool"
  for ext t base sent where
  whole: "settled ext t base sent items \<Longrightarrow> settled_all ext t base sent items"
| halves: "batch_split items = (l, r) \<Longrightarrow> settled_all ext t base sent l \<Longrightarrow> settled_all ext t base sent r \<Longrightarrow>
     settled_all ext t base sent items"

lemma settled_mono: "settled ext t base sent items \<Longrightarrow> prefix sent sent' \<Longrightarrow> settled ext t base sent' items"
  by (auto simp: settled_def intro: prefix_order.trans)

lemma settled_all_mono:
  "settled_all ext t base sent items \<Longrightarrow> prefix sent sent' \<Longrightarrow> settled_all ext t base sent' items"
  by (induction rule: settled_all.induct) (auto intro: settled_all.intros settled_mono)

text \<open>What a log says of a batch before it is split: its request was the last one and too large.\<close>

definition refused :: "externals \<Rightarrow> HttpTransport \<Rightarrow> nat \<Rightarrow> HttpRequest list \<Rightarrow> BatchItems \<Rightarrow> string \<Rightarrow> bool" where
  "refused ext t base sent items detail \<longleftrightarrow>
     (\<exists>pre req. sent = pre @ [req] \<and> base \<le> length pre \<and> carries ext t items req \<and>
        answered ext sent (\<lambda>r. classify_attempt ext r (api_url t (batch_label items)) = AttemptTooLarge detail))"

lemma refused_single:
  assumes "refused ext t base sent items detail" "batch_len items \<le> 1"
  shows "settled ext t base sent items"
proof -
  obtain pre req where pre: "sent = pre @ [req]" "base \<le> length pre" "carries ext t items req"
    and ans: "answered ext sent (\<lambda>r. classify_attempt ext r (api_url t (batch_label items)) = AttemptTooLarge detail)"
    using assms(1) by (auto simp: refused_def)
  have "answered ext sent (settles ext items (api_url t (batch_label items)))"
    using ans by (rule answered_mono) (use assms(2) in \<open>simp add: settles_def\<close>)
  with pre show ?thesis unfolding settled_def by blast
qed

lemma send_plain_answer:
  assumes "send_plain ext items s = (Inr r, s')" "base \<le> wire_length s"
  shows "r = Inl detail \<Longrightarrow> refused ext (fst s) base (wire (snd s')) items detail"
    "r = Inr out \<Longrightarrow> is_confirmed out \<Longrightarrow> settled ext (fst s) base (wire (snd s')) items"
proof -
  obtain t w where s: "s = (t, w)" by (cases s)
  obtain body w1 where b: "build_batch_body ext (tr_config t) items w = (Inr body, w1)"
    and r: "send_with_retry ext (batch_label items) body (t, w1) = (r, s')"
    using assms(1) s by (auto simp: send_plain_def split: prod.splits sum.splits)
  let ?req = "post_request ext t (batch_label items) body"
  have car: "carries ext t items ?req"
    unfolding carries_def using b build_batch_body_fresh [of ext "tr_config t" items w] by (metis fst_conv)
  obtain k where k: "wire (snd s') = wire w1 @ replicate k ?req"
    using send_with_retry_wire [of "(t, w1)" ext "batch_label items" body] r by auto
  have base: "base \<le> length (wire w1)"
    using assms(2) s build_batch_body_frame(1) [OF b] by (simp add: wire_length_def)
  have last: "\<exists>pre. wire (snd s') = pre @ [?req] \<and> base \<le> length pre" if "\<forall>e. r \<noteq> Inr (Failed e)"
  proof -
    have "0 < k" using send_with_retry_justified(2) [OF r that] k by (simp add: wire_length_def)
    then obtain j where "k = Suc j" by (cases k) auto
    with k base show ?thesis by (auto intro!: exI [of _ "wire w1 @ replicate j ?req"] simp: replicate_append_same)
  qed
  note just = send_with_retry_justified(1) [OF r]
  show "refused ext (fst s) base (wire (snd s')) items detail" if "r = Inl detail"
    using last just that car s unfolding refused_def by fastforce
  show "settled ext (fst s) base (wire (snd s')) items" if c: "r = Inr out" "is_confirmed out"
  proof -
    have "answered ext (wire (snd s')) (settles ext items (api_url t (batch_label items)))"
      using just c by (cases out) (auto simp: settles_def elim!: answered_mono)
    moreover obtain pre where "wire (snd s') = pre @ [?req]" "base \<le> length pre"
      using last c by (cases out) auto
    ultimately show ?thesis unfolding settled_def using car s by (metis fst_conv prefix_order.refl)
  qed
qed

definition confirms :: "externals \<Rightarrow> HttpTransport \<Rightarrow> nat \<Rightarrow> BatchItems \<Rightarrow> SendOutcome \<times> 'st tstate \<Rightarrow> bool" where
  "confirms ext t base items r \<longleftrightarrow>
     (is_confirmed (fst r) \<longrightarrow> settled_all ext t base (wire (snd (snd r))) items)"

lemma refused_steady: "steady t t' \<Longrightarrow> refused ext t' base sent items d \<longleftrightarrow> refused ext t base sent items d"
  by (simp add: refused_def carries_steady api_url_steady)

lemma settled_steady: "steady t t' \<Longrightarrow> settled ext t' base sent items \<longleftrightarrow> settled ext t base sent items"
  by (simp add: settled_def carries_steady api_url_steady)

lemma bounded_step_facts:
  "bounded_step k s s' \<Longrightarrow> steady (fst s) (fst s')"
  "bounded_step k s s' \<Longrightarrow> wire_length s \<le> wire_length s'"
  "bounded_step k s s' \<Longrightarrow> prefix (wire (snd s)) (wire (snd s'))"
  by (auto simp: bounded_step_def advances_def wire_length_def prefix_length_le)

lemma steady_trans: "steady a b \<Longrightarrow> steady b c \<Longrightarrow> steady a c"
  by (simp add: steady_def)

lemma send_batch_confirms_step:
  assumes split: "\<And>detail s'. send_plain ext items s = (Inr (Inl detail), s') \<Longrightarrow>
      refused ext t base (wire (snd s')) items detail \<Longrightarrow> confirms ext t base items (split_or_drop ext items detail s')"
    and t: "steady t (fst s)" "encryptor t = None" and base: "base \<le> wire_length s"
  shows "confirms ext t base items (send_batch ext items s)"
proof -
  have none: "encryptor (fst s) = None" using t by (simp add: steady_def)
  obtain p s' where ps: "send_plain ext items s = (p, s')" by (metis prod.exhaust)
  consider (final) out where "p = Inl out" | (out) out where "p = Inr (Inr out)" | (big) detail where "p = Inr (Inl detail)"
    by (metis sum.exhaust)
  then show ?thesis
  proof cases
    case final
    then have "\<not> is_confirmed out"
      using ps by (auto simp: send_plain_def abort_send_def split: prod.splits sum.splits)
    then show ?thesis using final ps none by (simp add: send_batch_eqs confirms_def)
  next
    case out
    have "is_confirmed out \<Longrightarrow> settled_all ext t base (wire (snd s')) items"
      using send_plain_answer(2) [OF ps [unfolded out] base refl] settled_steady [OF t(1)] by (simp add: settled_all.whole)
    then show ?thesis using out ps none by (simp add: send_batch_eqs confirms_def report_facts)
  next
    case big
    have "refused ext t base (wire (snd s')) items detail"
      using send_plain_answer(1) [OF ps [unfolded big] base refl] refused_steady [OF t(1)] by simp
    then show ?thesis using split big ps none by (simp add: send_batch_eqs)
  qed
qed

lemma split_or_drop_confirms_step:
  assumes left: "\<And>l r. 1 < batch_len items \<Longrightarrow> batch_split items = (l, r) \<Longrightarrow> confirms ext t base l (send_batch ext l s)"
    and right: "\<And>l r lo s'. 1 < batch_len items \<Longrightarrow> batch_split items = (l, r) \<Longrightarrow> send_batch ext l s = (lo, s') \<Longrightarrow>
      is_confirmed lo \<Longrightarrow> confirms ext t base r (send_batch ext r s')"
    and ref: "refused ext t base (wire (snd s)) items detail"
  shows "confirms ext t base items (split_or_drop ext items detail s)"
proof (cases "1 < batch_len items")
  case False
  then show ?thesis using refused_single [OF ref]
    by (simp add: split_or_drop_eqs confirms_def drop_too_large_facts settled_all.whole)
next
  case True
  obtain l r where lr: "batch_split items = (l, r)" by (cases "batch_split items")
  obtain lo s' where ls: "send_batch ext l s = (lo, s')" by (metis prod.exhaust)
  have pre: "prefix (wire (snd s')) (wire (snd (snd (send_batch ext r s'))))"
    by (rule bounded_step_facts(3) [OF send_batch_bounded(1)])
  show ?thesis
    using left [OF True lr] right [OF True lr ls] ls settled_all_mono [OF _ pre] settled_all.halves [OF lr]
    by (auto simp: confirms_def split_or_drop_eqs(2) [OF True lr ls])
qed

text \<open>Every item of a confirmed plaintext batch is in a part of it that the server settled.\<close>

lemma send_batch_confirms:
  assumes "encryptor t = None"
  shows "steady t (fst s) \<longrightarrow> base \<le> wire_length s \<longrightarrow> confirms ext t base items (send_batch ext items s)"
    "steady t (fst s) \<longrightarrow> base \<le> wire_length s \<longrightarrow> refused ext t base (wire (snd s)) items detail \<longrightarrow>
       confirms ext t base items (split_or_drop ext items detail s)"
proof (induction items s and items detail s rule: send_batch_induct [where ext = ext])
  case (1 items s)
  show ?case
  proof (intro impI)
    assume t: "steady t (fst s)" and base: "base \<le> wire_length s"
    show "confirms ext t base items (send_batch ext items s)"
    proof (rule send_batch_confirms_step [OF _ t assms base])
      fix detail s' assume p: "send_plain ext items s = (Inr (Inl detail), s')"
        and ref: "refused ext t base (wire (snd s')) items detail"
      have b: "bounded_step (total_attempts (tr_config (fst s))) s s'" using send_plain_bounded [of s ext items] p by simp
      have "encryptor (fst s) = None" using t assms by (simp add: steady_def)
      then show "confirms ext t base items (split_or_drop ext items detail s')"
        using 1 p ref base steady_trans [OF t bounded_step_facts(1) [OF b]] bounded_step_facts(2) [OF b] by simp
    qed
  qed
next
  case (2 items detail s)
  show ?case
  proof (intro impI)
    assume t: "steady t (fst s)" and base: "base \<le> wire_length s" and ref: "refused ext t base (wire (snd s)) items detail"
    show "confirms ext t base items (split_or_drop ext items detail s)"
    proof (rule split_or_drop_confirms_step [OF _ _ ref])
      fix l r lo s' assume h: "1 < batch_len items" "batch_split items = (l, r)" "send_batch ext l s = (lo, s')" "is_confirmed lo"
      have b: "bounded_step ((2 * max 1 (batch_len l) - 1) * total_attempts (tr_config (fst s))) s s'"
        using send_batch_bounded(1) [of l s ext] h(3) by simp
      show "confirms ext t base r (send_batch ext r s')"
        using 2(2) [OF h] base steady_trans [OF t bounded_step_facts(1) [OF b]] bounded_step_facts(2) [OF b] by simp
    qed (use 2(1) t base in blast)
  qed
qed

fun batch_events :: "BatchItems \<Rightarrow> SecurityEvent list" where
  "batch_events (Events es) = es"
| "batch_events (Metrics ms) = []"

fun batch_metrics :: "BatchItems \<Rightarrow> SecurityMetric list" where
  "batch_metrics (Events es) = []"
| "batch_metrics (Metrics ms) = ms"

lemma batch_split_append:
  "batch_split items = (l, r) \<Longrightarrow>
   batch_events l @ batch_events r = batch_events items \<and> batch_metrics l @ batch_metrics r = batch_metrics items"
  by (cases items) (auto simp: Let_def)

lemma settled_all_chunks:
  "settled_all ext t base sent items \<Longrightarrow>
   \<exists>chunks. (\<forall>c \<in> set chunks. settled ext t base sent c) \<and>
     concat (map batch_events chunks) = batch_events items \<and> concat (map batch_metrics chunks) = batch_metrics items"
proof (induction rule: settled_all.induct)
  case (whole items)
  then show ?case by (intro exI [of _ "[items]"]) simp
next
  case (halves items l r)
  then obtain cl cr where "\<forall>c \<in> set cl. settled ext t base sent c" "\<forall>c \<in> set cr. settled ext t base sent c"
      "concat (map batch_events cl) = batch_events l" "concat (map batch_metrics cl) = batch_metrics l"
      "concat (map batch_events cr) = batch_events r" "concat (map batch_metrics cr) = batch_metrics r"
    by blast
  with batch_split_append [OF halves(1)] show ?case by (intro exI [of _ "cl @ cr"]) auto
qed

section \<open>Encrypted batches, status and rules\<close>

lemma send_batch_chunks:
  assumes "encryptor t = None" and "send_batch ext items (t, w) = (out, t', w')" and "is_confirmed out"
  obtains chunks where "concat (map batch_events chunks) = batch_events items"
    "concat (map batch_metrics chunks) = batch_metrics items" "list_all (settled ext t (length (wire w)) (wire w')) chunks"
proof -
  have "confirms ext t (length (wire w)) items (send_batch ext items (t, w))"
    using send_batch_confirms(1) [OF assms(1), of "(t, w)"] by (simp add: steady_def wire_length_def)
  then have "settled_all ext t (length (wire w)) (wire w') items" using assms(2,3) by (simp add: confirms_def)
  then show thesis using settled_all_chunks that by (fastforce simp: list_all_iff)
qed

lemma send_batch_encrypted_wire:
  "\<exists>k body. k \<le> total_attempts (tr_config (fst s)) \<and>
     wire (snd (snd (send_batch_encrypted ext enc items s))) =
       wire (snd s) @ replicate k (post_request ext (fst s) ''events/encrypted'' body) \<and>
     (0 < k \<longrightarrow> sealed ext enc (tr_config (fst s)) items body)"
proof (cases rule: send_batch_encrypted_cases [of s ext enc items])
  case (aborted e s1)
  then show ?thesis by (intro exI [of _ 0]) (simp add: abort_send_facts)
next
  case (sent body s1)
  obtain r s' where r: "send_with_retry ext ''events/encrypted'' body s1 = (r, s')" by (metis prod.exhaust)
  obtain k where "k \<le> total_attempts (tr_config (fst s))"
    "wire (snd s') = wire (snd s) @ replicate k (post_request ext (fst s) ''events/encrypted'' body)"
    using send_with_retry_wire [of s1 ext "''events/encrypted''" body] r sent(2,3) by auto
  then show ?thesis using sent(4,5) r by (cases r) (auto simp: outcome_facts)
qed

lemma send_status_bounded:
  "bounded_step (total_attempts (tr_config (fst s))) s (snd (send_status ext status s))"
proof (cases "status_to_vec ext status")
  case (Inl e)
  then show ?thesis using bounded_step_mono [OF bounded_step_outcome(3)] by (simp add: send_status_def)
next
  case (Inr body)
  obtain r s' where r: "send_with_retry ext ''status'' body s = (r, s')" by (metis prod.exhaust)
  then have "bounded_step (total_attempts (tr_config (fst s))) s s'" using bounded_step_retry [of s ext "''status''" body] by simp
  then show ?thesis using Inr r bounded_step_trans [OF _ bounded_step_outcome(3)]
    by (cases r) (fastforce simp: send_status_def)+
qed

lemma fetch_rules_snd: "snd (fetch_rules ext s) = snd (get_with_retry ext ''rules'' s)"
  by (simp add: fetch_rules_def split: prod.splits option.splits)

lemma get_with_retry_bounded:
  "bounded_step (total_attempts (tr_config (fst s))) s (snd (get_with_retry ext label s))"
  using get_with_retry_inv [of s label ext] get_with_retry_wire_length [of ext label s] get_with_retry_paced [of s ext label]
  by (auto simp: bounded_step_def get_inv_def)

end
