(* ===== verification/Agent_Buffer.thy ===== *)
theory Agent_Buffer
  imports Agent_Flush Transport_Batch "HOL-Library.Multiset"
begin

text \<open>
  The buffers of the agent. Events and metrics are two instances of one contract: the record
  \<open>kind_ops\<close> names the operations of a kind, the locale \<open>telemetry_kind\<close> states what they promise, and
  the lemmas on enqueueing, flushing and requeueing are proved once in it. The locale is interpreted
  for the event and for the metric operations of the agent.
\<close>

section \<open>Requeueing\<close>

text \<open>Requeueing puts the failed items back in front in their order, keeps the first \<open>capacity\<close> of the
  whole, and reports exactly the keys of what it cut off at the end, newest first.\<close>

definition buffered :: "'a \<times> string option \<Rightarrow> 'a BufferedItem" where
  "buffered p = \<lparr> item = fst p, redis_key = snd p \<rparr>"

lemma requeue_one_spec:
  assumes "0 < capacity" "length d \<le> capacity"
  shows "requeue_one capacity p (d, n, ev) =
    (take capacity (buffered p # d), n + of_nat (length (drop capacity (buffered p # d))),
     ev @ map redis_key (drop capacity (buffered p # d)))"
proof (cases "length d < capacity")
  case True
  with assms show ?thesis by (cases p) (simp add: buffered_def take_Cons')
next
  case False
  then have len: "length d = capacity" using assms by simp
  then obtain ys y where d: "d = ys @ [y]" using assms by (cases d rule: rev_cases) auto
  obtain m where m: "capacity = Suc m" using assms(1) by (cases capacity) auto
  have "length ys = m" using len d m by simp
  then show ?thesis using d m by (cases p) (simp add: buffered_def)
qed

lemma requeue_spec:
  assumes "0 < capacity" "length deque \<le> capacity"
  shows "requeue deque capacity items keys dropped =
    (let all = map buffered (zip items keys) @ deque
     in (take capacity all, dropped + of_nat (length (drop capacity all)),
         map redis_key (rev (drop capacity all))))"
proof -
  have "foldr (requeue_one capacity) ps (deque, dropped, []) =
    (let all = map buffered ps @ deque
     in (take capacity all, dropped + of_nat (length (drop capacity all)),
         map redis_key (rev (drop capacity all))))" for ps
  proof (induction ps)
    case Nil
    then show ?case using assms by simp
  next
    case (Cons p ps)
    define all where "all = map buffered ps @ deque"
    show ?case
    proof (cases "length all < capacity")
      case True
      then show ?thesis using assms Cons by (simp add: requeue_one_spec Let_def all_def [symmetric])
    next
      case False
      obtain m where m: "capacity = Suc m" using assms(1) by (cases capacity) auto
      have len: "m < length all" using False m by simp
      have step: "take (Suc m) all = take m all @ [all ! m]" "drop m all = all ! m # drop (Suc m) all"
        using len by (simp_all add: take_Suc_conv_app_nth Cons_nth_drop_Suc)
      show ?thesis using assms Cons len
        by (simp add: requeue_one_spec Let_def all_def [symmetric] m step Suc_diff_le)
    qed
  qed
  then show ?thesis by (simp add: requeue_def foldr_conv_fold [symmetric])
qed

section \<open>The contract of a kind\<close>

record ('a, 'st) kind_ops =
  k_buf :: "'st CoreState \<Rightarrow> 'a BufferedItem list"
  k_dropped :: "'st CoreState \<Rightarrow> u64"
  k_gate :: "'st CoreState \<Rightarrow> Instant option"
  k_streak :: "'st CoreState \<Rightarrow> u32"
  k_pass :: "externals \<Rightarrow> 'a \<Rightarrow> 'st astate \<Rightarrow> 'st enq"
  k_enqueue :: "externals \<Rightarrow> (nat \<Rightarrow> 'st astate \<Rightarrow> 'st astate) \<Rightarrow> nat \<Rightarrow> 'a \<Rightarrow> 'st astate \<Rightarrow>
                  ((GuardAgentError + unit) \<times> 'st astate) option"
  k_drain :: "'st CoreState \<Rightarrow> 'a list \<times> string option list \<times> 'st CoreState"
  k_finish :: "SendOutcome \<Rightarrow> 'a list \<Rightarrow> string option list \<Rightarrow> 'st astate \<Rightarrow> 'st astate"
  k_flush :: "externals \<Rightarrow> 'st astate \<Rightarrow> 'st astate"
  k_batch :: "'a list \<Rightarrow> BatchItems"
  k_namespace :: string
  k_stage :: ErrorStage

definition event_ops :: "(SecurityEvent, 'st) kind_ops" where
  "event_ops =
     \<lparr> k_buf = events, k_dropped = events_dropped, k_gate = events_retry_after, k_streak = events_failure_streak,
       k_pass = enqueue_event_pass, k_enqueue = enqueue_event, k_drain = drain_events, k_finish = finish_events,
       k_flush = flush_events, k_batch = Events, k_namespace = NAMESPACE_EVENTS, k_stage = FlushEvents \<rparr>"

definition metric_ops :: "(SecurityMetric, 'st) kind_ops" where
  "metric_ops =
     \<lparr> k_buf = metrics, k_dropped = metrics_dropped, k_gate = metrics_retry_after, k_streak = metrics_failure_streak,
       k_pass = enqueue_metric_pass, k_enqueue = enqueue_metric, k_drain = drain_metrics, k_finish = finish_metrics,
       k_flush = flush_metrics, k_batch = Metrics, k_namespace = NAMESPACE_METRICS, k_stage = FlushMetrics \<rparr>"

lemmas kind_ops_defs = event_ops_def metric_ops_def

text \<open>Nothing that buffers or flushes changes these.\<close>

definition same_agent :: "'st Shared \<Rightarrow> 'st Shared \<Rightarrow> bool" where
  "same_agent sh sh' \<longleftrightarrow> config sh' = config sh \<and> sh_install_id sh' = sh_install_id sh \<and> redactor sh' = redactor sh \<and>
     started_at sh' = started_at sh \<and> running sh' = running sh \<and> flush_permits sh' = flush_permits sh \<and>
     redis_handler (core sh') = redis_handler (core sh)"

locale telemetry_kind =
  fixes K :: "('a, 'st) kind_ops"
  assumes pass_room: "length (k_buf K (core sh)) < buffer_size (config sh) \<Longrightarrow>
      \<exists>sh' w' key. k_pass K ext x (sh, w) = EnqDone (Inr ()) (sh', w') \<and> same_agent sh sh' \<and>
        k_buf K (core sh') = k_buf K (core sh) @ [buffered (x, key)] \<and> k_dropped K (core sh') = k_dropped K (core sh) \<and>
        wire w' = wire w \<and> clock w' = clock w \<and> panicked w' = panicked w"
    and pass_drop: "\<not> length (k_buf K (core sh)) < buffer_size (config sh) \<Longrightarrow>
      buffer_overflow_policy (config sh) = Drop \<Longrightarrow> k_buf K (core sh) = old # rest \<Longrightarrow>
      \<exists>sh' w'. k_pass K ext x (sh, w) = EnqRetry (sh', w') \<and> same_agent sh sh' \<and> k_buf K (core sh') = rest \<and>
        k_dropped K (core sh') = k_dropped K (core sh) + 1 \<and> wire w' = wire w \<and> clock w' = clock w \<and> panicked w' = panicked w"
    and pass_raise: "\<not> length (k_buf K (core sh)) < buffer_size (config sh) \<Longrightarrow>
      buffer_overflow_policy (config sh) = Raise \<Longrightarrow>
      k_pass K ext x (sh, w) = EnqDone (Inl (BufferFull (buffer_size (config sh)))) (sh, w)"
    and pass_block: "\<not> length (k_buf K (core sh)) < buffer_size (config sh) \<Longrightarrow>
      buffer_overflow_policy (config sh) = Block \<Longrightarrow> k_pass K ext x (sh, w) = EnqWait (sh, w)"
    and enqueue_0: "k_enqueue K ext other 0 x s = None"
    and enqueue_Suc: "k_enqueue K ext other (Suc n) x s =
      (case k_pass K ext x s of
         EnqDone r s' \<Rightarrow> Some (r, s')
       | EnqRetry s' \<Rightarrow> k_enqueue K ext other n x s'
       | EnqWait s' \<Rightarrow> k_enqueue K ext other n x (other n s')
       | EnqPanic \<Rightarrow> None)"
    and drain_law: "k_drain K c = (xs, ks, c') \<Longrightarrow> xs = map item (k_buf K c) \<and> ks = map redis_key (k_buf K c) \<and>
      k_buf K c' = [] \<and> k_dropped K c' = k_dropped K c \<and> k_gate K c' = k_gate K c \<and> k_streak K c' = k_streak K c \<and>
      redis_handler c' = redis_handler c"
    and stamp_law: "k_buf K (core_set_last_flush ext w c) = k_buf K c \<and>
      k_dropped K (core_set_last_flush ext w c) = k_dropped K c \<and> k_streak K (core_set_last_flush ext w c) = k_streak K c"
    and finish_confirmed: "is_confirmed out \<Longrightarrow> \<exists>c'. k_finish K out xs ks (sh, w) =
        (sh\<lparr>core := c'\<rparr>, confirm_keys (core sh) (k_namespace K) ks w) \<and>
        k_buf K c' = k_buf K (core sh) \<and> k_dropped K c' = k_dropped K (core sh) \<and> redis_handler c' = redis_handler (core sh) \<and>
        (out = Accepted \<longrightarrow> k_gate K c' = None \<and> k_streak K c' = 0)"
    and finish_failed: "requeue (k_buf K (core sh)) (buffer_size (config sh)) xs ks (k_dropped K (core sh)) = (d, nd, ev) \<Longrightarrow>
      \<exists>c' w'. k_finish K (Failed e) xs ks (sh, w) = (sh\<lparr>core := c'\<rparr>, fire_hook (config sh) (k_stage K) e w') \<and>
        k_buf K c' = d \<and> k_dropped K c' = nd \<and> redis_handler c' = redis_handler (core sh) \<and>
        k_streak K c' = saturating_add (k_streak K (core sh)) 1 \<and>
        k_gate K c' = gate_until (config sh) (k_streak K c') (clock w) \<and>
        w' = confirm_keys c' (k_namespace K) ev (if k_gate K c' = None then w\<lparr>panicked := True\<rparr> else w)"
    and flush_law: "k_flush K ext (sh, w) =
      (if gate_closed (clock w) (k_gate K (core sh)) then (sh, w)
       else let (items, keys, c1) = k_drain K (core sh)
            in if items = [] then (sh\<lparr>core := c1\<rparr>, w)
               else let (outcome, t, w1) = send_batch ext (k_batch K items) (transport sh, w)
                    in k_finish K outcome items keys
                         (sh\<lparr>core := core_set_last_flush ext w c1, transport := t\<rparr>, w1))"

section \<open>What persisting and forgetting keep\<close>

lemma persist_item_frame:
  assumes "persist_item ext ns pre v c w = (key, c', w')"
  shows "\<exists>n. c' = c\<lparr>redis_persist_failures := n\<rparr>" "wire w' = wire w" "clock w' = clock w"
    "hook_calls w' = hook_calls w" "panicked w' = panicked w"
proof -
  have "\<exists>n. c = c\<lparr>redis_persist_failures := n\<rparr>" by (rule exI [of _ "redis_persist_failures c"]) simp
  then show "\<exists>n. c' = c\<lparr>redis_persist_failures := n\<rparr>" "wire w' = wire w" "clock w' = clock w"
    "hook_calls w' = hook_calls w" "panicked w' = panicked w"
    using assms
    by (auto simp: persist_item_def draw_uuid_def Let_def split: option.splits sum.splits prod.splits)
qed

lemma delete_frame [simp]:
  "wire (delete_live c ns ks w) = wire w" "clock (delete_live c ns ks w) = clock w"
  "hook_calls (delete_live c ns ks w) = hook_calls w" "panicked (delete_live c ns ks w) = panicked w"
  "wire (forget_key c ns k w) = wire w" "clock (forget_key c ns k w) = clock w"
  "hook_calls (forget_key c ns k w) = hook_calls w" "panicked (forget_key c ns k w) = panicked w"
  "wire (confirm_keys c ns kks w) = wire w" "clock (confirm_keys c ns kks w) = clock w"
  "hook_calls (confirm_keys c ns kks w) = hook_calls w" "panicked (confirm_keys c ns kks w) = panicked w"
  by (simp_all add: delete_live_def forget_key_def confirm_keys_def split: option.splits)

lemma confirm_keys_Nil [simp]: "confirm_keys c ns [] w = w"
  by (simp add: confirm_keys_def live_keys_def List.map_filter_def)

lemma spawn_gated_flush_frame [simp]:
  "core (spawn_gated_flush sh) = core sh" "config (spawn_gated_flush sh) = config sh"
  "sh_install_id (spawn_gated_flush sh) = sh_install_id sh" "redactor (spawn_gated_flush sh) = redactor sh"
  "started_at (spawn_gated_flush sh) = started_at sh" "running (spawn_gated_flush sh) = running sh"
  "flush_permits (spawn_gated_flush sh) = flush_permits sh" "transport (spawn_gated_flush sh) = transport sh"
  by (simp_all add: spawn_gated_flush_def)

lemma core_set_last_flush_handler [simp]: "redis_handler (core_set_last_flush ext w c) = redis_handler c"
  by (simp add: core_set_last_flush_def)

section \<open>The retry gate of a failed kind\<close>

lemma unat_streak_pred: "0 < unat (k :: u32) \<Longrightarrow> unat (k - 1) = unat k - 1"
  using unat_sub [of 1 k] by (simp add: word_le_nat_alt)

text \<open>The gate is always set, at most 300 seconds ahead; for an interval of whole seconds it is the
  capped doubling.\<close>

lemma gate_until_bounds: "\<exists>g. gate_until cfg k now = Some g \<and> now \<le> g"
proof -
  have nonneg: "\<not> f64_lt (f64_of_nat n) (Fin 0)" for n
    using round64_nonneg [of "of_nat n"] by (cases "round64 (of_nat n)") (auto simp: f64_of_nat_def)
  obtain z where "streak_delay cfg k = Fin z" "0 \<le> z" "z \<le> 300"
    using calculate_backoff_delay_bounds [OF _ nonneg, of 300 "k - 1" "flush_interval cfg"]
    unfolding streak_delay_def const_defs by auto
  moreover obtain d where "from_secs_f64 (Fin z) = Some d"
    using from_secs_f64_total [of z] calculation by auto
  ultimately show ?thesis by (simp add: gate_until_def)
qed

lemma gate_until_not_None [simp]: "gate_until cfg k now \<noteq> None"
  using gate_until_bounds [of cfg k now] by auto

lemma gate_until_exact:
  assumes "0 < flush_interval cfg" "flush_interval cfg < 2 ^ 53" "0 < unat k"
  shows "gate_until cfg k now = Some (now + from_secs (min (flush_interval cfg * 2 ^ (unat k - 1)) 300))"
proof -
  have "(300 :: rat) < 2 ^ 1024"
  proof -
    have "(300 :: rat) < 2 ^ 9" by simp
    also have "(2 :: rat) ^ 9 \<le> 2 ^ 1024" by (rule power_increasing) simp_all
    finally show ?thesis .
  qed
  then have "streak_delay cfg k = Fin (min (of_nat (flush_interval cfg) * 2 ^ (unat k - 1)) 300)"
    unfolding streak_delay_def const_defs
    by (simp only: calculate_backoff_delay_doubles [OF assms(1,2)] unat_streak_pred [OF assms(3)])
  also have "min (of_nat (flush_interval cfg) * 2 ^ (unat k - 1)) 300 =
      (of_nat (min (flush_interval cfg * 2 ^ (unat k - 1)) 300) :: rat)"
    by (simp add: of_nat_min)
  finally have "streak_delay cfg k = Fin (of_nat (min (flush_interval cfg * 2 ^ (unat k - 1)) 300))" .
  moreover have "min (flush_interval cfg * 2 ^ (unat k - 1)) 300 < 2 ^ 64"
    by (rule le_less_trans [OF min.cobounded2]) simp
  ultimately show ?thesis by (simp only: gate_until_def from_secs_f64_nat from_secs_def option.map)
qed

section \<open>Enqueueing and flushing one kind\<close>

lemma buffered_zip [simp]: "map buffered (zip (map item b) (map redis_key b)) = b"
  by (induction b) (simp_all add: buffered_def)

text \<open>The state after \<open>j\<close> waits of the \<^verbatim>\<open>block\<close> policy, from \<open>n\<close> passes of fuel.\<close>

fun waited :: "(nat \<Rightarrow> 's \<Rightarrow> 's) \<Rightarrow> nat \<Rightarrow> nat \<Rightarrow> 's \<Rightarrow> 's" where
  "waited other n 0 s = s"
| "waited other n (Suc j) s = waited other (n - 1) j (other (n - 1) s)"

definition has_room :: "('a, 'st) kind_ops \<Rightarrow> 'st astate \<Rightarrow> bool" where
  "has_room K s \<longleftrightarrow> length (k_buf K (core (fst s))) < buffer_size (config (fst s))"

context telemetry_kind
begin

lemma enqueue_room:
  assumes "has_room K (sh, w)" "0 < n"
  shows "\<exists>sh' w' key. k_enqueue K ext other n x (sh, w) = Some (Inr (), (sh', w')) \<and> same_agent sh sh' \<and>
    k_buf K (core sh') = k_buf K (core sh) @ [buffered (x, key)] \<and> k_dropped K (core sh') = k_dropped K (core sh)"
proof -
  obtain m where "n = Suc m" using assms(2) by (cases n) auto
  then show ?thesis using pass_room [of sh ext x w] assms(1) by (auto simp: has_room_def enqueue_Suc)
qed

lemma enqueue_drop:
  assumes pol: "buffer_overflow_policy (config sh) = Drop" and cap: "0 < buffer_size (config sh)"
    and len: "length (k_buf K (core sh)) = buffer_size (config sh)" and n: "2 \<le> n"
  shows "\<exists>sh' w' key. k_enqueue K ext other n x (sh, w) = Some (Inr (), (sh', w')) \<and> same_agent sh sh' \<and>
    k_buf K (core sh') = tl (k_buf K (core sh)) @ [buffered (x, key)] \<and>
    k_dropped K (core sh') = k_dropped K (core sh) + 1"
proof -
  obtain old rest where b: "k_buf K (core sh) = old # rest" using cap len by (cases "k_buf K (core sh)") auto
  obtain m where m: "n = Suc m" "0 < m" using n by (cases n) auto
  obtain sh1 w1 where p: "k_pass K ext x (sh, w) = EnqRetry (sh1, w1)" "same_agent sh sh1" "k_buf K (core sh1) = rest"
      "k_dropped K (core sh1) = k_dropped K (core sh) + 1"
    using pass_drop [OF _ pol b, of ext x w] len by auto
  have "has_room K (sh1, w1)" using p len b by (simp add: has_room_def same_agent_def)
  from enqueue_room [OF this m(2), of ext other x] obtain sh' w' key where
      "k_enqueue K ext other m x (sh1, w1) = Some (Inr (), (sh', w'))" "same_agent sh1 sh'"
      "k_buf K (core sh') = k_buf K (core sh1) @ [buffered (x, key)]" "k_dropped K (core sh') = k_dropped K (core sh1)"
    by blast
  with p b m(1) show ?thesis by (intro exI [of _ sh'] exI [of _ w'] exI [of _ key]) (auto simp: enqueue_Suc same_agent_def)
qed

lemma enqueue_raise:
  assumes "buffer_overflow_policy (config sh) = Raise" "\<not> has_room K (sh, w)" "0 < n"
  shows "k_enqueue K ext other n x (sh, w) = Some (Inl (BufferFull (buffer_size (config sh))), (sh, w))"
  using assms pass_raise [of sh ext x w] by (cases n) (auto simp: has_room_def enqueue_Suc)

lemma enqueue_block:
  assumes "\<And>k s. config (fst (other k s)) = config (fst s)"
  shows "buffer_overflow_policy (config (fst s)) = Block \<Longrightarrow> j < n \<Longrightarrow> has_room K (waited other n j s) \<Longrightarrow>
    \<exists>s'. k_enqueue K ext other n x s = Some (Inr (), s')"
proof (induction n arbitrary: s j)
  case (Suc n)
  obtain sh w where s: "s = (sh, w)" by (cases s)
  show ?case
  proof (cases "has_room K s")
    case True
    then show ?thesis using enqueue_room [of sh w "Suc n" ext other x] s by auto
  next
    case False
    then obtain i where i: "j = Suc i" using Suc.prems(3) by (cases j) auto
    have "k_pass K ext x s = EnqWait s" using pass_block [of sh ext x w] False Suc.prems(1) s by (simp add: has_room_def)
    then show ?thesis using Suc.IH [of "other n s" i] Suc.prems assms i by (simp add: enqueue_Suc)
  qed
qed simp

lemma flush_gated: "gate_closed (clock w) (k_gate K (core sh)) \<Longrightarrow> k_flush K ext (sh, w) = (sh, w)"
  by (simp add: flush_law)

lemma flush_sent:
  assumes "\<not> gate_closed (clock w) (k_gate K (core sh))" "k_buf K (core sh) \<noteq> []"
    and "send_batch ext (k_batch K (map item (k_buf K (core sh)))) (transport sh, w) = (out, t, w1)"
  shows "\<exists>c. k_flush K ext (sh, w) =
      k_finish K out (map item (k_buf K (core sh))) (map redis_key (k_buf K (core sh))) (sh\<lparr>core := c, transport := t\<rparr>, w1) \<and>
    k_buf K c = [] \<and> k_dropped K c = k_dropped K (core sh) \<and> k_streak K c = k_streak K (core sh) \<and>
    redis_handler c = redis_handler (core sh)"
proof -
  obtain xs ks c1 where d: "k_drain K (core sh) = (xs, ks, c1)" by (metis prod_cases3)
  from drain_law [OF d] assms show ?thesis
    by (intro exI [of _ "core_set_last_flush ext w c1"])
       (simp add: flush_law d stamp_law)
qed

lemma flush_failed:
  assumes open_gate: "\<not> gate_closed (clock w) (k_gate K (core sh))" and ne: "k_buf K (core sh) \<noteq> []"
    and len: "length (k_buf K (core sh)) \<le> buffer_size (config sh)"
    and send: "send_batch ext (k_batch K (map item (k_buf K (core sh)))) (transport sh, w) = (Failed e, t, w1)"
  shows "\<exists>sh' w'. k_flush K ext (sh, w) = (sh', w') \<and> same_agent sh sh' \<and> transport sh' = t \<and>
    k_buf K (core sh') = k_buf K (core sh) \<and> k_dropped K (core sh') = k_dropped K (core sh) \<and>
    store w' = store w \<and> k_streak K (core sh') = saturating_add (k_streak K (core sh)) 1 \<and>
    k_gate K (core sh') = gate_until (config sh) (k_streak K (core sh')) (clock w1) \<and>
    w' = fire_hook (config sh) (k_stage K) e w1"
proof -
  let ?b = "k_buf K (core sh)"
  obtain c where f: "k_flush K ext (sh, w) =
      k_finish K (Failed e) (map item ?b) (map redis_key ?b) (sh\<lparr>core := c, transport := t\<rparr>, w1)"
    and c: "k_buf K c = []" "k_dropped K c = k_dropped K (core sh)" "k_streak K c = k_streak K (core sh)"
      "redis_handler c = redis_handler (core sh)"
    using flush_sent [OF open_gate ne send] by blast
  have cap: "0 < buffer_size (config sh)" using ne len by (cases ?b) auto
  let ?sh = "sh\<lparr>core := c, transport := t\<rparr>"
  have "requeue (k_buf K (core ?sh)) (buffer_size (config ?sh)) (map item ?b) (map redis_key ?b) (k_dropped K (core ?sh)) =
      (?b, k_dropped K (core sh), [])"
    using len cap c by (simp add: requeue_spec Let_def)
  from finish_failed [OF this, of e w1] obtain c' where
      "k_finish K (Failed e) (map item ?b) (map redis_key ?b) (?sh, w1) = (?sh\<lparr>core := c'\<rparr>, fire_hook (config sh) (k_stage K) e w1)"
      "k_buf K c' = ?b" "k_dropped K c' = k_dropped K (core sh)" "redis_handler c' = redis_handler (core sh)"
      "k_streak K c' = saturating_add (k_streak K (core sh)) 1"
      "k_gate K c' = gate_until (config sh) (k_streak K c') (clock w1)"
    using c by auto
  moreover have "store w1 = store w"
    using send_batch_bounded(1) [of "k_batch K (map item ?b)" "(transport sh, w)" ext] send
    by (simp add: bounded_step_def advances_def)
  ultimately show ?thesis using f by (auto simp: same_agent_def)
qed

lemma flush_confirmed:
  assumes open_gate: "\<not> gate_closed (clock w) (k_gate K (core sh))" and ne: "k_buf K (core sh) \<noteq> []"
    and send: "send_batch ext (k_batch K (map item (k_buf K (core sh)))) (transport sh, w) = (out, t, w1)"
    and ok: "is_confirmed out"
  shows "\<exists>sh' w'. k_flush K ext (sh, w) = (sh', w') \<and> same_agent sh sh' \<and> transport sh' = t \<and>
    k_buf K (core sh') = [] \<and> k_dropped K (core sh') = k_dropped K (core sh) \<and>
    w' = confirm_keys (core sh) (k_namespace K) (map redis_key (k_buf K (core sh))) w1 \<and>
    (out = Accepted \<longrightarrow> k_gate K (core sh') = None \<and> k_streak K (core sh') = 0)"
proof -
  let ?b = "k_buf K (core sh)"
  obtain c where f: "k_flush K ext (sh, w) =
      k_finish K out (map item ?b) (map redis_key ?b) (sh\<lparr>core := c, transport := t\<rparr>, w1)"
    and c: "k_buf K c = []" "k_dropped K c = k_dropped K (core sh)" "redis_handler c = redis_handler (core sh)"
    using flush_sent [OF open_gate ne send] by blast
  have keys: "confirm_keys c ns ks w' = confirm_keys (core sh) ns ks w'" for ns ks and w' :: "'st World"
    by (simp add: confirm_keys_def delete_live_def c(3))
  show ?thesis
    using finish_confirmed [OF ok, of "map item ?b" "map redis_key ?b" "sh\<lparr>core := c, transport := t\<rparr>" w1] f c
    by (auto simp: same_agent_def keys)
qed

end

section \<open>The two kinds of the agent\<close>

lemma event_pass_room:
  assumes "length (events (core sh)) < buffer_size (config sh)"
  shows "\<exists>sh' w' key. enqueue_event_pass ext x (sh, w) = EnqDone (Inr ()) (sh', w') \<and> same_agent sh sh' \<and>
        events (core sh') = events (core sh) @ [buffered (x, key)] \<and> events_dropped (core sh') = events_dropped (core sh) \<and>
        wire w' = wire w \<and> clock w' = clock w \<and> panicked w' = panicked w"
proof -
  obtain key c1 w1 where p: "persist_item ext NAMESPACE_EVENTS ''event'' (event_to_string ext x) (core sh) w = (key, c1, w1)"
    by (metis prod_cases3)
  obtain n where "c1 = (core sh)\<lparr>redis_persist_failures := n\<rparr>" using persist_item_frame(1) [OF p] by blast
  with persist_item_frame(2-5) [OF p] assms p show ?thesis
    by (auto simp: enqueue_event_pass_def Let_def same_agent_def buffered_def)
qed

lemma metric_pass_room:
  assumes "length (metrics (core sh)) < buffer_size (config sh)"
  shows "\<exists>sh' w' key. enqueue_metric_pass ext x (sh, w) = EnqDone (Inr ()) (sh', w') \<and> same_agent sh sh' \<and>
        metrics (core sh') = metrics (core sh) @ [buffered (x, key)] \<and> metrics_dropped (core sh') = metrics_dropped (core sh) \<and>
        wire w' = wire w \<and> clock w' = clock w \<and> panicked w' = panicked w"
proof -
  obtain key c1 w1 where p: "persist_item ext NAMESPACE_METRICS ''metric'' (metric_to_string ext x) (core sh) w = (key, c1, w1)"
    by (metis prod_cases3)
  obtain n where "c1 = (core sh)\<lparr>redis_persist_failures := n\<rparr>" using persist_item_frame(1) [OF p] by blast
  with persist_item_frame(2-5) [OF p] assms p show ?thesis
    by (auto simp: enqueue_metric_pass_def Let_def same_agent_def buffered_def)
qed

lemma finish_confirmed_events:
  "is_confirmed out \<Longrightarrow> \<exists>c'. finish_events out xs ks (sh, w) =
     (sh\<lparr>core := c'\<rparr>, confirm_keys (core sh) NAMESPACE_EVENTS ks w) \<and>
     events c' = events (core sh) \<and> events_dropped c' = events_dropped (core sh) \<and> redis_handler c' = redis_handler (core sh) \<and>
     (out = Accepted \<longrightarrow> events_retry_after c' = None \<and> events_failure_streak c' = 0)"
  by (intro exI [of _ "if out = Accepted then accept_events (length xs) (core sh) else core sh"], cases out)
     (simp_all add: finish_events_def accept_events_def)

lemma finish_confirmed_metrics:
  "is_confirmed out \<Longrightarrow> \<exists>c'. finish_metrics out xs ks (sh, w) =
     (sh\<lparr>core := c'\<rparr>, confirm_keys (core sh) NAMESPACE_METRICS ks w) \<and>
     metrics c' = metrics (core sh) \<and> metrics_dropped c' = metrics_dropped (core sh) \<and> redis_handler c' = redis_handler (core sh) \<and>
     (out = Accepted \<longrightarrow> metrics_retry_after c' = None \<and> metrics_failure_streak c' = 0)"
  by (intro exI [of _ "if out = Accepted then accept_metrics (length xs) (core sh) else core sh"], cases out)
     (simp_all add: finish_metrics_def accept_metrics_def)

interpretation ev: telemetry_kind event_ops
proof (unfold_locales, goal_cases)
  case 1 then show ?case using event_pass_room by (simp add: event_ops_def)
next
  case 9 then show ?case by (simp add: event_ops_def finish_confirmed_events)
qed (auto simp: event_ops_def enqueue_event_pass_def drain_events_def drain_def core_set_last_flush_def
       finish_events_def requeue_events_def fail_events_def bump_flush_failures_def flush_events_def same_agent_def
       Let_def case_prod_beta split: enq.splits)

interpretation mt: telemetry_kind metric_ops
proof (unfold_locales, goal_cases)
  case 1 then show ?case using metric_pass_room by (simp add: metric_ops_def)
next
  case 9 then show ?case by (simp add: metric_ops_def finish_confirmed_metrics)
qed (auto simp: metric_ops_def enqueue_metric_pass_def drain_metrics_def drain_def core_set_last_flush_def
       finish_metrics_def requeue_metrics_def fail_metrics_def bump_flush_failures_def flush_metrics_def same_agent_def
       Let_def case_prod_beta split: enq.splits)

end
