(* ===== verification/Agent_Ledger.thy ===== *)
theory Agent_Ledger
  imports Agent_Buffer
begin

text \<open>
  The agent under interleaving. The sources release the core mutex between the drain of a flush and
  its confirm-or-requeue, so several flushes and any number of producers interleave. \<open>ledger_step\<close> is
  the step relation of one kind of telemetry at that grain (one step per acquisition of the mutex),
  with the drained batches that are in flight as part of its state, and two ghost fields: what
  producers have handed over, and what confirmed flushes have settled. Every other step of the
  program leaves the buffer of this kind alone.
\<close>

record ('a, 'st) ledger =
  l_state :: "'st astate"
  l_flying :: "('a list \<times> string option list) list"
  l_taken :: "'a multiset"
  l_settled :: "'a multiset"

definition l_core :: "('a, 'st) ledger \<Rightarrow> 'st CoreState" where
  "l_core L = core (fst (l_state L))"

definition l_config :: "('a, 'st) ledger \<Rightarrow> AgentConfig" where
  "l_config L = config (fst (l_state L))"

inductive ledger_step :: "externals \<Rightarrow> ('a, 'st) kind_ops \<Rightarrow> ('a, 'st) ledger \<Rightarrow> ('a, 'st) ledger \<Rightarrow> bool"
  for ext K where
  accept: "k_pass K ext x (l_state L) = EnqDone (Inr ()) s' \<Longrightarrow>
     ledger_step ext K L (L\<lparr>l_state := s', l_taken := add_mset x (l_taken L)\<rparr>)"
| reject: "k_pass K ext x (l_state L) = EnqDone (Inl e) s' \<Longrightarrow> ledger_step ext K L (L\<lparr>l_state := s'\<rparr>)"
| evict: "k_pass K ext x (l_state L) = EnqRetry s' \<Longrightarrow> ledger_step ext K L (L\<lparr>l_state := s'\<rparr>)"
| wait: "k_pass K ext x (l_state L) = EnqWait s' \<Longrightarrow> ledger_step ext K L (L\<lparr>l_state := s'\<rparr>)"
| launch: "l_state L = (sh, w) \<Longrightarrow> \<not> gate_closed (clock w) (k_gate K (core sh)) \<Longrightarrow>
     k_drain K (core sh) = (xs, ks, c') \<Longrightarrow> xs \<noteq> [] \<Longrightarrow>
     ledger_step ext K L
       (L\<lparr>l_state := (sh\<lparr>core := core_set_last_flush ext w c'\<rparr>, w), l_flying := l_flying L @ [(xs, ks)]\<rparr>)"
| land: "l_flying L = before @ (xs, ks) # after \<Longrightarrow>
     ledger_step ext K L
       (L\<lparr>l_state := k_finish K out xs ks (l_state L), l_flying := before @ after,
          l_settled := (if is_confirmed out then mset xs + l_settled L else l_settled L)\<rparr>)"
| elsewhere: "config sh' = l_config L \<Longrightarrow> k_buf K (core sh') = k_buf K (l_core L) \<Longrightarrow>
     k_dropped K (core sh') = k_dropped K (l_core L) \<Longrightarrow> ledger_step ext K L (L\<lparr>l_state := (sh', w')\<rparr>)"

definition ledger_init :: "('a, 'st) kind_ops \<Rightarrow> 'st astate \<Rightarrow> ('a, 'st) ledger" where
  "ledger_init K s =
     \<lparr> l_state = s, l_flying = [], l_taken = mset (map item (k_buf K (core (fst s)))), l_settled = {#} \<rparr>"

inductive ledger_run :: "externals \<Rightarrow> ('a, 'st) kind_ops \<Rightarrow> 'st astate \<Rightarrow> ('a, 'st) ledger \<Rightarrow> bool"
  for ext K s0 where
  start: "ledger_run ext K s0 (ledger_init K s0)"
| step: "ledger_run ext K s0 L \<Longrightarrow> ledger_step ext K L L' \<Longrightarrow> ledger_run ext K s0 L'"

definition in_flight :: "('a, 'st) ledger \<Rightarrow> 'a multiset" where
  "in_flight L = mset (concat (map fst (l_flying L)))"

text \<open>The account: everything handed over is buffered, in flight, settled, or counted as dropped. A
  batch in flight carries one key per item.\<close>

definition ledger_inv :: "('a, 'st) kind_ops \<Rightarrow> u64 \<Rightarrow> ('a, 'st) ledger \<Rightarrow> bool" where
  "ledger_inv K d0 L \<longleftrightarrow> 0 < buffer_size (l_config L) \<and>
     length (k_buf K (l_core L)) \<le> buffer_size (l_config L) \<and>
     (\<forall>(xs, ks) \<in> set (l_flying L). length ks = length xs) \<and>
     (\<exists>lost. l_taken L = mset (map item (k_buf K (l_core L))) + in_flight L + l_settled L + lost \<and>
        k_dropped K (l_core L) = d0 + of_nat (size lost))"

lemma ledger_inv_init:
  assumes "0 < buffer_size (config (fst s))" "length (k_buf K (core (fst s))) \<le> buffer_size (config (fst s))"
  shows "ledger_inv K (k_dropped K (core (fst s))) (ledger_init K s)"
  using assms by (auto simp: ledger_inv_def ledger_init_def l_core_def l_config_def in_flight_def)

context telemetry_kind
begin

lemma pass_shape:
  assumes "0 < buffer_size (config sh)" "length (k_buf K (core sh)) \<le> buffer_size (config sh)"
  obtains (entered) sh1 w1 key where "k_pass K ext x (sh, w) = EnqDone (Inr ()) (sh1, w1)" "same_agent sh sh1"
      "length (k_buf K (core sh)) < buffer_size (config sh)"
      "k_buf K (core sh1) = k_buf K (core sh) @ [buffered (x, key)]" "k_dropped K (core sh1) = k_dropped K (core sh)"
    | (evicted) sh1 w1 old where "k_pass K ext x (sh, w) = EnqRetry (sh1, w1)" "same_agent sh sh1"
      "k_buf K (core sh) = old # k_buf K (core sh1)" "k_dropped K (core sh1) = k_dropped K (core sh) + 1"
    | (refused) e where "k_pass K ext x (sh, w) = EnqDone (Inl e) (sh, w)"
    | (waiting) "k_pass K ext x (sh, w) = EnqWait (sh, w)" "buffer_overflow_policy (config sh) = Block"
proof (cases "length (k_buf K (core sh)) < buffer_size (config sh)")
  case True
  then show thesis using pass_room [OF True, of ext x w] entered by blast
next
  case False
  show thesis
  proof (cases "buffer_overflow_policy (config sh)")
    case Drop
    then obtain old rest where "k_buf K (core sh) = old # rest" using assms(1) False by (cases "k_buf K (core sh)") auto
    then show thesis using pass_drop [OF False Drop, of old rest ext x w] evicted by auto
  next
    case Raise
    then show thesis using pass_raise [OF False Raise] refused by blast
  next
    case Block
    then show thesis using pass_block [OF False Block] waiting Block by blast
  qed
qed

lemma enqueue_done: "k_pass K ext x s = EnqDone r s' \<Longrightarrow> k_enqueue K ext other (Suc n) x s = Some (r, s')"
  by (simp add: enqueue_Suc)

lemma enqueue_retry: "k_pass K ext x s = EnqRetry s' \<Longrightarrow> k_enqueue K ext other (Suc n) x s = k_enqueue K ext other n x s'"
  by (simp add: enqueue_Suc)

text \<open>Without the block policy two passes of the enqueue loop are enough, and more make no difference.\<close>

lemma enqueue_two_passes:
  assumes "buffer_overflow_policy (config (fst s)) \<noteq> Block" "0 < buffer_size (config (fst s))"
    and "length (k_buf K (core (fst s))) \<le> buffer_size (config (fst s))" "2 \<le> n"
  shows "k_enqueue K ext other n x s = k_enqueue K ext other 2 x s \<and> k_enqueue K ext other 2 x s \<noteq> None"
proof -
  obtain m where n: "n = Suc (Suc m)" using assms(4) by (metis Suc_le_D Suc_le_mono numeral_2_eq_2)
  obtain sh w where s: "s = (sh, w)" by (cases s)
  note sizes = assms(2,3) [unfolded s fst_conv]
  show ?thesis unfolding n numeral_2_eq_2 s
  proof (rule pass_shape [OF sizes, of ext x w], goal_cases)
    case (1 sh1 w1 key)
    then show "k_enqueue K ext other (Suc (Suc m)) x (sh, w) = k_enqueue K ext other (Suc (Suc 0)) x (sh, w) \<and>
        k_enqueue K ext other (Suc (Suc 0)) x (sh, w) \<noteq> None" by (simp only: enqueue_done) simp
  next
    case (2 sh1 w1 old)
    then have "length (k_buf K (core sh1)) < buffer_size (config sh1)" using sizes by (simp add: same_agent_def)
    from pass_room [OF this, of ext x w1] obtain s2 where "k_pass K ext x (sh1, w1) = EnqDone (Inr ()) s2" by blast
    then show "k_enqueue K ext other (Suc (Suc m)) x (sh, w) = k_enqueue K ext other (Suc (Suc 0)) x (sh, w) \<and>
        k_enqueue K ext other (Suc (Suc 0)) x (sh, w) \<noteq> None"
      by (simp only: enqueue_retry [OF 2(1)] enqueue_done) simp
  next
    case (3 e)
    then show "k_enqueue K ext other (Suc (Suc m)) x (sh, w) = k_enqueue K ext other (Suc (Suc 0)) x (sh, w) \<and>
        k_enqueue K ext other (Suc (Suc 0)) x (sh, w) \<noteq> None" by (simp only: enqueue_done) simp
  next
    case 4
    then show "k_enqueue K ext other (Suc (Suc m)) x (sh, w) = k_enqueue K ext other (Suc (Suc 0)) x (sh, w) \<and>
        k_enqueue K ext other (Suc (Suc 0)) x (sh, w) \<noteq> None" using assms(1) s by simp
  qed
qed

lemma pass_cases:
  assumes "0 < buffer_size (config sh)" "length (k_buf K (core sh)) \<le> buffer_size (config sh)"
  shows "k_pass K ext x (sh, w) = EnqDone (Inr ()) (sh', w') \<Longrightarrow> same_agent sh sh' \<and>
      length (k_buf K (core sh)) < buffer_size (config sh) \<and>
      (\<exists>key. k_buf K (core sh') = k_buf K (core sh) @ [buffered (x, key)]) \<and> k_dropped K (core sh') = k_dropped K (core sh)"
    "k_pass K ext x (sh, w) = EnqRetry (sh', w') \<Longrightarrow> same_agent sh sh' \<and>
      (\<exists>old. k_buf K (core sh) = old # k_buf K (core sh')) \<and> k_dropped K (core sh') = k_dropped K (core sh) + 1"
    "k_pass K ext x (sh, w) = EnqDone (Inl e) (sh', w') \<Longrightarrow> sh' = sh"
    "k_pass K ext x (sh, w) = EnqWait (sh', w') \<Longrightarrow> sh' = sh"
proof -
  note c = pass_shape [OF assms, of ext x w]
  show "k_pass K ext x (sh, w) = EnqDone (Inr ()) (sh', w') \<Longrightarrow> same_agent sh sh' \<and>
      length (k_buf K (core sh)) < buffer_size (config sh) \<and>
      (\<exists>key. k_buf K (core sh') = k_buf K (core sh) @ [buffered (x, key)]) \<and> k_dropped K (core sh') = k_dropped K (core sh)"
    by (rule c) auto
  show "k_pass K ext x (sh, w) = EnqRetry (sh', w') \<Longrightarrow> same_agent sh sh' \<and>
      (\<exists>old. k_buf K (core sh) = old # k_buf K (core sh')) \<and> k_dropped K (core sh') = k_dropped K (core sh) + 1"
    by (rule c) auto
  show "k_pass K ext x (sh, w) = EnqDone (Inl e) (sh', w') \<Longrightarrow> sh' = sh"
    "k_pass K ext x (sh, w) = EnqWait (sh', w') \<Longrightarrow> sh' = sh"
    by (rule c; simp)+
qed

lemma land_failed:
  assumes "0 < buffer_size (config sh)" "length (k_buf K (core sh)) \<le> buffer_size (config sh)"
    and "k_finish K (Failed e) xs ks (sh, w) = (sh', w')"
  shows "config sh' = config sh"
    "k_buf K (core sh') = take (buffer_size (config sh)) (map buffered (zip xs ks) @ k_buf K (core sh))"
    "k_dropped K (core sh') = k_dropped K (core sh) +
       of_nat (length (drop (buffer_size (config sh)) (map buffered (zip xs ks) @ k_buf K (core sh))))"
proof -
  define all where "all = map buffered (zip xs ks) @ k_buf K (core sh)"
  have "requeue (k_buf K (core sh)) (buffer_size (config sh)) xs ks (k_dropped K (core sh)) =
    (take (buffer_size (config sh)) all, k_dropped K (core sh) + of_nat (length (drop (buffer_size (config sh)) all)),
     map redis_key (rev (drop (buffer_size (config sh)) all)))"
    unfolding all_def by (simp only: requeue_spec [OF assms(1,2)] Let_def)
  from finish_failed [OF this, of e w] assms(3) show "config sh' = config sh"
    "k_buf K (core sh') = take (buffer_size (config sh)) (map buffered (zip xs ks) @ k_buf K (core sh))"
    "k_dropped K (core sh') = k_dropped K (core sh) +
       of_nat (length (drop (buffer_size (config sh)) (map buffered (zip xs ks) @ k_buf K (core sh))))"
    unfolding all_def [symmetric] by auto
qed

lemma land_confirmed:
  assumes "is_confirmed out" "k_finish K out xs ks (sh, w) = (sh', w')"
  shows "config sh' = config sh" "k_buf K (core sh') = k_buf K (core sh)" "k_dropped K (core sh') = k_dropped K (core sh)"
  using finish_confirmed [OF assms(1), of xs ks sh w] assms(2) by auto

lemma ledger_inv_land:
  assumes inv: "ledger_inv K d0 L" and fl: "l_flying L = before @ (xs, ks) # after"
  shows "ledger_inv K d0 (L\<lparr>l_state := k_finish K out xs ks (l_state L), l_flying := before @ after,
          l_settled := (if is_confirmed out then mset xs + l_settled L else l_settled L)\<rparr>)"
proof -
  obtain sh w sh' w' where s: "l_state L = (sh, w)" and s': "k_finish K out xs ks (sh, w) = (sh', w')"
    by (metis prod.exhaust)
  have cap: "0 < buffer_size (config sh)" "length (k_buf K (core sh)) \<le> buffer_size (config sh)"
    and fly: "\<forall>(xs, ks) \<in> set (l_flying L). length ks = length xs"
    using inv by (simp_all add: ledger_inv_def l_core_def l_config_def s)
  obtain lost where lost: "l_taken L = mset (map item (k_buf K (core sh))) + in_flight L + l_settled L + lost"
      "k_dropped K (core sh) = d0 + of_nat (size lost)"
    using inv by (auto simp: ledger_inv_def l_core_def l_config_def s)
  show ?thesis
  proof (cases "is_confirmed out")
    case True
    then show ?thesis using land_confirmed [OF True s'] s s' lost cap fly fl
      by (auto simp: ledger_inv_def l_core_def l_config_def in_flight_def intro!: exI [of _ lost])
  next
    case False
    then obtain e where out: "out = Failed e" by (cases out) auto
    define all where "all = map buffered (zip xs ks) @ k_buf K (core sh)"
    let ?n = "buffer_size (config sh)"
    have len: "length ks = length xs" using fly fl by auto
    note land = land_failed [OF cap s' [unfolded out], folded all_def]
    have "map item (map buffered (zip xs ks)) = map fst (zip xs ks)" by (simp add: buffered_def)
    also have "\<dots> = xs" using len by simp
    finally have "mset (map item (k_buf K (core sh))) + mset xs = mset (map item all)" by (simp add: all_def)
    moreover have "mset (map item all) = mset (map item (take ?n all)) + mset (map item (drop ?n all))"
      by (metis append_take_drop_id map_append mset_append)
    ultimately show ?thesis using land s s' lost cap fly fl False
      by (auto simp: ledger_inv_def l_core_def l_config_def in_flight_def
          intro!: exI [of _ "mset (map item (drop ?n all)) + lost"])
  qed
qed

lemma ledger_inv_step:
  assumes "ledger_step ext K L L'" "ledger_inv K d0 L"
  shows "ledger_inv K d0 L'"
proof -
  obtain sh w where s: "l_state L = (sh, w)" by (cases "l_state L")
  have lc: "l_core L = core sh" "l_config L = config sh" by (simp_all add: l_core_def l_config_def s)
  have cap: "0 < buffer_size (config sh)" "length (k_buf K (core sh)) \<le> buffer_size (config sh)"
    and fly: "\<forall>(xs, ks) \<in> set (l_flying L). length ks = length xs"
    using assms(2) by (simp_all add: ledger_inv_def lc)
  obtain lost where lost: "l_taken L = mset (map item (k_buf K (core sh))) + in_flight L + l_settled L + lost"
      "k_dropped K (core sh) = d0 + of_nat (size lost)"
    using assms(2) by (auto simp: ledger_inv_def lc)
  show ?thesis using assms(1)
  proof cases
    case (accept x s')
    obtain sh' w' where s': "s' = (sh', w')" by (cases s')
    from pass_cases(1) [OF cap, of ext x w sh' w'] accept s s' lost cap fly show ?thesis
      by (auto simp: ledger_inv_def l_core_def l_config_def in_flight_def same_agent_def buffered_def intro!: exI [of _ lost])
  next
    case (reject x e s')
    obtain sh' w' where s': "s' = (sh', w')" by (cases s')
    from pass_cases(3) [OF cap, of ext x w e sh' w'] reject s s' lost cap fly show ?thesis
      by (auto simp: ledger_inv_def l_core_def l_config_def in_flight_def intro!: exI [of _ lost])
  next
    case (evict x s')
    obtain sh' w' where s': "s' = (sh', w')" by (cases s')
    obtain old where "k_buf K (core sh) = old # k_buf K (core sh')"
      using pass_cases(2) [OF cap, of ext x w sh' w'] evict s s' by auto
    with pass_cases(2) [OF cap, of ext x w sh' w'] evict s s' lost cap fly show ?thesis
      by (auto simp: ledger_inv_def l_core_def l_config_def in_flight_def same_agent_def
          intro!: exI [of _ "add_mset (item old) lost"])
  next
    case (wait x s')
    obtain sh' w' where s': "s' = (sh', w')" by (cases s')
    from pass_cases(4) [OF cap, of ext x w sh' w'] wait s s' lost cap fly show ?thesis
      by (auto simp: ledger_inv_def l_core_def l_config_def in_flight_def intro!: exI [of _ lost])
  next
    case (launch sh1 w1 xs ks c')
    with drain_law [OF launch(4)] s lost cap fly show ?thesis
      by (auto simp: ledger_inv_def l_core_def l_config_def in_flight_def stamp_law intro!: exI [of _ lost])
  next
    case (land before xs ks after out)
    then show ?thesis using ledger_inv_land [OF assms(2) land(2), of out] by simp
  next
    case (elsewhere sh' w')
    then show ?thesis using s lost cap fly lc
      by (auto simp: ledger_inv_def l_core_def l_config_def in_flight_def intro!: exI [of _ lost])
  qed
qed

lemma ledger_run_inv:
  assumes "ledger_run ext K s0 L" "0 < buffer_size (config (fst s0))"
    "length (k_buf K (core (fst s0))) \<le> buffer_size (config (fst s0))"
  shows "ledger_inv K (k_dropped K (core (fst s0))) L"
  using assms(1) by induction (use ledger_inv_init [OF assms(2,3)] ledger_inv_step in blast)+

end

end
