(* ===== verification/Install_Id.thy ===== *)
theory Install_Id
  imports Prelude
begin

text \<open>
  Install identifier resolution, \<^verbatim>\<open>src/src/install_id.rs\<close>. A path is its list of components. The
  operating system's file system is a record of the three operations the sources perform on it,
  over a state of its own; the fresh UUID and the home directory are arguments.
\<close>

datatype IoError = IoNotFound | IoOther string

type_synonym path = "string list"

record 'fs FileSystem =
  read_to_string :: "path \<Rightarrow> 'fs \<Rightarrow> IoError + string"
  create_dir_all :: "path \<Rightarrow> 'fs \<Rightarrow> (IoError + unit) \<times> 'fs"
  write_file :: "path \<Rightarrow> string \<Rightarrow> 'fs \<Rightarrow> (IoError + unit) \<times> 'fs"

definition path_parent :: "path \<Rightarrow> path option" where
  "path_parent p = (if p = [] then None else Some (butlast p))"

definition default_install_id_path :: "path option \<Rightarrow> path option" where
  "default_install_id_path home_dir = map_option (\<lambda>home. home @ [''.guard-agent'', ''install-id'']) home_dir"

definition persist_install_id ::
  "'fs FileSystem \<Rightarrow> path \<Rightarrow> string \<Rightarrow> 'fs \<Rightarrow> (IoError + unit) \<times> 'fs" where
  "persist_install_id os path install_id fs =
     (case path_parent path of
        None \<Rightarrow> write_file os path install_id fs
      | Some parent \<Rightarrow>
          (case create_dir_all os parent fs of
             (Inl e, fs') \<Rightarrow> (Inl e, fs')
           | (Inr _, fs') \<Rightarrow> write_file os path install_id fs'))"

definition resolve_install_id_from ::
  "'fs FileSystem \<Rightarrow> path \<Rightarrow> string option \<Rightarrow> Uuid \<Rightarrow> 'fs \<Rightarrow> string \<times> 'fs" where
  "resolve_install_id_from os path override_id fresh fs =
     (let override_trimmed = (case override_id of
            None \<Rightarrow> None
          | Some i \<Rightarrow> if trim i = [] then None else Some (trim i))
      in case override_trimmed of
           Some i \<Rightarrow> (i, fs)
         | None \<Rightarrow>
             (case read_to_string os path fs of
                Inr cached \<Rightarrow>
                  (if trim cached \<noteq> [] then (trim cached, fs)
                   else (fresh, snd (persist_install_id os path fresh fs)))
              | Inl IoNotFound \<Rightarrow> (fresh, snd (persist_install_id os path fresh fs))
              | Inl (IoOther _) \<Rightarrow> (fresh, fs)))"

definition resolve_install_id ::
  "'fs FileSystem \<Rightarrow> path option \<Rightarrow> string option \<Rightarrow> Uuid \<Rightarrow> 'fs \<Rightarrow> string \<times> 'fs" where
  "resolve_install_id os home_dir override_id fresh fs =
     (case default_install_id_path home_dir of
        None \<Rightarrow> (fresh, fs)
      | Some path \<Rightarrow> resolve_install_id_from os path override_id fresh fs)"

section \<open>Properties\<close>

lemma resolve_override:
  "trim i \<noteq> [] \<Longrightarrow> resolve_install_id_from os path (Some i) fresh fs = (trim i, fs)"
  by (simp add: resolve_install_id_from_def)

lemma resolve_cached:
  "read_to_string os path fs = Inr s \<Longrightarrow> trim s \<noteq> [] \<Longrightarrow>
   resolve_install_id_from os path None fresh fs = (trim s, fs)"
  by (simp add: resolve_install_id_from_def)

end
