(* ===== verification/Agent_Lifecycle.thy ===== *)
theory Agent_Lifecycle
  imports Agent_Flush Install_Id
begin

text \<open>
  The rest of \<^verbatim>\<open>src/src/agent.rs\<close>: construction, attaching a store and reloading from it, status,
  health and statistics, the dynamic-rules cache, the bodies of the three background loops, and
  start and stop. A background loop is its body run once per tick; the tick that finds the agent
  stopped leaves the loop.
\<close>

definition DEGRADED_BUFFER_RATIO :: f64 where "DEGRADED_BUFFER_RATIO = round64 (9 / 10)"
definition HEALTH_BUFFER_RATIO :: f64 where "HEALTH_BUFFER_RATIO = round64 (95 / 100)"
definition DEGRADED_FAILURE_RATE :: f64 where "DEGRADED_FAILURE_RATE = round64 (1 / 10)"
definition HEALTH_FAILURE_RATE_MAX :: f64 where "HEALTH_FAILURE_RATE_MAX = round64 (1 / 2)"
definition STATUS_LOG_ERROR_THRESHOLD :: u32 where [const_defs]: "STATUS_LOG_ERROR_THRESHOLD = 3"

section \<open>Construction\<close>

definition agent_new ::
  "externals \<Rightarrow> 'fs FileSystem \<Rightarrow> path option \<Rightarrow> AgentConfig \<Rightarrow> 'fs \<Rightarrow> 'st World \<Rightarrow>
   (GuardAgentError + 'st Shared) \<times> 'fs \<times> 'st World" where
  "agent_new ext fso home_dir cfg fs w =
     (case validate cfg of
        (Inl e, _) \<Rightarrow> (Inl (Config e), fs, w)
      | (Inr _, c) \<Rightarrow>
          (let (fresh, w1) = draw_uuid ext w;
               (iid, fs1) = resolve_install_id fso home_dir (install_id_override c) fresh fs;
               (nonce, w2) = draw_nonce ext w1
           in case transport_new ext c iid nonce of
                Inl e \<Rightarrow> (Inl e, fs1, w2)
              | Inr t \<Rightarrow>
                  (Inr \<lparr> config = c, sh_install_id = iid, transport = t,
                         redactor = redactor_new (sensitive_headers c), core = core_new,
                         flush_permits = max (max_concurrent_flushes c) 1, inflight = 0,
                         started_at = clock w2, running = False \<rparr>, fs1, w2)))"

definition install_id :: "'st Shared \<Rightarrow> string" where
  "install_id sh = sh_install_id sh"

definition attach_redis_handler :: "'st RedisHandler \<Rightarrow> 'st Shared \<Rightarrow> 'st Shared" where
  "attach_redis_handler handler sh = sh\<lparr>core := (core sh)\<lparr>redis_handler := Some handler\<rparr>\<rparr>"

section \<open>Reloading persisted records\<close>

definition reload_event_key ::
  "externals \<Rightarrow> AgentConfig \<Rightarrow> 'st RedisHandler \<Rightarrow> string \<Rightarrow> 'st CoreState \<times> 'st World \<Rightarrow> 'st CoreState \<times> 'st World" where
  "reload_event_key ext cfg handler key s =
     (let (c, w) = s; (r, st1) = get_key handler NAMESPACE_EVENTS key (clock w) (store w);
          w1 = w\<lparr>store := st1\<rparr>;
          loaded = (case r of
                      Inr (Some value) \<Rightarrow> (case event_from_str ext value of Inr e \<Rightarrow> Some e | Inl _ \<Rightarrow> None)
                    | Inr None \<Rightarrow> None
                    | Inl _ \<Rightarrow> None)
      in case loaded of
           None \<Rightarrow> (c, w1)
         | Some event \<Rightarrow>
             (let (c1, w2) = (if buffer_size cfg \<le> length (events c) \<and> events c \<noteq> []
                              then (let c' = c\<lparr>events := tl (events c), events_dropped := events_dropped c + 1\<rparr>
                                    in (c', forget_key c' NAMESPACE_EVENTS (redis_key (hd (events c))) w1))
                              else (c, w1))
              in (c1\<lparr>events := events c1 @ [\<lparr> item = event, redis_key = Some key \<rparr>]\<rparr>, w2)))"

definition reload_metric_key ::
  "externals \<Rightarrow> AgentConfig \<Rightarrow> 'st RedisHandler \<Rightarrow> string \<Rightarrow> 'st CoreState \<times> 'st World \<Rightarrow> 'st CoreState \<times> 'st World" where
  "reload_metric_key ext cfg handler key s =
     (let (c, w) = s; (r, st1) = get_key handler NAMESPACE_METRICS key (clock w) (store w);
          w1 = w\<lparr>store := st1\<rparr>;
          loaded = (case r of
                      Inr (Some value) \<Rightarrow> (case metric_from_str ext value of Inr e \<Rightarrow> Some e | Inl _ \<Rightarrow> None)
                    | Inr None \<Rightarrow> None
                    | Inl _ \<Rightarrow> None)
      in case loaded of
           None \<Rightarrow> (c, w1)
         | Some metric \<Rightarrow>
             (let (c1, w2) = (if buffer_size cfg \<le> length (metrics c) \<and> metrics c \<noteq> []
                              then (let c' = c\<lparr>metrics := tl (metrics c), metrics_dropped := metrics_dropped c + 1\<rparr>
                                    in (c', forget_key c' NAMESPACE_METRICS (redis_key (hd (metrics c))) w1))
                              else (c, w1))
              in (c1\<lparr>metrics := metrics c1 @ [\<lparr> item = metric, redis_key = Some key \<rparr>]\<rparr>, w2)))"

definition reload_events ::
  "externals \<Rightarrow> AgentConfig \<Rightarrow> 'st RedisHandler \<Rightarrow> 'st CoreState \<times> 'st World \<Rightarrow> 'st CoreState \<times> 'st World" where
  "reload_events ext cfg handler s =
     (let (c, w) = s
      in case list_keys handler NAMESPACE_EVENTS (clock w) (store w) of
           (Inr keys, st1) \<Rightarrow> fold (reload_event_key ext cfg handler) keys (c, w\<lparr>store := st1\<rparr>)
         | (Inl _, st1) \<Rightarrow> (c, w\<lparr>store := st1\<rparr>))"

definition reload_metrics ::
  "externals \<Rightarrow> AgentConfig \<Rightarrow> 'st RedisHandler \<Rightarrow> 'st CoreState \<times> 'st World \<Rightarrow> 'st CoreState \<times> 'st World" where
  "reload_metrics ext cfg handler s =
     (let (c, w) = s
      in case list_keys handler NAMESPACE_METRICS (clock w) (store w) of
           (Inr keys, st1) \<Rightarrow> fold (reload_metric_key ext cfg handler) keys (c, w\<lparr>store := st1\<rparr>)
         | (Inl _, st1) \<Rightarrow> (c, w\<lparr>store := st1\<rparr>))"

definition reload_from_redis :: "externals \<Rightarrow> 'st astate \<Rightarrow> 'st astate" where
  "reload_from_redis ext s =
     (let (sh, w) = s
      in case redis_handler (core sh) of
           None \<Rightarrow> s
         | Some handler \<Rightarrow>
             (let (c, w1) = reload_metrics ext (config sh) handler
                              (reload_events ext (config sh) handler (core sh, w))
              in (sh\<lparr>core := c\<rparr>, w1)))"

section \<open>Status, health and statistics\<close>

definition failure_rate :: "'st CoreState \<Rightarrow> f64" where
  "failure_rate c =
     (let sum = events_sent c + metrics_sent c + events_failed c + metrics_failed c;
          failed = events_failed c + metrics_failed c
      in f64_div (f64_of_nat (unat failed)) (f64_of_nat (unat (max sum 1))))"

definition buffered_count :: "'st CoreState \<Rightarrow> nat" where
  "buffered_count c = length (events c) + length (metrics c)"

definition compute_status :: "externals \<Rightarrow> 'st astate \<Rightarrow> AgentStatus" where
  "compute_status ext s =
     (let (sh, w) = s; c = core sh; cfg = config sh;
          open_err = (if transport_breaker_state (clock w) (transport sh) = Open
                      then [''Transport circuit breaker is open''] else []);
          full_err = (if f64_le (f64_mul (f64_of_nat (buffer_size cfg)) DEGRADED_BUFFER_RATIO)
                           (f64_of_nat (buffered_count c))
                      then [''Buffer nearly full''] else []);
          rate = failure_rate c;
          rate_err = (if f64_lt DEGRADED_FAILURE_RATE rate
                      then [''High failure rate: '' @ show_fixed1 (f64_mul rate (Fin 100)) @ ''%''] else []);
          errors = open_err @ full_err @ rate_err
      in \<lparr> st_timestamp = utc_now ext w, st_status = (if errors = [] then Healthy else Degraded),
           st_uptime = as_secs_f64 (duration_since (clock w) (started_at sh)),
           st_events_sent = events_sent c, st_events_failed = events_failed c,
           st_buffer_size = of_nat (buffered_count c), st_last_flush = last_flush c,
           st_errors = errors \<rparr>)"

definition get_status :: "externals \<Rightarrow> 'st astate \<Rightarrow> AgentStatus" where
  "get_status ext s = compute_status ext s"

definition health_check :: "'st astate \<Rightarrow> bool" where
  "health_check s =
     (let (sh, w) = s; c = core sh
      in if \<not> running sh then False
         else if transport_breaker_state (clock w) (transport sh) = Open then False
         else if f64_le (f64_mul (f64_of_nat (buffer_size (config sh))) HEALTH_BUFFER_RATIO)
                   (f64_of_nat (buffered_count c)) then False
         else f64_le (failure_rate c) HEALTH_FAILURE_RATE_MAX)"

record AgentStats =
  as_running :: bool
  as_uptime_seconds :: f64
  as_events_sent :: u64
  as_events_failed :: u64
  as_metrics_sent :: u64
  as_metrics_failed :: u64
  as_events_flushed :: u64
  as_metrics_flushed :: u64
  as_events_dropped :: u64
  as_metrics_dropped :: u64
  as_events_buffered :: nat
  as_metrics_buffered :: nat
  as_requests_sent :: u64
  as_requests_failed :: u64
  as_bytes_sent :: u64
  as_circuit_breaker_state :: CircuitBreakerState
  as_loop_failures :: LoopFailures
  as_redis_persist_failures :: u64
  as_durability_degraded :: bool
  as_last_flush :: "DateTime option"
  as_status_consecutive_failures :: u32
  as_last_status_push_ok :: "bool option"
  as_rules_fetched :: u64
  as_cached_rules :: bool
  as_rules_last_update :: f64

definition unix_now :: "externals \<Rightarrow> 'st World \<Rightarrow> f64" where
  "unix_now ext w = as_secs_f64 (nat (system_time ext (clock w)))"

definition get_stats :: "externals \<Rightarrow> 'st astate \<Rightarrow> AgentStats" where
  "get_stats ext s =
     (let (sh, w) = s; c = core sh; (rs, rf, bs) = counters (transport sh)
      in \<lparr> as_running = running sh,
           as_uptime_seconds = as_secs_f64 (duration_since (clock w) (started_at sh)),
           as_events_sent = events_sent c, as_events_failed = events_failed c,
           as_metrics_sent = metrics_sent c, as_metrics_failed = metrics_failed c,
           as_events_flushed = events_flushed c, as_metrics_flushed = metrics_flushed c,
           as_events_dropped = events_dropped c, as_metrics_dropped = metrics_dropped c,
           as_events_buffered = length (events c), as_metrics_buffered = length (metrics c),
           as_requests_sent = rs, as_requests_failed = rf, as_bytes_sent = bs,
           as_circuit_breaker_state = transport_breaker_state (clock w) (transport sh),
           as_loop_failures = loop_failures c, as_redis_persist_failures = redis_persist_failures c,
           as_durability_degraded = (redis_handler c \<noteq> None \<and> redis_persist_failures c > 0),
           as_last_flush = last_flush c,
           as_status_consecutive_failures = status_consecutive_failures c,
           as_last_status_push_ok = last_status_push_ok c, as_rules_fetched = rules_fetched c,
           as_cached_rules = (cached_rules c \<noteq> None),
           as_rules_last_update =
             (case rules_last_update c of
                None \<Rightarrow> Fin 0
              | Some i \<Rightarrow> f64_sub (unix_now ext w) (as_secs_f64 (duration_since (clock w) i))) \<rparr>)"

section \<open>Status push\<close>

definition note_status_push :: "SendOutcome \<Rightarrow> 'st CoreState \<Rightarrow> 'st CoreState" where
  "note_status_push outcome c =
     (case outcome of
        Failed _ \<Rightarrow>
          c\<lparr>status_consecutive_failures := saturating_add (status_consecutive_failures c) 1,
            loop_failures := (loop_failures c)\<lparr>lf_status := saturating_add (lf_status (loop_failures c)) 1\<rparr>,
            last_status_push_ok := Some False\<rparr>
      | _ \<Rightarrow>
          c\<lparr>status_consecutive_failures := 0, loop_failures := (loop_failures c)\<lparr>lf_status := 0\<rparr>,
            last_status_push_ok := Some True\<rparr>)"

definition push_status_once :: "externals \<Rightarrow> 'st astate \<Rightarrow> 'st astate" where
  "push_status_once ext s =
     (let (sh, w) = s; status = compute_status ext s;
          (outcome, t, w1) = send_status ext status (transport sh, w)
      in (sh\<lparr>transport := t, core := note_status_push outcome (core sh)\<rparr>, w1))"

definition push_status :: "externals \<Rightarrow> 'st astate \<Rightarrow> 'st astate" where
  "push_status ext s = push_status_once ext s"

section \<open>Dynamic rules\<close>

definition rules_fresh :: "Instant \<Rightarrow> 'st CoreState \<Rightarrow> bool" where
  "rules_fresh now c =
     (let ttl = (case cached_rules c of None \<Rightarrow> 0 | Some rules \<Rightarrow> unat (dr_ttl rules))
      in case rules_last_update c of
           None \<Rightarrow> False
         | Some prev \<Rightarrow> duration_since now prev < from_secs ttl)"

definition cached_copy :: "Instant \<Rightarrow> 'st CoreState \<Rightarrow> DynamicRules option" where
  "cached_copy now c = (if rules_fresh now c then cached_rules c else None)"

definition store_rules :: "Instant \<Rightarrow> DynamicRules \<Rightarrow> 'st CoreState \<Rightarrow> 'st CoreState" where
  "store_rules now rules c =
     c\<lparr>cached_rules := Some rules, rules_last_update := Some now, rules_fetched := rules_fetched c + 1\<rparr>"

definition fetch_dynamic_rules_once :: "externals \<Rightarrow> 'st astate \<Rightarrow> DynamicRules option \<times> 'st astate" where
  "fetch_dynamic_rules_once ext s =
     (let (sh, w) = s
      in case cached_copy (clock w) (core sh) of
           Some rules \<Rightarrow> (Some rules, s)
         | None \<Rightarrow>
             (let (fetched, t, w1) = fetch_rules ext (transport sh, w); sh1 = sh\<lparr>transport := t\<rparr>
              in case fetched of
                   None \<Rightarrow> (None, (sh1, w1))
                 | Some rules \<Rightarrow> (Some rules, (sh1\<lparr>core := store_rules (clock w1) rules (core sh1)\<rparr>, w1))))"

definition get_dynamic_rules :: "externals \<Rightarrow> 'st astate \<Rightarrow> DynamicRules option \<times> 'st astate" where
  "get_dynamic_rules ext s = fetch_dynamic_rules_once ext s"

section \<open>The background loops\<close>

definition note_rules_poll :: "DynamicRules option \<Rightarrow> 'st CoreState \<Rightarrow> 'st CoreState" where
  "note_rules_poll outcome c =
     c\<lparr>loop_failures := (loop_failures c)\<lparr>lf_rules :=
         (if outcome \<noteq> None then 0 else saturating_add (lf_rules (loop_failures c)) 1)\<rparr>\<rparr>"

text \<open>One tick of each loop: \<^const>\<open>None\<close> leaves the loop. The flush loop awaits the spawned flush before
  the next tick and counts its panic.\<close>

definition flush_tick :: "externals \<Rightarrow> 'st astate \<Rightarrow> 'st astate option" where
  "flush_tick ext s =
     (let (sh, w) = s; s1 = (sh, sleep_for ext (from_secs (flush_interval (config sh))) w)
      in if \<not> running sh then None
         else if flush_permits sh = 0 then Some s1
         else let (sh2, w2) = with_permit (flush_if_needed ext) s1
              in Some (if panicked w2 then (sh2\<lparr>core := bump_flush_failures (core sh2)\<rparr>, w2) else (sh2, w2)))"

definition status_tick :: "externals \<Rightarrow> 'st astate \<Rightarrow> 'st astate option" where
  "status_tick ext s =
     (let (sh, w) = s; s1 = (sh, sleep_for ext (from_secs (status_interval (config sh))) w)
      in if \<not> running sh then None else Some (push_status_once ext s1))"

definition rules_tick :: "externals \<Rightarrow> 'st astate \<Rightarrow> 'st astate option" where
  "rules_tick ext s =
     (let (sh, w) = s; s1 = (sh, sleep_for ext (from_secs (dynamic_rule_interval (config sh))) w)
      in if \<not> running sh then None
         else let (outcome, sh2, w2) = fetch_dynamic_rules_once ext s1
              in Some (sh2\<lparr>core := note_rules_poll outcome (core sh2)\<rparr>, w2))"

section \<open>Start and stop\<close>

text \<open>\<open>loops\<close> tells whether the three loop tasks exist; \<open>connect\<close> is the built-in Redis backend.\<close>

record 'st GuardAgent =
  shared :: "'st Shared"
  loops :: bool

definition start ::
  "externals \<Rightarrow> (RedisConfig \<Rightarrow> GuardAgentError + 'st RedisHandler) \<Rightarrow> 'st GuardAgent \<Rightarrow> 'st World \<Rightarrow>
   'st GuardAgent \<times> 'st World" where
  "start ext connect a w =
     (let sh = shared a
      in if running sh then (a, w)
         else let sh1 = sh\<lparr>running := True\<rparr>;
                  sh2 = (case redis (config sh1) of
                           None \<Rightarrow> sh1
                         | Some rc \<Rightarrow>
                             (case connect rc of
                                Inr handler \<Rightarrow> attach_redis_handler handler sh1
                              | Inl _ \<Rightarrow> sh1));
                  (sh3, w1) = reload_from_redis ext (sh2, w)
              in (a\<lparr>shared := sh3, loops := True\<rparr>, w1))"

text \<open>Waiting for the spawned flushes: the list is taken over first, so a flush that ends during the
  wait no longer finds itself in it. \<open>other\<close> is what the rest of the program does until the awaited
  tasks have ended or their grace period is over.\<close>

definition await_inflight :: "('st astate \<Rightarrow> 'st astate) \<Rightarrow> 'st astate \<Rightarrow> 'st astate" where
  "await_inflight other s =
     (let (sh, w) = s in if inflight sh = 0 then s else other (sh\<lparr>inflight := 0\<rparr>, w))"

definition stop ::
  "externals \<Rightarrow> ('st astate \<Rightarrow> 'st astate) \<Rightarrow> 'st GuardAgent \<Rightarrow> 'st World \<Rightarrow> 'st GuardAgent \<times> 'st World" where
  "stop ext other a w =
     (let s1 = ((shared a)\<lparr>running := False\<rparr>, w);
          s2 = (if loops a then other s1 else s1);
          (sh3, w3) = flush_buffer ext other (await_inflight other s2)
      in (a\<lparr>shared := sh3, loops := False\<rparr>, w3))"

end
