(* ===== verification/Agent_Durability.thy ===== *)
theory Agent_Durability
  imports Agent_Ledger Agent_Lifecycle
begin

text \<open>
  Durability of buffered events. The locale \<open>agent_store\<close> adds to the contract of a durable store that
  the agent's two namespaces are usable in it; in it, enqueueing writes a record that readers see until
  its lifetime ends, and a reload brings every readable record back into the buffer. It is interpreted
  for the in-memory store of the repository here and for the Redis client in \<open>Redis_Client\<close>.
\<close>

locale agent_store = durable_store +
  assumes events_ns: "ns_ok NAMESPACE_EVENTS"
    and metrics_ns: "ns_ok NAMESPACE_METRICS"

definition option_list :: "'a option \<Rightarrow> 'a list" where
  "option_list x = (case x of None \<Rightarrow> [] | Some y \<Rightarrow> [y])"

text \<open>The buffer entry a stored record stands for; a missing or unreadable record stands for none.\<close>

definition loaded_item :: "(string \<Rightarrow> string + 'a) \<Rightarrow> string option \<Rightarrow> string \<Rightarrow> 'a BufferedItem option" where
  "loaded_item parse value key =
     (case value of
        None \<Rightarrow> None
      | Some v \<Rightarrow> (case parse v of
                     Inr e \<Rightarrow> Some \<lparr> item = e, redis_key = Some key \<rparr>
                   | Inl _ \<Rightarrow> None))"

text \<open>The records alive at a time fit a buffer that holds \<open>n\<close> entries already.\<close>

definition records_fit ::
  "(Instant \<Rightarrow> 'st \<Rightarrow> string \<Rightarrow> string \<Rightarrow> string option) \<Rightarrow> nat \<Rightarrow> Instant \<Rightarrow> 'st \<Rightarrow> string \<Rightarrow> nat \<Rightarrow> bool" where
  "records_fit live n t st ns cap \<longleftrightarrow> finite {k. live t st ns k \<noteq> None} \<and> n + card {k. live t st ns k \<noteq> None} \<le> cap"

context agent_store
begin

section \<open>Writing\<close>

lemma persist_record:
  assumes "redis_handler c = Some h" "st_inv (store w)" "ns_ok ns"
    and "persist_item ext ns pre (Inr v) c w = (key, c', w')"
  shows "\<exists>k. key = Some k \<and> st_inv (store w') \<and> c' = c \<and> clock w' = clock w \<and>
    (\<forall>t n k'. ns_ok n \<longrightarrow> live t (store w') n k' =
       (if n = ns \<and> k' = k then (if t < clock w + from_secs PERSIST_TTL_SECONDS then Some v else None)
        else live t (store w) n k'))"
proof -
  define k where "k = generate_short_key (system_time ext (clock w)) (uuid_draw ext (draws w)) pre"
  obtain st' where st': "set_key h ns k v PERSIST_TTL_SECONDS (clock w) (store w) = (Inr (), st')" "st_inv st'"
      "\<And>t n k'. ns_ok n \<Longrightarrow> live t st' n k' =
        (if n = ns \<and> k' = k then (if t < clock w + from_secs PERSIST_TTL_SECONDS then Some v else None)
         else live t (store w) n k')"
    using set_key_law [OF assms(2,3), of PERSIST_TTL_SECONDS k v "clock w"]
    by (auto simp: PERSIST_TTL_SECONDS_def)
  with assms show ?thesis by (auto simp: persist_item_def draw_uuid_def Let_def k_def)
qed

text \<open>A successful pass of the enqueue loop has written the record.\<close>

lemma event_pass_persists:
  assumes "redis_handler (core sh) = Some h" "st_inv (store w)" "event_to_string ext x = Inr v"
    and "enqueue_event_pass ext x (sh, w) = EnqDone (Inr ()) (sh', w')"
  shows "\<exists>k. st_inv (store w') \<and> clock w' = clock w \<and> redis_handler (core sh') = Some h \<and>
    (\<forall>t n k'. ns_ok n \<longrightarrow> live t (store w') n k' =
       (if n = NAMESPACE_EVENTS \<and> k' = k then (if t < clock w + from_secs PERSIST_TTL_SECONDS then Some v else None)
        else live t (store w) n k'))"
proof -
  obtain key c1 w1 where p: "persist_item ext NAMESPACE_EVENTS ''event'' (event_to_string ext x) (core sh) w = (key, c1, w1)"
    by (metis prod_cases3)
  note written = persist_record [OF assms(1,2) events_ns p [unfolded assms(3)]]
  then have c1: "c1 = core sh" by blast
  have room: "length (events (core sh)) < buffer_size (config sh)"
    using assms(4) by (rule contrapos_pp)
      (auto simp: enqueue_event_pass_def Let_def split: BufferOverflowPolicy.splits list.splits)
  then have "w' = w1" "redis_handler (core sh') = Some h"
    using assms(1,4) p c1 by (auto simp: enqueue_event_pass_def Let_def spawn_gated_flush_def)
  then show ?thesis using written by auto
qed

lemma metric_pass_persists:
  assumes "redis_handler (core sh) = Some h" "st_inv (store w)" "metric_to_string ext m = Inr v"
    and "enqueue_metric_pass ext m (sh, w) = EnqDone (Inr ()) (sh', w')"
  shows "\<exists>k. st_inv (store w') \<and> clock w' = clock w \<and> redis_handler (core sh') = Some h \<and>
    (\<forall>t n k'. ns_ok n \<longrightarrow> live t (store w') n k' =
       (if n = NAMESPACE_METRICS \<and> k' = k then (if t < clock w + from_secs PERSIST_TTL_SECONDS then Some v else None)
        else live t (store w) n k'))"
proof -
  obtain key c1 w1 where p: "persist_item ext NAMESPACE_METRICS ''metric'' (metric_to_string ext m) (core sh) w = (key, c1, w1)"
    by (metis prod_cases3)
  note written = persist_record [OF assms(1,2) metrics_ns p [unfolded assms(3)]]
  then have c1: "c1 = core sh" by blast
  have room: "length (metrics (core sh)) < buffer_size (config sh)"
    using assms(4) by (rule contrapos_pp)
      (auto simp: enqueue_metric_pass_def Let_def split: BufferOverflowPolicy.splits list.splits)
  then have "w' = w1" "redis_handler (core sh') = Some h"
    using assms(1,4) p c1 by (auto simp: enqueue_metric_pass_def Let_def spawn_gated_flush_def)
  then show ?thesis using written by auto
qed

lemma records_fit_single:
  assumes "\<And>k'. live t st ns k' \<noteq> None \<Longrightarrow> k' = k" and "n < cap"
  shows "records_fit live n t st ns cap"
proof -
  have sub: "{k'. live t st ns k' \<noteq> None} \<subseteq> {k}" using assms(1) by blast
  have "finite {k'. live t st ns k' \<noteq> None}" using finite_subset [OF sub] by simp
  moreover have "card {k'. live t st ns k' \<noteq> None} \<le> 1" using card_mono [OF _ sub] by simp
  ultimately show ?thesis using assms(2) by (simp add: records_fit_def)
qed

text \<open>The first two records of an empty store.\<close>

lemma first_records_fit:
  assumes "redis_handler (core sh) = Some h" "st_inv (store w)" "event_to_string ext x = Inr v" "metric_to_string ext m = Inr u"
    and "enqueue_event_pass ext x (sh, w) = EnqDone (Inr ()) (sh1, w1)" "enqueue_metric_pass ext m (sh1, w1) = EnqDone (Inr ()) (sh2, w2)"
    and empty: "\<And>n k. live (clock w) (store w) n k = None" and "0 < cap"
  shows "clock w2 = clock w \<and> records_fit live 0 (clock w) (store w2) NAMESPACE_EVENTS cap \<and>
         records_fit live 0 (clock w) (store w2) NAMESPACE_METRICS cap"
proof -
  obtain k where k: "st_inv (store w1)" "clock w1 = clock w" "redis_handler (core sh1) = Some h"
      "\<forall>t n k'. ns_ok n \<longrightarrow> live t (store w1) n k' =
         (if n = NAMESPACE_EVENTS \<and> k' = k then (if t < clock w + from_secs PERSIST_TTL_SECONDS then Some v else None)
          else live t (store w) n k')"
    using event_pass_persists [OF assms(1,2,3,5)] by blast
  obtain j where j: "clock w2 = clock w1"
      "\<forall>t n k'. ns_ok n \<longrightarrow> live t (store w2) n k' =
         (if n = NAMESPACE_METRICS \<and> k' = j then (if t < clock w1 + from_secs PERSIST_TTL_SECONDS then Some u else None)
          else live t (store w1) n k')"
    using metric_pass_persists [OF k(3,1) assms(4,6)] by blast
  have ne: "NAMESPACE_EVENTS \<noteq> NAMESPACE_METRICS" by (simp add: NAMESPACE_EVENTS_def NAMESPACE_METRICS_def)
  have e: "k' = k" if "live (clock w) (store w2) NAMESPACE_EVENTS k' \<noteq> None" for k'
    using that j(2) [rule_format, OF events_ns] k(4) [rule_format, OF events_ns] empty ne by metis
  have m: "k' = j" if "live (clock w) (store w2) NAMESPACE_METRICS k' \<noteq> None" for k'
    using that j(2) [rule_format, OF metrics_ns] k(4) [rule_format, OF metrics_ns] empty ne by metis
  show ?thesis using records_fit_single [OF e assms(8)] records_fit_single [OF m assms(8)] j(1) k(2) by simp
qed

section \<open>Reading back\<close>

text \<open>The store of a later world shows the same records from now on.\<close>

definition same_view :: "'a World \<Rightarrow> 'a World \<Rightarrow> bool" where
  "same_view w w' \<longleftrightarrow> st_inv (store w') \<and> clock w' = clock w \<and>
     (\<forall>n k. ns_ok n \<longrightarrow> live (clock w) (store w') n k = live (clock w) (store w) n k)"

lemma same_view_trans: "same_view a b \<Longrightarrow> same_view b c \<Longrightarrow> same_view a c"
  by (simp add: same_view_def)

lemma get_key_view:
  assumes "st_inv (store w)" "ns_ok ns"
  shows "\<exists>st'. get_key h ns key (clock w) (store w) = (Inr (live (clock w) (store w) ns key), st') \<and> same_view w (w\<lparr>store := st'\<rparr>)"
  using get_key_law [OF assms, of key "clock w"] by (auto simp: same_view_def)

lemma list_keys_view:
  assumes "st_inv (store w)" "ns_ok ns"
  shows "\<exists>ks st'. list_keys h ns (clock w) (store w) = (Inr ks, st') \<and> same_view w (w\<lparr>store := st'\<rparr>) \<and>
    distinct ks \<and> set ks = {k. live (clock w) (store w) ns k \<noteq> None}"
  using list_keys_law [OF assms, of "clock w"] by (auto simp: same_view_def)

lemma reload_event_key_step:
  assumes "st_inv (store w)" "length (events c) < buffer_size cfg"
  shows "\<exists>c' w'. reload_event_key ext cfg h key (c, w) = (c', w') \<and> metrics c' = metrics c \<and> same_view w w' \<and>
      events c' = events c @ option_list (loaded_item (event_from_str ext) (live (clock w) (store w) NAMESPACE_EVENTS key) key)"
  using get_key_view [OF assms(1) events_ns, of key] assms(2)
  by (auto simp: reload_event_key_def loaded_item_def option_list_def Let_def split: option.splits sum.splits)

lemma reload_metric_key_step:
  assumes "st_inv (store w)" "length (metrics c) < buffer_size cfg"
  shows "\<exists>c' w'. reload_metric_key ext cfg h key (c, w) = (c', w') \<and> events c' = events c \<and> same_view w w' \<and>
      metrics c' = metrics c @ option_list (loaded_item (metric_from_str ext) (live (clock w) (store w) NAMESPACE_METRICS key) key)"
  using get_key_view [OF assms(1) metrics_ns, of key] assms(2)
  by (auto simp: reload_metric_key_def loaded_item_def option_list_def Let_def split: option.splits sum.splits)

text \<open>While there is room, a reload appends the entries of the readable records in the order of their
  keys, and evicts nothing. The step \<open>f\<close> is one of the two above: it extends the buffer \<open>buf\<close> and leaves
  the other one, \<open>rest\<close>, alone.\<close>

lemma reload_keys:
  assumes step: "\<And>c w key. st_inv (store w) \<Longrightarrow> length (buf c) < cap \<Longrightarrow>
      \<exists>c' w'. f key (c, w) = (c', w') \<and> rest c' = rest c \<and> same_view w w' \<and>
        buf c' = buf c @ option_list (loaded_item parse (live (clock w) (store w) ns key) key)"
    and ns: "ns_ok ns"
  shows "st_inv (store w) \<Longrightarrow> length (buf c) + length keys \<le> cap \<Longrightarrow>
    \<exists>c' w'. fold f keys (c, w) = (c', w') \<and> rest c' = rest c \<and> same_view w w' \<and>
      buf c' = buf c @ List.map_filter (\<lambda>k. loaded_item parse (live (clock w) (store w) ns k) k) keys"
proof (induction keys arbitrary: c w)
  case Nil
  then show ?case by (simp add: List.map_filter_simps same_view_def)
next
  case (Cons key keys)
  obtain c1 w1 where s: "f key (c, w) = (c1, w1)" "rest c1 = rest c" "same_view w w1"
      "buf c1 = buf c @ option_list (loaded_item parse (live (clock w) (store w) ns key) key)"
    using step [of w c key] Cons.prems by auto
  have w1: "st_inv (store w1)" "clock w1 = clock w" "\<And>k. live (clock w) (store w1) ns k = live (clock w) (store w) ns k"
    using s(3) ns by (simp_all add: same_view_def)
  have len: "length (buf c1) + length keys \<le> cap" using s(4) Cons.prems(2) by (simp add: option_list_def split: option.splits)
  then obtain c2 w2 where "fold f keys (c1, w1) = (c2, w2)" "rest c2 = rest c1" "same_view w1 w2"
      "buf c2 = buf c1 @ List.map_filter (\<lambda>k. loaded_item parse (live (clock w) (store w) ns k) k) keys"
    using Cons.IH [OF w1(1) len] unfolding w1(2,3) by blast
  then show ?case using s same_view_trans [OF s(3)]
    by (auto simp: List.map_filter_simps option_list_def split: option.splits)
qed

lemma reload_events_spec:
  assumes "st_inv (store w)" "records_fit live (length (events c)) (clock w) (store w) NAMESPACE_EVENTS (buffer_size cfg)"
  shows "\<exists>c' w' keys. reload_events ext cfg h (c, w) = (c', w') \<and> metrics c' = metrics c \<and> same_view w w' \<and>
    set keys = {k. live (clock w) (store w) NAMESPACE_EVENTS k \<noteq> None} \<and>
    events c' = events c @ List.map_filter (\<lambda>k. loaded_item (event_from_str ext) (live (clock w) (store w) NAMESPACE_EVENTS k) k) keys"
proof -
  obtain ks st' where l: "list_keys h NAMESPACE_EVENTS (clock w) (store w) = (Inr ks, st')" "same_view w (w\<lparr>store := st'\<rparr>)"
      "distinct ks" "set ks = {k. live (clock w) (store w) NAMESPACE_EVENTS k \<noteq> None}"
    using list_keys_view [OF assms(1) events_ns] by blast
  have "length ks = card (set ks)" using distinct_card [OF l(3)] by simp
  then have len: "length (events c) + length ks \<le> buffer_size cfg" using assms(2) l(4) by (simp add: records_fit_def)
  have inv: "st_inv (store (w\<lparr>store := st'\<rparr>))" and view: "\<And>k. live (clock w) st' NAMESPACE_EVENTS k = live (clock w) (store w) NAMESPACE_EVENTS k"
    using l(2) events_ns by (simp_all add: same_view_def)
  obtain c' w' where "fold (reload_event_key ext cfg h) ks (c, w\<lparr>store := st'\<rparr>) = (c', w')" "metrics c' = metrics c"
      "same_view (w\<lparr>store := st'\<rparr>) w'"
      "events c' = events c @ List.map_filter (\<lambda>k. loaded_item (event_from_str ext) (live (clock w) (store w) NAMESPACE_EVENTS k) k) ks"
    using reload_keys [where f = "reload_event_key ext cfg h" and buf = events and rest = metrics and cap = "buffer_size cfg",
        OF reload_event_key_step events_ns inv len] view by auto
  then show ?thesis using l same_view_trans [OF l(2)] by (auto simp: reload_events_def)
qed

lemma reload_metrics_spec:
  assumes "st_inv (store w)" "records_fit live (length (metrics c)) (clock w) (store w) NAMESPACE_METRICS (buffer_size cfg)"
  shows "\<exists>c' w' keys. reload_metrics ext cfg h (c, w) = (c', w') \<and> events c' = events c \<and> same_view w w' \<and>
    set keys = {k. live (clock w) (store w) NAMESPACE_METRICS k \<noteq> None} \<and>
    metrics c' = metrics c @ List.map_filter (\<lambda>k. loaded_item (metric_from_str ext) (live (clock w) (store w) NAMESPACE_METRICS k) k) keys"
proof -
  obtain ks st' where l: "list_keys h NAMESPACE_METRICS (clock w) (store w) = (Inr ks, st')" "same_view w (w\<lparr>store := st'\<rparr>)"
      "distinct ks" "set ks = {k. live (clock w) (store w) NAMESPACE_METRICS k \<noteq> None}"
    using list_keys_view [OF assms(1) metrics_ns] by blast
  have "length ks = card (set ks)" using distinct_card [OF l(3)] by simp
  then have len: "length (metrics c) + length ks \<le> buffer_size cfg" using assms(2) l(4) by (simp add: records_fit_def)
  have inv: "st_inv (store (w\<lparr>store := st'\<rparr>))" and view: "\<And>k. live (clock w) st' NAMESPACE_METRICS k = live (clock w) (store w) NAMESPACE_METRICS k"
    using l(2) metrics_ns by (simp_all add: same_view_def)
  obtain c' w' where "fold (reload_metric_key ext cfg h) ks (c, w\<lparr>store := st'\<rparr>) = (c', w')" "events c' = events c"
      "same_view (w\<lparr>store := st'\<rparr>) w'"
      "metrics c' = metrics c @ List.map_filter (\<lambda>k. loaded_item (metric_from_str ext) (live (clock w) (store w) NAMESPACE_METRICS k) k) ks"
    using reload_keys [where f = "reload_metric_key ext cfg h" and buf = metrics and rest = events and cap = "buffer_size cfg",
        OF reload_metric_key_step metrics_ns inv len] view by auto
  then show ?thesis using l same_view_trans [OF l(2)] by (auto simp: reload_metrics_def)
qed

text \<open>A reload appends to both buffers; a record that is alive and readable is among what it appends.\<close>

lemma reload_appends:
  assumes "redis_handler (core sh) = Some h" "st_inv (store w)"
    and "records_fit live (length (events (core sh))) (clock w) (store w) NAMESPACE_EVENTS (buffer_size (config sh))"
    and "records_fit live (length (metrics (core sh))) (clock w) (store w) NAMESPACE_METRICS (buffer_size (config sh))"
  shows "live (clock w) (store w) NAMESPACE_EVENTS k = Some v \<Longrightarrow> event_from_str ext v = Inr x \<Longrightarrow>
      \<exists>new. events (core (fst (reload_from_redis ext (sh, w)))) = events (core sh) @ new \<and> x \<in> item ` set new"
    and "live (clock w) (store w) NAMESPACE_METRICS k = Some v \<Longrightarrow> metric_from_str ext v = Inr m \<Longrightarrow>
      \<exists>new. metrics (core (fst (reload_from_redis ext (sh, w)))) = metrics (core sh) @ new \<and> m \<in> item ` set new"
proof -
  obtain c1 w1 ks where e: "reload_events ext (config sh) h (core sh, w) = (c1, w1)" "metrics c1 = metrics (core sh)" "same_view w w1"
      "set ks = {k. live (clock w) (store w) NAMESPACE_EVENTS k \<noteq> None}"
      "events c1 = events (core sh) @ List.map_filter (\<lambda>k. loaded_item (event_from_str ext) (live (clock w) (store w) NAMESPACE_EVENTS k) k) ks"
    using reload_events_spec [OF assms(2,3), of ext] by blast
  have w1: "st_inv (store w1)" "clock w1 = clock w" "\<And>k. live (clock w) (store w1) NAMESPACE_METRICS k = live (clock w) (store w) NAMESPACE_METRICS k"
    using e(3) metrics_ns by (simp_all add: same_view_def)
  have "records_fit live (length (metrics c1)) (clock w1) (store w1) NAMESPACE_METRICS (buffer_size (config sh))"
    using assms(4) w1 e(2) by (simp add: records_fit_def)
  then obtain c2 w2 ls where m: "reload_metrics ext (config sh) h (c1, w1) = (c2, w2)" "events c2 = events c1"
      "set ls = {k. live (clock w) (store w) NAMESPACE_METRICS k \<noteq> None}"
      "metrics c2 = metrics c1 @ List.map_filter (\<lambda>k. loaded_item (metric_from_str ext) (live (clock w) (store w) NAMESPACE_METRICS k) k) ls"
    using reload_metrics_spec [of w1 c1 "config sh" ext] w1 by auto
  have r: "core (fst (reload_from_redis ext (sh, w))) = c2"
    using assms(1) e(1) m(1) by (simp add: reload_from_redis_def)
  show "\<exists>new. events (core (fst (reload_from_redis ext (sh, w)))) = events (core sh) @ new \<and> x \<in> item ` set new"
    if "live (clock w) (store w) NAMESPACE_EVENTS k = Some v" "event_from_str ext v = Inr x"
  proof -
    have "k \<in> set ks" "loaded_item (event_from_str ext) (live (clock w) (store w) NAMESPACE_EVENTS k) k = Some \<lparr>item = x, redis_key = Some k\<rparr>"
      using that e(4) by (simp_all add: loaded_item_def)
    then have "\<lparr>item = x, redis_key = Some k\<rparr> \<in>
        set (List.map_filter (\<lambda>k. loaded_item (event_from_str ext) (live (clock w) (store w) NAMESPACE_EVENTS k) k) ks)"
      by (auto simp: set_map_filter)
    then show ?thesis unfolding r using m(2) e(5) by force
  qed
  show "\<exists>new. metrics (core (fst (reload_from_redis ext (sh, w)))) = metrics (core sh) @ new \<and> m \<in> item ` set new"
    if "live (clock w) (store w) NAMESPACE_METRICS k = Some v" "metric_from_str ext v = Inr m"
  proof -
    have "k \<in> set ls" "loaded_item (metric_from_str ext) (live (clock w) (store w) NAMESPACE_METRICS k) k = Some \<lparr>item = m, redis_key = Some k\<rparr>"
      using that m(3) by (simp_all add: loaded_item_def)
    then have "\<lparr>item = m, redis_key = Some k\<rparr> \<in>
        set (List.map_filter (\<lambda>k. loaded_item (metric_from_str ext) (live (clock w) (store w) NAMESPACE_METRICS k) k) ls)"
      by (auto simp: set_map_filter)
    then show ?thesis unfolding r using m(4) e(2) by force
  qed
qed

lemma reload_restores:
  assumes "redis_handler (core sh) = Some h" "st_inv (store w)"
    and "records_fit live (length (events (core sh))) (clock w) (store w) NAMESPACE_EVENTS (buffer_size (config sh))"
    and "records_fit live (length (metrics (core sh))) (clock w) (store w) NAMESPACE_METRICS (buffer_size (config sh))"
  shows "live (clock w) (store w) NAMESPACE_EVENTS k = Some v \<Longrightarrow> event_from_str ext v = Inr x \<Longrightarrow>
      x \<in> item ` set (events (core (fst (reload_from_redis ext (sh, w)))))"
    and "live (clock w) (store w) NAMESPACE_METRICS k = Some v \<Longrightarrow> metric_from_str ext v = Inr m \<Longrightarrow>
      m \<in> item ` set (metrics (core (fst (reload_from_redis ext (sh, w)))))"
  using reload_appends(1) [OF assms, of k v ext x] reload_appends(2) [OF assms, of k v ext m] by auto

text \<open>A reload does not look at what the buffer already holds: a metric that was enqueued and is still
  buffered when the agent starts is buffered twice after it.\<close>

lemma start_doubles:
  assumes "redis_handler (core sh) = Some h" "st_inv (store w)" "metric_to_string ext m = Inr u" "metric_from_str ext u = Inr m"
    and pass: "enqueue_metric_pass ext m (sh, w) = EnqDone (Inr ()) (sh1, w1)"
    and idle: "\<not> running sh1" "redis (config sh1) = None"
    and fit: "records_fit live (length (events (core sh1))) (clock w1) (store w1) NAMESPACE_EVENTS (buffer_size (config sh1))"
      "records_fit live (length (metrics (core sh1))) (clock w1) (store w1) NAMESPACE_METRICS (buffer_size (config sh1))"
    and start: "start ext connect \<lparr>shared = sh1, loops = l\<rparr> w1 = (a, w2)"
  shows "2 \<le> count_list (map item (metrics (core (shared a)))) m"
proof -
  have "length (metrics (core sh)) < buffer_size (config sh)"
    using pass by (rule contrapos_pp)
      (auto simp: enqueue_metric_pass_def Let_def split: BufferOverflowPolicy.splits list.splits)
  from metric_pass_room [OF this, of ext m w] pass have buffered: "m \<in> item ` set (metrics (core sh1))"
    by (auto simp: buffered_def)
  have alive: "clock w < clock w + from_secs PERSIST_TTL_SECONDS" by (simp add: from_secs_def PERSIST_TTL_SECONDS_def)
  obtain j where j: "st_inv (store w1)" "clock w1 = clock w" "redis_handler (core sh1) = Some h"
      "live (clock w1) (store w1) NAMESPACE_METRICS j = Some u"
    using metric_pass_persists [OF assms(1,2,3) pass] metrics_ns alive by (metis (no_types, lifting))
  define sh2 where "sh2 = sh1\<lparr>running := True\<rparr>"
  have sh2: "core sh2 = core sh1" "config sh2 = config sh1" by (simp_all add: sh2_def)
  obtain new where new: "metrics (core (fst (reload_from_redis ext (sh2, w1)))) = metrics (core sh1) @ new" "m \<in> item ` set new"
    using reload_appends(2) [of sh2 w1 j u ext m] j fit assms(4) unfolding sh2 by blast
  have "shared a = fst (reload_from_redis ext (sh2, w1))"
    using start idle by (auto simp: start_def sh2_def Let_def split: prod.splits)
  moreover have "1 \<le> count_list (map item (metrics (core sh1))) m" "1 \<le> count_list (map item new) m"
    using buffered new(2) by (simp_all add: Suc_le_eq count_list_0_iff flip: neq0_conv)
  ultimately show ?thesis using new(1) by (simp add: count_list_append)
qed

text \<open>An event and a metric that were enqueued are in the buffers of any later process that reloads from
  the same store in time.\<close>

lemma telemetry_survives:
  assumes "redis_handler (core sh) = Some h" "st_inv (store w)"
    and "event_to_string ext x = Inr v" "event_from_str ext v = Inr x" "metric_to_string ext m = Inr u" "metric_from_str ext u = Inr m"
    and "enqueue_event_pass ext x (sh, w) = EnqDone (Inr ()) (sh1, w1)" "enqueue_metric_pass ext m (sh1, w1) = EnqDone (Inr ()) (sh2, w2)"
    and "redis_handler (core sh3) = Some h" "store w3 = store w2" "clock w3 < clock w + from_secs PERSIST_TTL_SECONDS"
    and "records_fit live (length (events (core sh3))) (clock w3) (store w3) NAMESPACE_EVENTS (buffer_size (config sh3))"
    and "records_fit live (length (metrics (core sh3))) (clock w3) (store w3) NAMESPACE_METRICS (buffer_size (config sh3))"
  shows "x \<in> item ` set (events (core (fst (reload_from_redis ext (sh3, w3))))) \<and>
         m \<in> item ` set (metrics (core (fst (reload_from_redis ext (sh3, w3)))))"
proof -
  have ne: "NAMESPACE_EVENTS \<noteq> NAMESPACE_METRICS" by (simp add: NAMESPACE_EVENTS_def NAMESPACE_METRICS_def)
  obtain k where k: "st_inv (store w1)" "clock w1 = clock w" "redis_handler (core sh1) = Some h"
      "live (clock w3) (store w1) NAMESPACE_EVENTS k = Some v"
    using event_pass_persists [OF assms(1,2,3,7)] events_ns assms(11) by metis
  obtain j where j: "st_inv (store w2)" "live (clock w3) (store w2) NAMESPACE_METRICS j = Some u"
      "live (clock w3) (store w2) NAMESPACE_EVENTS k = live (clock w3) (store w1) NAMESPACE_EVENTS k"
    using metric_pass_persists [OF k(3,1) assms(5,8)] events_ns metrics_ns assms(11) k(2) ne by metis
  show ?thesis
    using reload_restores(1) [OF assms(9) _ assms(12,13), of k v ext x] reload_restores(2) [OF assms(9) _ assms(12,13), of j u ext m]
      k(4) j assms(4,6,10) by simp
qed

end

interpretation mem_agent: agent_store in_memory_handler store_live store_inv plain_ns
  by unfold_locales simp_all

lemma finite_store_live: "finite {k. store_live t st ns k \<noteq> None}"
proof -
  have "{k. store_live t st ns k \<noteq> None} \<subseteq> {k. namespaced_key ns k \<in> fst ` set st}"
    by (auto simp: store_live_def split: option.splits dest!: map_of_SomeD intro: rev_image_eqI)
  moreover have "finite {k. namespaced_key ns k \<in> fst ` set st}"
    by (rule finite_vimageI [of "fst ` set st" "namespaced_key ns", unfolded vimage_def])
       (auto simp: inj_def namespaced_key_def)
  ultimately show ?thesis by (rule finite_subset)
qed

end
