(* ===== verification/Agent_Safety.thy ===== *)
theory Agent_Safety
  imports Agent_Durability
begin

text \<open>
  The agent's invariant. \<open>agent_ok\<close> says that the agent has not panicked, that its transport can back
  off without panicking, and that both buffers are within capacity; \<open>agent_step\<close> is the step relation of
  the agent's operations and background work. Construction establishes the invariant and every step
  keeps it. The two kinds do not touch each other's buffer, counters, streak and gate.
\<close>

section \<open>The kinds are isolated\<close>

definition same_metrics :: "'st CoreState \<Rightarrow> 'st CoreState \<Rightarrow> bool" where
  "same_metrics c c' \<longleftrightarrow> metrics c' = metrics c \<and> metrics_flushed c' = metrics_flushed c \<and>
     metrics_dropped c' = metrics_dropped c \<and> metrics_sent c' = metrics_sent c \<and> metrics_failed c' = metrics_failed c \<and>
     metrics_failure_streak c' = metrics_failure_streak c \<and> metrics_retry_after c' = metrics_retry_after c"

definition same_events :: "'st CoreState \<Rightarrow> 'st CoreState \<Rightarrow> bool" where
  "same_events c c' \<longleftrightarrow> events c' = events c \<and> events_flushed c' = events_flushed c \<and>
     events_dropped c' = events_dropped c \<and> events_sent c' = events_sent c \<and> events_failed c' = events_failed c \<and>
     events_failure_streak c' = events_failure_streak c \<and> events_retry_after c' = events_retry_after c"

lemma same_refl [simp]: "same_metrics c c" "same_events c c"
  by (simp_all add: same_metrics_def same_events_def)

lemma finish_isolated:
  "same_metrics (core (fst s)) (core (fst (finish_events out xs ks s)))"
  "same_events (core (fst s)) (core (fst (finish_metrics out ys ks s)))"
  by (auto simp: finish_events_def finish_metrics_def same_metrics_def same_events_def Let_def case_prod_beta accept_events_def
      accept_metrics_def requeue_events_def requeue_metrics_def fail_events_def fail_metrics_def bump_flush_failures_def
      split: SendOutcome.splits)

lemma flush_isolated:
  "same_metrics (core (fst s)) (core (fst (flush_events ext s)))"
  "same_events (core (fst s)) (core (fst (flush_metrics ext s)))"
proof -
  obtain sh w where s: "s = (sh, w)" by (cases s)
  obtain xs ks c where d: "drain_events (core sh) = (xs, ks, c)" by (metis prod_cases3)
  obtain ys ls c' where d': "drain_metrics (core sh) = (ys, ls, c')" by (metis prod_cases3)
  have c: "same_metrics (core sh) c" "same_metrics (core sh) (core_set_last_flush ext w c)"
    "same_events (core sh) c'" "same_events (core sh) (core_set_last_flush ext w c')"
    using d d' by (auto simp: drain_events_def drain_metrics_def drain_def same_metrics_def same_events_def core_set_last_flush_def)
  show "same_metrics (core (fst s)) (core (fst (flush_events ext s)))"
    using finish_isolated(1) [of "(sh\<lparr>core := core_set_last_flush ext w c, transport := t\<rparr>, w1)" for t w1] c d s
    by (auto simp: flush_events_def Let_def case_prod_beta same_metrics_def)
  show "same_events (core (fst s)) (core (fst (flush_metrics ext s)))"
    using finish_isolated(2) [of "(sh\<lparr>core := core_set_last_flush ext w c', transport := t\<rparr>, w1)" for t w1] c d' s
    by (auto simp: flush_metrics_def Let_def case_prod_beta same_events_def)
qed

section \<open>The invariant\<close>

definition agent_ok :: "'st astate \<Rightarrow> bool" where
  "agent_ok s \<longleftrightarrow> transport_ok (transport (fst s), snd s) \<and> 0 < buffer_size (config (fst s)) \<and>
     length (events (core (fst s))) \<le> buffer_size (config (fst s)) \<and>
     length (metrics (core (fst s))) \<le> buffer_size (config (fst s))"

context telemetry_kind
begin

lemma finish_frame:
  assumes "0 < buffer_size (config sh)" "length (k_buf K (core sh)) \<le> buffer_size (config sh)"
    and "k_finish K out xs ks (sh, w) = (sh', w')"
  shows "transport sh' = transport sh \<and> same_agent sh sh' \<and> panicked w' = panicked w \<and> clock w' = clock w \<and> wire w' = wire w \<and>
    length (k_buf K (core sh')) \<le> buffer_size (config sh)"
proof (cases "is_confirmed out")
  case True
  then show ?thesis using finish_confirmed [OF True, of xs ks sh w] assms by (auto simp: same_agent_def)
next
  case False
  then obtain e where e: "out = Failed e" by (cases out) auto
  obtain d nd ev where r: "requeue (k_buf K (core sh)) (buffer_size (config sh)) xs ks (k_dropped K (core sh)) = (d, nd, ev)"
    by (metis prod_cases3)
  then have "d = take (buffer_size (config sh)) (map buffered (zip xs ks) @ k_buf K (core sh))"
    by (auto simp only: requeue_spec [OF assms(1,2)] Let_def prod.inject)
  then have "length d \<le> buffer_size (config sh)" by simp
  then show ?thesis using finish_failed [OF r, of e w] assms(3) e by (auto simp: same_agent_def)
qed

lemma flush_frame:
  assumes cap: "0 < buffer_size (config sh)" "length (k_buf K (core sh)) \<le> buffer_size (config sh)"
    and f: "k_flush K ext (sh, w) = (sh', w')"
  shows "same_agent sh sh' \<and> length (k_buf K (core sh')) \<le> buffer_size (config sh) \<and>
    steady (transport sh) (transport sh') \<and> prefix (wire w) (wire w') \<and> clock w \<le> clock w' \<and>
    (transport_ok (transport sh, w) \<longrightarrow> transport_ok (transport sh', w'))"
proof -
  obtain xs ks c1 where d: "k_drain K (core sh) = (xs, ks, c1)" by (metis prod_cases3)
  note dl = drain_law [OF d]
  consider (gated) "gate_closed (clock w) (k_gate K (core sh))" | (empty) "\<not> gate_closed (clock w) (k_gate K (core sh))" "xs = []"
    | (full) "\<not> gate_closed (clock w) (k_gate K (core sh))" "xs \<noteq> []" by blast
  then show ?thesis
  proof cases
    case gated
    then show ?thesis using f cap by (simp add: flush_gated same_agent_def steady_def)
  next
    case empty
    then show ?thesis using f cap d dl by (auto simp: flush_law same_agent_def steady_def)
  next
    case full
    obtain out t w1 where s: "send_batch ext (k_batch K xs) (transport sh, w) = (out, t, w1)" by (metis prod_cases3)
    let ?sh = "sh\<lparr>core := core_set_last_flush ext w c1, transport := t\<rparr>"
    have "k_finish K out xs ks (?sh, w1) = (sh', w')" using f full d s by (simp add: flush_law)
    from finish_frame [OF _ _ this] have ff: "transport sh' = t" "same_agent ?sh sh'" "panicked w' = panicked w1" "wire w' = wire w1"
        "clock w' = clock w1" "length (k_buf K (core sh')) \<le> buffer_size (config sh)"
      using cap dl by (auto simp: stamp_law)
    have b: "bounded_step ((2 * max 1 (batch_len (k_batch K xs)) - 1) * total_attempts (tr_config (transport sh))) (transport sh, w) (t, w1)"
      using send_batch_bounded(1) [of "k_batch K xs" "(transport sh, w)" ext] s by simp
    then show ?thesis using ff dl bounded_step_facts [OF b]
      by (auto simp: same_agent_def bounded_step_def transport_ok_def advances_def)
  qed
qed

end

lemmas event_flush_frame = ev.flush_frame [unfolded event_ops_def kind_ops.simps]
lemmas metric_flush_frame = mt.flush_frame [unfolded metric_ops_def kind_ops.simps]

lemma flush_events_ok: "agent_ok s \<Longrightarrow> agent_ok (flush_events ext s)"
proof -
  assume ok: "agent_ok s"
  obtain sh w sh' w' where s: "s = (sh, w)" "flush_events ext (sh, w) = (sh', w')" by (metis prod.exhaust)
  then have "same_metrics (core sh) (core sh')" using flush_isolated(1) [of s ext] by simp
  then show ?thesis using ok s event_flush_frame [of sh ext w sh' w'] by (auto simp: agent_ok_def same_agent_def same_metrics_def)
qed

lemma flush_metrics_ok: "agent_ok s \<Longrightarrow> agent_ok (flush_metrics ext s)"
proof -
  assume ok: "agent_ok s"
  obtain sh w sh' w' where s: "s = (sh, w)" "flush_metrics ext (sh, w) = (sh', w')" by (metis prod.exhaust)
  then have "same_events (core sh) (core sh')" using flush_isolated(2) [of s ext] by simp
  then show ?thesis using ok s metric_flush_frame [of sh ext w sh' w'] by (auto simp: agent_ok_def same_agent_def same_events_def)
qed

lemma do_flush_ok: "agent_ok s \<Longrightarrow> agent_ok (do_flush ext s)"
  by (simp add: do_flush_def flush_events_ok flush_metrics_ok)

lemma flush_if_needed_ok: "agent_ok s \<Longrightarrow> agent_ok (flush_if_needed ext s)"
  by (cases s) (auto simp: flush_if_needed_def do_flush_ok)

lemma agent_ok_permits [simp]:
  "agent_ok (sh\<lparr>flush_permits := n\<rparr>, w) \<longleftrightarrow> agent_ok (sh, w)" "agent_ok (sh\<lparr>inflight := n\<rparr>, w) \<longleftrightarrow> agent_ok (sh, w)"
  "agent_ok (sh\<lparr>running := b\<rparr>, w) \<longleftrightarrow> agent_ok (sh, w)"
  by (simp_all add: agent_ok_def)

lemma with_permit_ok:
  assumes "\<And>s. agent_ok s \<Longrightarrow> agent_ok (f s)" "agent_ok s"
  shows "agent_ok (with_permit f s)"
proof -
  obtain sh w where s: "s = (sh, w)" by (cases s)
  obtain sh1 w1 where f: "f (sh\<lparr>flush_permits := flush_permits sh - 1\<rparr>, w) = (sh1, w1)" by (metis prod.exhaust)
  have "agent_ok (sh1, w1)" using assms(1) [of "(sh\<lparr>flush_permits := flush_permits sh - 1\<rparr>, w)"] assms(2) s f by simp
  then show ?thesis using s f by (simp add: with_permit_def)
qed

lemma run_spawned_flush_ok: "agent_ok s \<Longrightarrow> agent_ok (run_spawned_flush ext s)"
  using with_permit_ok [where f = "flush_if_needed ext" and s = s] flush_if_needed_ok
  by (auto simp: run_spawned_flush_def case_prod_beta)

lemma push_status_ok: "agent_ok s \<Longrightarrow> agent_ok (push_status_once ext s)"
proof -
  assume ok: "agent_ok s"
  obtain sh w where s: "s = (sh, w)" by (cases s)
  obtain out t w1 where r: "send_status ext (compute_status ext s) (transport sh, w) = (out, t, w1)" by (metis prod_cases3)
  have "transport_ok (t, w1)"
    using send_status_bounded [of "(transport sh, w)" ext "compute_status ext s"] r ok s by (simp add: bounded_step_def agent_ok_def)
  moreover have "events (note_status_push out c) = events c" "metrics (note_status_push out c) = metrics c" for c :: "'a CoreState"
    by (simp_all add: note_status_push_def split: SendOutcome.splits)
  ultimately show ?thesis using ok s r by (simp add: push_status_once_def agent_ok_def)
qed

lemma fetch_rules_ok: "agent_ok s \<Longrightarrow> agent_ok (snd (fetch_dynamic_rules_once ext s))"
proof -
  assume ok: "agent_ok s"
  obtain sh w where s: "s = (sh, w)" by (cases s)
  obtain r t w1 where f: "fetch_rules ext (transport sh, w) = (r, t, w1)" by (metis prod_cases3)
  have "(t, w1) = snd (get_with_retry ext ''rules'' (transport sh, w))" using fetch_rules_snd [of ext "(transport sh, w)"] f by simp
  then have "transport_ok (t, w1)"
    using get_with_retry_bounded [of "(transport sh, w)" ext "''rules''"] ok s by (simp add: bounded_step_def agent_ok_def)
  then show ?thesis using ok s f
    by (cases r) (auto simp: fetch_dynamic_rules_once_def agent_ok_def store_rules_def Let_def split: option.splits)
qed

lemma clear_buffer_ok: "agent_ok s \<Longrightarrow> agent_ok (clear_buffer s)"
  by (cases s) (auto simp: clear_buffer_def agent_ok_def transport_ok_def Let_def split: option.splits prod.splits)

text \<open>A reload evicts the oldest entry of a full buffer before it appends one.\<close>

definition core_within :: "AgentConfig \<Rightarrow> bool \<Rightarrow> 'st CoreState \<times> 'st World \<Rightarrow> bool" where
  "core_within cfg p s \<longleftrightarrow> length (events (fst s)) \<le> buffer_size cfg \<and> length (metrics (fst s)) \<le> buffer_size cfg \<and>
     panicked (snd s) = p"

lemma within_fold: "(\<And>x s. core_within cfg p s \<Longrightarrow> core_within cfg p (f x s)) \<Longrightarrow> core_within cfg p s \<Longrightarrow> core_within cfg p (fold f xs s)"
  by (induction xs arbitrary: s) auto

lemma reload_key_within:
  assumes "0 < buffer_size cfg" "core_within cfg p s"
  shows "core_within cfg p (reload_event_key ext cfg h key s)" "core_within cfg p (reload_metric_key ext cfg h key s)"
  using assms
  by (cases s; auto simp: reload_event_key_def reload_metric_key_def core_within_def Let_def
      split: prod.splits sum.splits option.splits)+

lemma reload_within:
  assumes "0 < buffer_size cfg" "core_within cfg p s"
  shows "core_within cfg p (reload_events ext cfg h s)" "core_within cfg p (reload_metrics ext cfg h s)"
proof -
  obtain c w where s: "s = (c, w)" by (cases s)
  have st: "core_within cfg p (c, w\<lparr>store := st\<rparr>)" for st using assms(2) s by (simp add: core_within_def)
  obtain r st1 q st2 where l: "list_keys h NAMESPACE_EVENTS (clock w) (store w) = (r, st1)"
    "list_keys h NAMESPACE_METRICS (clock w) (store w) = (q, st2)" by (metis prod.exhaust)
  have e: "core_within cfg p (fold (reload_event_key ext cfg h) ks (c, w\<lparr>store := st1\<rparr>))" for ks
    using reload_key_within(1) [OF assms(1)] st by (rule within_fold)
  have m: "core_within cfg p (fold (reload_metric_key ext cfg h) ks (c, w\<lparr>store := st2\<rparr>))" for ks
    using reload_key_within(2) [OF assms(1)] st by (rule within_fold)
  show "core_within cfg p (reload_events ext cfg h s)" using e st by (cases r) (simp_all add: reload_events_def s l)
  show "core_within cfg p (reload_metrics ext cfg h s)" using m st by (cases q) (simp_all add: reload_metrics_def s l)
qed

lemma reload_ok: "agent_ok s \<Longrightarrow> agent_ok (reload_from_redis ext s)"
proof -
  assume ok: "agent_ok s"
  obtain sh w where s: "s = (sh, w)" by (cases s)
  show ?thesis
  proof (cases "redis_handler (core sh)")
    case (Some h)
    let ?r = "reload_metrics ext (config sh) h (reload_events ext (config sh) h (core sh, w))"
    have "core_within (config sh) False ?r"
      using ok s by (intro reload_within) (auto simp: agent_ok_def transport_ok_def core_within_def)
    then show ?thesis using ok s Some by (auto simp: reload_from_redis_def agent_ok_def transport_ok_def core_within_def case_prod_beta)
  qed (use ok s in \<open>simp add: reload_from_redis_def\<close>)
qed

section \<open>The loops, starting and stopping\<close>

lemma agent_ok_frame [simp]:
  "agent_ok (sh\<lparr>inflight := n\<rparr>, w) = agent_ok (sh, w)" "agent_ok (sh\<lparr>running := b\<rparr>, w) = agent_ok (sh, w)"
  "agent_ok (attach_redis_handler h sh, w) = agent_ok (sh, w)" "agent_ok (sh, sleep_for ext d w) = agent_ok (sh, w)"
  by (simp_all add: agent_ok_def attach_redis_handler_def transport_ok_def)

lemma flush_buffer_ok:
  assumes "agent_ok s" and "\<And>s. agent_ok s \<Longrightarrow> agent_ok (other s)"
  shows "agent_ok (flush_buffer ext other s)"
  unfolding flush_buffer_def using assms by (intro with_permit_ok do_flush_ok) auto

lemma flush_tick_ok:
  assumes "flush_tick ext s = Some s'" "agent_ok s"
  shows "agent_ok s'"
proof -
  obtain sh w where s: "s = (sh, w)" by (cases s)
  let ?s = "(sh, sleep_for ext (from_secs (flush_interval (config sh))) w)"
  have "agent_ok ?s" using assms(2) s by simp
  then have "agent_ok (with_permit (flush_if_needed ext) ?s)" by (intro with_permit_ok flush_if_needed_ok)
  then show ?thesis using assms s
    by (auto simp: flush_tick_def Let_def agent_ok_def transport_ok_def case_prod_beta split: if_splits)
qed

lemma status_tick_ok: "status_tick ext s = Some s' \<Longrightarrow> agent_ok s \<Longrightarrow> agent_ok s'"
  by (cases s) (auto simp: status_tick_def Let_def intro!: push_status_ok split: if_splits)

lemma rules_tick_ok:
  assumes "rules_tick ext s = Some s'" "agent_ok s"
  shows "agent_ok s'"
proof -
  obtain sh w where s: "s = (sh, w)" by (cases s)
  have "agent_ok (snd (fetch_dynamic_rules_once ext (sh, sleep_for ext (from_secs (dynamic_rule_interval (config sh))) w)))"
    using assms(2) s by (intro fetch_rules_ok) simp
  then show ?thesis using assms(1) s
    by (auto simp: rules_tick_def Let_def agent_ok_def note_rules_poll_def case_prod_beta split: if_splits)
qed

lemma start_ok:
  assumes "start ext connect \<lparr>shared = sh, loops = l\<rparr> w = (a, w')" "agent_ok (sh, w)"
  shows "agent_ok (shared a, w')"
proof (cases "running sh")
  case False
  let ?sh = "case redis (config sh) of None \<Rightarrow> sh\<lparr>running := True\<rparr>
    | Some rc \<Rightarrow> (case connect rc of Inr h \<Rightarrow> attach_redis_handler h (sh\<lparr>running := True\<rparr>) | Inl _ \<Rightarrow> sh\<lparr>running := True\<rparr>)"
  have "agent_ok (reload_from_redis ext (?sh, w))"
    using assms(2) by (intro reload_ok) (simp split: option.splits sum.splits)
  then show ?thesis using False assms(1) by (auto simp: start_def Let_def case_prod_beta)
qed (use assms in \<open>auto simp: start_def\<close>)

lemma stop_ok:
  assumes "stop ext other a w = (a', w')" "agent_ok (shared a, w)" and "\<And>s. agent_ok s \<Longrightarrow> agent_ok (other s)"
  shows "agent_ok (shared a', w')"
proof -
  let ?s = "if loops a then other ((shared a)\<lparr>running := False\<rparr>, w) else ((shared a)\<lparr>running := False\<rparr>, w)"
  have "agent_ok ?s" using assms(2,3) by simp
  then have "agent_ok (await_inflight other ?s)"
    using assms(3) by (cases ?s) (auto simp: await_inflight_def simp del: if_split)
  then have "agent_ok (flush_buffer ext other (await_inflight other ?s))" using assms(3) by (rule flush_buffer_ok)
  then show ?thesis using assms(1) by (auto simp: stop_def Let_def case_prod_beta)
qed

section \<open>Steps of the agent\<close>

inductive agent_step :: "externals \<Rightarrow> 'st astate \<Rightarrow> 'st astate \<Rightarrow> bool" for ext where
  event_done: "enqueue_event_pass ext e s = EnqDone r s' \<Longrightarrow> agent_step ext s s'"
| event_retry: "enqueue_event_pass ext e s = EnqRetry s' \<Longrightarrow> agent_step ext s s'"
| metric_done: "enqueue_metric_pass ext m s = EnqDone r s' \<Longrightarrow> agent_step ext s s'"
| metric_retry: "enqueue_metric_pass ext m s = EnqRetry s' \<Longrightarrow> agent_step ext s s'"
| flush: "agent_step ext s (do_flush ext s)"
| spawned: "agent_step ext s (run_spawned_flush ext s)"
| status: "agent_step ext s (push_status_once ext s)"
| rules: "agent_step ext s (snd (fetch_dynamic_rules_once ext s))"
| clear: "agent_step ext s (clear_buffer s)"
| reload: "agent_step ext s (reload_from_redis ext s)"
| attach: "agent_step ext (sh, w) (attach_redis_handler h sh, w)"
| elapse: "agent_step ext (sh, w) (sh, sleep_for ext d w)"
| flush_now: "0 < flush_permits (fst s) \<Longrightarrow> agent_step ext s (flush_buffer ext id s)"
| flush_loop: "flush_tick ext s = Some s' \<Longrightarrow> agent_step ext s s'"
| status_loop: "status_tick ext s = Some s' \<Longrightarrow> agent_step ext s s'"
| rules_loop: "rules_tick ext s = Some s' \<Longrightarrow> agent_step ext s s'"
| starting: "start ext connect \<lparr>shared = sh, loops = l\<rparr> w = (a, w') \<Longrightarrow> agent_step ext (sh, w) (shared a, w')"
| halting: "agent_step ext (sh, w) (sh\<lparr>running := False\<rparr>, w)"
| taking_over: "agent_step ext (sh, w) (sh\<lparr>inflight := 0\<rparr>, w)"

inductive agent_reachable :: "externals \<Rightarrow> 'st astate \<Rightarrow> 'st astate \<Rightarrow> bool" for ext s0 where
  initial: "agent_reachable ext s0 s0"
| further: "agent_reachable ext s0 s \<Longrightarrow> agent_step ext s s' \<Longrightarrow> agent_reachable ext s0 s'"

context telemetry_kind
begin

lemma pass_frame:
  assumes "0 < buffer_size (config sh)" "length (k_buf K (core sh)) \<le> buffer_size (config sh)"
  shows "k_pass K ext x (sh, w) \<noteq> EnqPanic"
    "k_pass K ext x (sh, w) = EnqDone r (sh', w') \<or> k_pass K ext x (sh, w) = EnqRetry (sh', w') \<Longrightarrow>
       same_agent sh sh' \<and> length (k_buf K (core sh')) \<le> buffer_size (config sh) \<and> panicked w' = panicked w"
proof -
  consider (room) "length (k_buf K (core sh)) < buffer_size (config sh)"
    | (dropping) old rest where "\<not> length (k_buf K (core sh)) < buffer_size (config sh)"
        "buffer_overflow_policy (config sh) = Drop" "k_buf K (core sh) = old # rest"
    | (raising) "\<not> length (k_buf K (core sh)) < buffer_size (config sh)" "buffer_overflow_policy (config sh) = Raise"
    | (blocking) "\<not> length (k_buf K (core sh)) < buffer_size (config sh)" "buffer_overflow_policy (config sh) = Block"
    using assms(1) by (cases "buffer_overflow_policy (config sh)"; cases "k_buf K (core sh)") auto
  note c = this
  show "k_pass K ext x (sh, w) \<noteq> EnqPanic"
    using pass_room [of sh ext x w] pass_drop [of sh _ _ ext x w] pass_raise [of sh ext x w] pass_block [of sh ext x w]
    by (cases rule: c) fastforce+
  show "k_pass K ext x (sh, w) = EnqDone r (sh', w') \<or> k_pass K ext x (sh, w) = EnqRetry (sh', w') \<Longrightarrow>
       same_agent sh sh' \<and> length (k_buf K (core sh')) \<le> buffer_size (config sh) \<and> panicked w' = panicked w"
    using pass_room [of sh ext x w] pass_drop [of sh _ _ ext x w] pass_raise [of sh ext x w] pass_block [of sh ext x w] assms(2)
    by (cases rule: c) (fastforce simp: same_agent_def)+
qed

end

lemmas event_pass_frame = ev.pass_frame [unfolded event_ops_def kind_ops.simps]
lemmas metric_pass_frame = mt.pass_frame [unfolded metric_ops_def kind_ops.simps]

lemma event_pass_isolated:
  assumes "enqueue_event_pass ext e (sh, w) = EnqDone r (sh', w') \<or> enqueue_event_pass ext e (sh, w) = EnqRetry (sh', w')"
  shows "same_metrics (core sh) (core sh')" "transport sh' = transport sh"
proof -
  obtain key c1 w1 where p: "persist_item ext NAMESPACE_EVENTS ''event'' (event_to_string ext e) (core sh) w = (key, c1, w1)"
    by (metis prod_cases3)
  obtain n where "c1 = (core sh)\<lparr>redis_persist_failures := n\<rparr>" using persist_item_frame(1) [OF p] by blast
  with assms p show "same_metrics (core sh) (core sh')" "transport sh' = transport sh"
    by (auto simp: enqueue_event_pass_def same_metrics_def Let_def split: if_splits BufferOverflowPolicy.splits list.splits)
qed

lemma metric_pass_isolated:
  assumes "enqueue_metric_pass ext m (sh, w) = EnqDone r (sh', w') \<or> enqueue_metric_pass ext m (sh, w) = EnqRetry (sh', w')"
  shows "same_events (core sh) (core sh')" "transport sh' = transport sh"
proof -
  obtain key c1 w1 where p: "persist_item ext NAMESPACE_METRICS ''metric'' (metric_to_string ext m) (core sh) w = (key, c1, w1)"
    by (metis prod_cases3)
  obtain n where "c1 = (core sh)\<lparr>redis_persist_failures := n\<rparr>" using persist_item_frame(1) [OF p] by blast
  with assms p show "same_events (core sh) (core sh')" "transport sh' = transport sh"
    by (auto simp: enqueue_metric_pass_def same_events_def Let_def split: if_splits BufferOverflowPolicy.splits list.splits)
qed

lemma event_pass_ok:
  assumes "enqueue_event_pass ext e s = EnqDone r s' \<or> enqueue_event_pass ext e s = EnqRetry s'" "agent_ok s"
  shows "agent_ok s'"
  using assms event_pass_frame(2) [of "fst s" ext e "snd s" r "fst s'" "snd s'"]
    event_pass_isolated [of ext e "fst s" "snd s" r "fst s'" "snd s'"]
  by (auto simp: agent_ok_def transport_ok_def same_agent_def same_metrics_def)

lemma metric_pass_ok:
  assumes "enqueue_metric_pass ext m s = EnqDone r s' \<or> enqueue_metric_pass ext m s = EnqRetry s'" "agent_ok s"
  shows "agent_ok s'"
  using assms metric_pass_frame(2) [of "fst s" ext m "snd s" r "fst s'" "snd s'"]
    metric_pass_isolated [of ext m "fst s" "snd s" r "fst s'" "snd s'"]
  by (auto simp: agent_ok_def transport_ok_def same_agent_def same_events_def)

lemma agent_ok_step: "agent_step ext s s' \<Longrightarrow> agent_ok s \<Longrightarrow> agent_ok s'"
  by (induction rule: agent_step.induct)
     (auto intro: event_pass_ok metric_pass_ok do_flush_ok run_spawned_flush_ok push_status_ok fetch_rules_ok clear_buffer_ok
       reload_ok flush_buffer_ok flush_tick_ok status_tick_ok rules_tick_ok start_ok)

lemma agent_ok_reachable: "agent_reachable ext s0 s \<Longrightarrow> agent_ok s0 \<Longrightarrow> agent_ok s"
  by (induction rule: agent_reachable.induct) (auto intro: agent_ok_step)

lemma transport_new_Inr:
  assumes "transport_new ext cfg iid nonce = Inr t"
  shows "tr_config t = cfg" "rate_limiter t = limiter_new RATE_LIMIT_MAX_CALLS (from_secs RATE_LIMIT_WINDOW_SECS)"
    "breaker t = breaker_default" "client_headers t = default_headers cfg iid" "init_encryptor ext cfg nonce = Inr (encryptor t)"
  using assms by (auto simp: transport_new_def Let_def split: if_splits sum.splits)

lemma agent_new_ok:
  assumes "agent_new ext fso home cfg fs w = (Inr sh, fs', w')" "\<not> panicked w"
  shows "agent_ok (sh, w')" "valid_config (config sh)" "tr_config (transport sh) = config sh" "0 < flush_permits sh"
proof -
  from assms(1) obtain c where v: "validate cfg = (Inr (), c)" and sh: "config sh = c" "core sh = core_new"
      "0 < flush_permits sh" "panicked w' = panicked w"
    and t: "transport_new ext c (sh_install_id sh) (nonce_draw ext (Suc (draws w))) = Inr (transport sh)"
    by (auto simp: agent_new_def draw_uuid_def draw_nonce_def less_max_iff_disj split: prod.splits sum.splits)
  note ok = validate_Inr(1) [OF v]
  show "valid_config (config sh)" using ok sh by simp
  have tr: "tr_config (transport sh) = c" "time_window (rate_limiter (transport sh)) = from_secs RATE_LIMIT_WINDOW_SECS"
    using transport_new_Inr [OF t] by (simp_all add: limiter_new_def)
  then show "tr_config (transport sh) = config sh" using sh by simp
  have "\<not> f64_lt (backoff_factor c) (Fin 0)"
    using ok unfolding valid_config_def by (cases "backoff_factor c") auto
  then show "agent_ok (sh, w')"
    using tr sh ok assms(2) by (simp add: agent_ok_def transport_ok_def valid_config_def core_new_def)
  show "0 < flush_permits sh" by (rule sh(3))
qed

end
