(* ===== verification/Json_Canonical.thy ===== *)
theory Json_Canonical
  imports Json Signing
begin

text \<open>
  The canonical text of a JSON value determines the value up to the order of the entries of its objects.
  The serializer is a prefix-free code: strings end at the first quote that is not part of an escape,
  numbers at the first character that cannot belong to one, arrays and objects at their closing bracket.
  The text is the one of the sorted value (\<open>sort_value\<close>), rendered without sorting (\<open>render\<close>), and
  \<open>render\<close> is injective.
\<close>

section \<open>Strings\<close>

lemma hex4_byte:
  assumes "n < 256"
  shows "hex4 n = [CHR ''0'', CHR ''0'', digit_char (n div 16), digit_char (n mod 16)]"
proof -
  have "digit_char 0 = CHR ''0''" by code_simp
  moreover have "replicate 3 c = [c, c, c]" "replicate 2 c = [c, c]" for c :: char by (simp_all add: numeral_3_eq_3 numeral_2_eq_2)
  moreover have "n div 16 < 16" using assms by simp
  ultimately show ?thesis by (auto simp: hex4_def pad_left_def show_base.simps [of 16])
qed

lemma hex4_byte_inject:
  assumes "m < 256" "n < 256"
  shows "hex4 m = hex4 n \<longleftrightarrow> m = n"
proof
  assume "hex4 m = hex4 n"
  then have "digit_char (m div 16) = digit_char (n div 16)" "digit_char (m mod 16) = digit_char (n mod 16)"
    using assms by (simp_all add: hex4_byte)
  then have "m div 16 = n div 16" "m mod 16 = n mod 16" using digit_char_inject assms by simp_all
  then show "m = n" by (metis div_mult_mod_eq)
qed simp

text \<open>The escape of a code point starts with a backslash or is the character itself.\<close>

definition short_escape :: "nat \<Rightarrow> char option" where
  "short_escape c = map_of [(34, CHR 0x22), (92, CHR 0x5C), (8, CHR ''b''), (12, CHR ''f''), (10, CHR ''n''), (13, CHR ''r''), (9, CHR ''t'')] c"

lemma escape_code_cases:
  assumes "c < 256"
  shows "escape_code c =
    (case short_escape c of
       Some e \<Rightarrow> [CHR 0x5C, e]
     | None \<Rightarrow> if c < 32 \<or> 126 < c then [CHR 0x5C, CHR ''u''] @ hex4 c else [char_of c])"
  using assms by (simp add: escape_code_def short_escape_def)

lemma short_escape_inject: "short_escape m = Some e \<Longrightarrow> short_escape n = Some e \<Longrightarrow> m = n"
  by (auto simp: short_escape_def split: if_splits)

lemma short_escape_not_u: "short_escape m \<noteq> Some (CHR ''u'')"
  by (auto simp: short_escape_def)

lemma of_char_of_byte: "n < 256 \<Longrightarrow> of_char (char_of n) = (n :: nat)"
  by simp

lemma char_of_eq_quote:
  assumes "(n :: nat) < 256"
  shows "char_of n = CHR 0x22 \<longleftrightarrow> n = 34" "char_of n = CHR 0x5C \<longleftrightarrow> n = 92"
proof -
  have "(of_char (CHR 0x22) :: nat) = 34" "(of_char (CHR 0x5C) :: nat) = 92" by simp_all
  with of_char_of_byte [OF assms] show "char_of n = CHR 0x22 \<longleftrightarrow> n = 34" "char_of n = CHR 0x5C \<longleftrightarrow> n = 92"
    by (metis of_char_eq_iff)+
qed

lemma escape_code_prefix:
  assumes "m < 256" "n < 256" "escape_code m @ x = escape_code n @ y"
  shows "m = n \<and> x = y"
proof -
  have lit: "char_of k \<noteq> CHR 0x5C" if "k < 256" "short_escape k = None" for k
    using that char_of_eq_quote(2) [of k] by (auto simp: short_escape_def split: if_splits)
  have inj: "m = n" if "(char_of m :: char) = char_of n"
    using that assms(1,2) by (metis mod_less of_char_of)
  show ?thesis
    using assms(3) lit [OF assms(1)] lit [OF assms(2)] inj short_escape_inject [of m _ n] short_escape_not_u
      hex4_byte [OF assms(1)] hex4_byte [OF assms(2)] hex4_byte_inject [OF assms(1,2)]
    by (auto simp: escape_code_cases [OF assms(1)] escape_code_cases [OF assms(2)] split: option.splits if_splits)
qed

lemma escape_code_start: "c < 256 \<Longrightarrow> \<exists>a as. escape_code c = a # as \<and> a \<noteq> CHR 0x22"
  by (auto simp: escape_code_cases short_escape_def char_of_eq_quote split: option.splits if_splits)

lemma escape_string_Cons: "escape_string (c # s) = escape_code (of_char c) @ escape_string s"
  by (simp add: escape_string_def escape_codes_def)

lemma escape_string_Nil [simp]: "escape_string [] = []"
  by (simp add: escape_string_def escape_codes_def)

lemma of_char_256 [simp]: "(of_char c :: nat) < 256"
  by (metis of_char_mod_256 mod_less_divisor zero_less_numeral)

lemma escape_string_prefix:
  "escape_string s @ CHR 0x22 # x = escape_string t @ CHR 0x22 # y \<Longrightarrow> s = t \<and> x = y"
proof (induction s arbitrary: t)
  case Nil
  then show ?case
  proof (cases t)
    case (Cons d t')
    then show ?thesis using Nil escape_code_start [of "of_char d"] by (auto simp: escape_string_Cons)
  qed simp
next
  case (Cons c s)
  show ?case
  proof (cases t)
    case Nil
    then show ?thesis using Cons.prems escape_code_start [of "of_char c"] by (auto simp: escape_string_Cons)
  next
    case (Cons d t')
    then have "of_char c = (of_char d :: nat)" and tl: "escape_string s @ CHR 0x22 # x = escape_string t' @ CHR 0x22 # y"
      using Cons.prems escape_code_prefix [of "of_char c" "of_char d"] by (auto simp: escape_string_Cons)
    then show ?thesis using Cons Cons.IH [OF tl] by simp
  qed
qed

lemma quoted_prefix: "quoted s @ x = quoted t @ y \<Longrightarrow> s = t \<and> x = y"
  using escape_string_prefix [of s x t y] by (simp add: quoted_def)

section \<open>Numbers\<close>

definition number_char :: "char \<Rightarrow> bool" where
  "number_char c \<longleftrightarrow> c \<in> set ''0123456789+-.eE''"

text \<open>What the rendering of floats guarantees: a float is written with the characters of a number, with a
  fraction or an exponent, and two floats have different texts.\<close>

definition float_format :: "(f64 \<Rightarrow> string) \<Rightarrow> bool" where
  "float_format fmt \<longleftrightarrow>
     (\<forall>r. representable r \<longrightarrow> list_all number_char (fmt (Fin r)) \<and> (\<exists>c \<in> set (fmt (Fin r)). c \<in> set ''.eE'')) \<and>
     (\<forall>r s. representable r \<longrightarrow> representable s \<longrightarrow> fmt (Fin r) = fmt (Fin s) \<longrightarrow> r = s)"

text \<open>\<^verbatim>\<open>serde_json\<close> keeps its numbers normalized: a negative integer is negative and a float is finite.\<close>

fun normal_number :: "Number \<Rightarrow> bool" where
  "normal_number (PosInt n) = True"
| "normal_number (NegInt i) = (i < 0)"
| "normal_number (JFloat x) = (case x of Fin r \<Rightarrow> representable r | _ \<Rightarrow> False)"

definition is_digit :: "char \<Rightarrow> bool" where
  "is_digit c \<longleftrightarrow> c \<in> set ''0123456789''"

lemma digit_facts: "is_digit c \<Longrightarrow> number_char c" "is_digit c \<Longrightarrow> c \<noteq> CHR ''-''" "is_digit c \<Longrightarrow> c \<notin> set ''.eE''"
  "number_char (CHR ''-'')"
  by (auto simp: is_digit_def number_char_def)

lemma digit_char_10: "d < 10 \<Longrightarrow> is_digit (digit_char d)"
proof -
  assume "d < 10"
  then have "d \<in> {0, 1, 2, 3, 4, 5, 6, 7, 8, 9}" by auto
  moreover have "\<forall>d \<in> {0, 1, 2, 3, 4, 5, 6, 7, 8, 9}. is_digit (digit_char d)" by code_simp
  ultimately show ?thesis by blast
qed

lemma show_nat_digits: "list_all is_digit (show_nat n)"
proof (induction n rule: less_induct)
  case (less n)
  have "n mod 10 < 10" by simp
  then show ?case using less [of "n div 10"] digit_char_10 [of n] digit_char_10 [of "n mod 10"]
    by (cases "n < 10") (simp_all add: show_base.simps [of 10 n])
qed

lemma show_nat_ne [simp]: "show_nat n \<noteq> []"
  by (subst show_base.simps) simp

lemma show_nat_inject: "show_nat m = show_nat n \<longleftrightarrow> m = n"
proof
  show "show_nat m = show_nat n \<Longrightarrow> m = n"
  proof (induction m arbitrary: n rule: less_induct)
    case (less m)
    have step: "show_nat k = (if k < 10 then [] else show_nat (k div 10)) @ [digit_char (k mod 10)]" for k
      by (subst show_base.simps) simp
    have "m mod 10 = n mod 10"
      using less.prems step [of m] step [of n] digit_char_inject [of "m mod 10" "n mod 10"] by simp
    moreover have "m div 10 = n div 10"
    proof (cases "m < 10 \<or> n < 10")
      case True
      then show ?thesis using less.prems step [of m] step [of n] show_nat_ne [of "n div 10"] show_nat_ne [of "m div 10"]
        by (auto split: if_splits simp del: show_nat_ne)
    next
      case False
      then show ?thesis using less.prems step [of m] step [of n] less.IH [of "m div 10" "n div 10"] by simp
    qed
    ultimately show ?case by (metis div_mult_mod_eq)
  qed
qed simp

lemma show_int_neg: "i < 0 \<Longrightarrow> show_int i = CHR ''-'' # show_nat (nat (- i))"
  by (simp add: show_int_def)

lemma show_int_chars: "c \<in> set (show_int i) \<Longrightarrow> c = CHR ''-'' \<or> is_digit c"
  using show_nat_digits [of "nat i"] show_nat_digits [of "nat (- i)"] by (auto simp: show_int_def list_all_iff split: if_splits)

lemma show_int_number: "list_all number_char (show_int i)" "c \<in> set ''.eE'' \<Longrightarrow> c \<notin> set (show_int i)"
proof -
  show "list_all number_char (show_int i)"
    using show_int_chars digit_facts(1,4) by (fastforce simp: list_all_iff)
  show "c \<in> set ''.eE'' \<Longrightarrow> c \<notin> set (show_int i)"
    using show_int_chars [of c i] digit_facts(3) [of c] by auto
qed

lemma show_int_inject: "show_int i = show_int j \<longleftrightarrow> i = j"
proof -
  have neg: "show_nat n \<noteq> CHR ''-'' # s" for n s
    using show_nat_digits [of n] digit_facts(2) by (cases "show_nat n") auto
  show ?thesis
    using neg neg [symmetric] by (cases "i < 0"; cases "j < 0") (auto simp: show_int_def show_nat_inject)
qed

lemma float_text:
  assumes "float_format fmt" "normal_number (JFloat x)"
  shows "list_all number_char (fmt x)" "\<exists>c \<in> set (fmt x). c \<in> set ''.eE''"
  using assms by (simp_all add: float_format_def split: f64.splits)

lemma number_chars:
  assumes "float_format fmt" "normal_number n"
  shows "list_all number_char (number_to_string fmt n)" "number_to_string fmt n \<noteq> []"
proof -
  have nat: "list_all number_char (show_nat k)" for k
    using show_nat_digits [of k] digit_facts(1) by (simp add: list_all_iff)
  show "list_all number_char (number_to_string fmt n)"
    using nat float_text(1) [OF assms(1)] assms(2) by (cases n) (simp_all add: show_int_neg digit_facts(4))
  show "number_to_string fmt n \<noteq> []"
    using float_text(2) [OF assms(1)] assms(2) by (cases n) (fastforce simp: show_int_neg)+
qed

lemma integer_text_no_float:
  "c \<in> set (number_to_string fmt (PosInt n)) \<Longrightarrow> c \<notin> set ''.eE''"
  "i < 0 \<Longrightarrow> c \<in> set (number_to_string fmt (NegInt i)) \<Longrightarrow> c \<notin> set ''.eE''"
proof -
  show "c \<in> set (number_to_string fmt (PosInt n)) \<Longrightarrow> c \<notin> set ''.eE''"
    using show_nat_digits [of n] digit_facts(3) [of c] by (simp add: list_all_iff)
  assume "i < 0" "c \<in> set (number_to_string fmt (NegInt i))"
  then have "c = CHR ''-'' \<or> is_digit c" using show_nat_digits [of "nat (- i)"] by (auto simp: show_int_neg list_all_iff)
  then show "c \<notin> set ''.eE''" using digit_facts(3) [of c] by auto
qed

lemma pos_neg_text: "i < 0 \<Longrightarrow> number_to_string fmt (PosInt n) \<noteq> number_to_string fmt (NegInt i)"
  using show_nat_digits [of n] digit_facts(2) by (cases "show_nat n") (auto simp: show_int_neg)

lemma number_inject:
  assumes "float_format fmt" "normal_number m" "normal_number n"
  shows "number_to_string fmt m = number_to_string fmt n \<longleftrightarrow> m = n"
proof
  assume eq: "number_to_string fmt m = number_to_string fmt n"
  have fl: "\<exists>c \<in> set (number_to_string fmt (JFloat x)). c \<in> set ''.eE''" if "normal_number (JFloat x)" for x
    using float_text(2) [OF assms(1) that] by simp
  show "m = n"
  proof (cases m; cases n)
    fix a b assume "m = PosInt a" "n = PosInt b"
    then show ?thesis using eq by (simp add: show_nat_inject)
  next
    fix a b assume "m = NegInt a" "n = NegInt b"
    then show ?thesis using eq assms(2,3) by (simp add: show_int_neg show_nat_inject)
  next
    fix a b assume mn: "m = JFloat a" "n = JFloat b"
    then obtain r s where "a = Fin r" "b = Fin s" "representable r" "representable s"
      using assms(2,3) by (auto split: f64.splits)
    then show ?thesis using eq assms(1) mn by (auto simp: float_format_def)
  next
    fix a b assume "m = PosInt a" "n = NegInt b"
    then show ?thesis using eq assms(3) pos_neg_text [of b fmt a] by simp
  next
    fix a b assume "m = NegInt a" "n = PosInt b"
    then show ?thesis using eq assms(2) pos_neg_text [of a fmt b] by simp
  next
    fix a b assume "m = PosInt a" "n = JFloat b"
    then show ?thesis using eq assms(3) fl [of b] integer_text_no_float(1) [of _ fmt a] by metis
  next
    fix a b assume "m = NegInt a" "n = JFloat b"
    then show ?thesis using eq assms(2,3) fl [of b] integer_text_no_float(2) [of a _ fmt] by (metis normal_number.simps(2))
  next
    fix a b assume "m = JFloat a" "n = PosInt b"
    then show ?thesis using eq assms(2) fl [of a] integer_text_no_float(1) [of _ fmt b] by metis
  next
    fix a b assume "m = JFloat a" "n = NegInt b"
    then show ?thesis using eq assms(2,3) fl [of a] integer_text_no_float(2) [of b _ fmt] by (metis normal_number.simps(2))
  qed
qed simp

text \<open>The text after a value in a document starts with no character of a number.\<close>

definition ends_number :: "string \<Rightarrow> bool" where
  "ends_number x \<longleftrightarrow> x = [] \<or> \<not> number_char (hd x)"

lemma number_prefix:
  assumes "float_format fmt" "normal_number m" "normal_number n" "ends_number x" "ends_number y"
    and "number_to_string fmt m @ x = number_to_string fmt n @ y"
  shows "m = n \<and> x = y"
proof -
  have split: "takeWhile number_char (s @ z) = s" if "list_all number_char s" "ends_number z" for s z
    using that by (cases z) (auto simp: ends_number_def list_all_iff takeWhile_append)
  have "number_to_string fmt m = number_to_string fmt n"
    using split [OF number_chars(1) [OF assms(1,2)] assms(4)] split [OF number_chars(1) [OF assms(1,3)] assms(5)] assms(6) by simp
  then show ?thesis using number_inject [OF assms(1-3)] assms(6) by simp
qed

section \<open>Sorting first\<close>

text \<open>The value with the entries of all its objects sorted by key; two values have the same sorted value
  when they differ in the order of entries only.\<close>

fun sort_value :: "Value \<Rightarrow> Value" where
  "sort_value (Array vs) = Array (map sort_value vs)"
| "sort_value (Object kvs) = Object (sort_key fst (map (\<lambda>kv. (fst kv, sort_value (snd kv))) kvs))"
| "sort_value v = v"

text \<open>The serializer without the sorting.\<close>

fun render :: "(f64 \<Rightarrow> string) \<Rightarrow> Value \<Rightarrow> string" where
  "render fmt Null = ''null''"
| "render fmt (Bool b) = (if b then ''true'' else ''false'')"
| "render fmt (Number n) = number_to_string fmt n"
| "render fmt (String s) = quoted s"
| "render fmt (Array vs) = ''['' @ join '','' (map (render fmt) vs) @ '']''"
| "render fmt (Object kvs) = [CHR 0x7B] @ join '','' (map (\<lambda>kv. quoted (fst kv) @ '':'' @ render fmt (snd kv)) kvs) @ [CHR 0x7D]"

lemma insort_key_map_snd:
  "insort_key fst (k, f v) (map (\<lambda>kv. (fst kv, f (snd kv))) xs) = map (\<lambda>kv. (fst kv, f (snd kv))) (insort_key fst (k, v) xs)"
  by (induction xs) auto

lemma sort_key_map_snd:
  "sort_key fst (map (\<lambda>kv. (fst kv, f (snd kv))) xs) = map (\<lambda>kv. (fst kv, f (snd kv))) (sort_key fst xs)"
  by (induction xs) (auto simp: insort_key_map_snd)

lemma canonical_render: "canonical_json fmt v = render fmt (sort_value v)"
proof (induction v)
  case (Array vs)
  then have eq: "map (canonical_json fmt) vs = map (\<lambda>v. render fmt (sort_value v)) vs" by simp
  show ?case by (simp only: canonical_json.simps eq sort_value.simps render.simps list.map_comp comp_def)
next
  case (Object kvs)
  then have eq: "map (\<lambda>kv. (fst kv, canonical_json fmt (snd kv))) kvs =
      map (\<lambda>kv. (fst kv, render fmt (sort_value (snd kv)))) kvs" by fastforce
  show ?case
    by (simp only: canonical_json.simps eq sort_value.simps render.simps
        sort_key_map_snd [where f = sort_value] sort_key_map_snd [where f = "\<lambda>v. render fmt (sort_value v)"])
       (simp add: case_prod_beta comp_def)
qed simp_all

section \<open>Unique readability\<close>

text \<open>A list of texts that can be told apart, separated by commas and closed by a bracket.\<close>

lemma join_Cons: "join '','' (x # xs) = x @ concat (map (\<lambda>y. CHR '','' # y) xs)"
  by (induction xs arbitrary: x) auto

lemma tail_prefix:
  assumes "\<And>v w x y. v \<in> set vs \<Longrightarrow> w \<in> set ws \<Longrightarrow> ends_number x \<Longrightarrow> ends_number y \<Longrightarrow> f v @ x = f w @ y \<Longrightarrow> v = w \<and> x = y"
    and "c \<noteq> CHR '',''" "\<not> number_char c"
    and "concat (map (\<lambda>u. CHR '','' # f u) vs) @ c # x = concat (map (\<lambda>u. CHR '','' # f u) ws) @ c # y"
  shows "vs = ws \<and> x = y"
  using assms(1,4)
proof (induction vs arbitrary: ws)
  case Nil
  then show ?case using assms(2) by (cases ws) auto
next
  case (Cons v vs)
  then obtain w ws' where ws: "ws = w # ws'" using assms(2) by (cases ws) auto
  have comma: "\<not> number_char (CHR '','')" by (simp add: number_char_def)
  have ends: "ends_number (concat (map (\<lambda>u. CHR '','' # f u) us) @ c # z)" for us z
    using assms(3) comma by (cases us) (simp_all add: ends_number_def)
  have "f v @ concat (map (\<lambda>u. CHR '','' # f u) vs) @ c # x = f w @ concat (map (\<lambda>u. CHR '','' # f u) ws') @ c # y"
    using Cons.prems(2) ws by simp
  then have "v = w" "concat (map (\<lambda>u. CHR '','' # f u) vs) @ c # x = concat (map (\<lambda>u. CHR '','' # f u) ws') @ c # y"
    using Cons.prems(1) [of v w, OF _ _ ends ends] ws by auto
  then show ?case using Cons.IH [of ws'] Cons.prems(1) ws by auto
qed

lemma join_prefix:
  assumes "\<And>v w x y. v \<in> set vs \<Longrightarrow> w \<in> set ws \<Longrightarrow> ends_number x \<Longrightarrow> ends_number y \<Longrightarrow> f v @ x = f w @ y \<Longrightarrow> v = w \<and> x = y"
    and "c \<noteq> CHR '',''" "\<not> number_char c" and open_char: "\<And>v. v \<in> set vs \<union> set ws \<Longrightarrow> \<exists>a as. f v = a # as \<and> a \<noteq> c"
    and eq: "join '','' (map f vs) @ c # x = join '','' (map f ws) @ c # y"
  shows "vs = ws \<and> x = y"
proof (cases "vs = [] \<or> ws = []")
  case True
  then show ?thesis using eq open_char by (cases vs; cases ws) (fastforce simp: join_Cons)+
next
  case False
  then have "concat (map (\<lambda>u. CHR '','' # f u) vs) @ c # x = concat (map (\<lambda>u. CHR '','' # f u) ws) @ c # y"
    using eq by (cases vs; cases ws) (simp_all add: join_Cons comp_def)
  from tail_prefix [OF assms(1-3) this] show ?thesis by blast
qed

fun normal_value :: "Value \<Rightarrow> bool" where
  "normal_value (Number n) = normal_number n"
| "normal_value (Array vs) = (\<forall>v \<in> set vs. normal_value v)"
| "normal_value (Object kvs) = (\<forall>kv \<in> set kvs. normal_value (snd kv))"
| "normal_value v = True"

lemma snd_in_snds: "snd kv \<in> Basic_BNFs.snds kv"
  by (metis snds.intros prod.collapse)

lemma normal_sort_value: "normal_value v \<Longrightarrow> normal_value (sort_value v)"
proof (induction v)
  case (Object kvs)
  have "normal_value (sort_value (snd kv))" if "kv \<in> set kvs" for kv
    using that Object.IH [OF that snd_in_snds] Object.prems by simp
  then show ?case by auto
qed simp_all

text \<open>The first character of a text tells the kind of its value.\<close>

lemma number_start:
  assumes "float_format fmt" "normal_number n"
  shows "\<exists>a as. number_to_string fmt n = a # as \<and> number_char a"
  using number_chars [OF assms] by (cases "number_to_string fmt n") auto

lemma letters_no_number: "\<not> number_char (CHR ''n'')" "\<not> number_char (CHR ''t'')" "\<not> number_char (CHR ''f'')"
  "\<not> number_char (CHR 0x22)" "\<not> number_char (CHR ''['')" "\<not> number_char (CHR 0x7B)" "\<not> number_char (CHR '']'')"
  "\<not> number_char (CHR 0x7D)" "\<not> number_char (CHR '','')" "\<not> number_char (CHR '':'')"
  by (simp_all add: number_char_def)

definition kind_char :: "Value \<Rightarrow> char option" where
  "kind_char v = (case v of Null \<Rightarrow> Some (CHR ''n'') | Bool b \<Rightarrow> Some (if b then CHR ''t'' else CHR ''f'') | Number n \<Rightarrow> None
     | String s \<Rightarrow> Some (CHR 0x22) | Array vs \<Rightarrow> Some (CHR ''['') | Object kvs \<Rightarrow> Some (CHR 0x7B))"

lemma render_start:
  assumes "float_format fmt" "normal_value v"
  shows "\<exists>a as. render fmt v = a # as \<and> (case kind_char v of Some c \<Rightarrow> a = c | None \<Rightarrow> number_char a)"
  using assms(2) number_start [OF assms(1)] by (cases v) (auto simp: kind_char_def quoted_def)

lemma render_not_close:
  assumes "float_format fmt" "normal_value v"
  shows "\<exists>a as. render fmt v = a # as \<and> a \<noteq> CHR '']''"
proof -
  obtain a as where a: "render fmt v = a # as" "case kind_char v of Some c \<Rightarrow> a = c | None \<Rightarrow> number_char a"
    using render_start [OF assms] by blast
  have "kind_char v \<noteq> Some (CHR '']'')" by (cases v) (auto simp: kind_char_def)
  then have "a \<noteq> CHR '']''" using a(2) letters_no_number(7) by (auto split: option.splits)
  with a(1) show ?thesis by blast
qed

lemma same_kind:
  assumes "float_format fmt" "normal_value v" "normal_value w" "render fmt v @ x = render fmt w @ y"
  shows "kind_char v = kind_char w"
proof -
  have no: "\<not> number_char c" if "kind_char u = Some c" for u c
    using that letters_no_number by (cases u) (auto simp: kind_char_def split: if_splits)
  obtain a as b bs where "render fmt v = a # as" "render fmt w = b # bs"
    and k: "case kind_char v of Some c \<Rightarrow> a = c | None \<Rightarrow> number_char a" "case kind_char w of Some c \<Rightarrow> b = c | None \<Rightarrow> number_char b"
    using render_start [OF assms(1,2)] render_start [OF assms(1,3)] by blast
  then have "a = b" using assms(4) by simp
  with k show ?thesis using no [of v] no [of w] by (cases "kind_char v"; cases "kind_char w") simp_all
qed

lemma kind_char_eq:
  "kind_char (Number n) = kind_char w \<Longrightarrow> \<exists>m. w = Number m" "kind_char (String s) = kind_char w \<Longrightarrow> \<exists>t. w = String t"
  "kind_char (Array vs) = kind_char w \<Longrightarrow> \<exists>ws. w = Array ws" "kind_char (Object kvs) = kind_char w \<Longrightarrow> \<exists>ws. w = Object ws"
  "kind_char Null = kind_char w \<Longrightarrow> w = Null" "kind_char (Bool b) = kind_char w \<Longrightarrow> w = Bool b"
  by (cases w; simp add: kind_char_def split: if_splits)+

lemma brackets: "CHR '']'' \<noteq> CHR '',''" "CHR 0x7D \<noteq> CHR '',''"
  by simp_all

lemma render_prefix:
  assumes fmt: "float_format fmt"
  shows "normal_value v \<Longrightarrow> normal_value w \<Longrightarrow> ends_number x \<Longrightarrow> ends_number y \<Longrightarrow>
    render fmt v @ x = render fmt w @ y \<Longrightarrow> v = w \<and> x = y"
proof (induction v arbitrary: w x y)
  case (Number n)
  obtain m where w: "w = Number m" using kind_char_eq(1) [OF same_kind [OF fmt Number(1,2,5)]] by blast
  then show ?case using Number number_prefix [OF fmt, of n m x y] by simp
next
  case (String s)
  obtain t where "w = String t" using kind_char_eq(2) [OF same_kind [OF fmt String(1,2,5)]] by blast
  then show ?case using String(5) quoted_prefix [of s x t y] by simp
next
  case (Array vs)
  obtain ws where w: "w = Array ws" using kind_char_eq(3) [OF same_kind [OF fmt Array(2,3,6)]] by blast
  have start: "\<exists>a as. render fmt v = a # as \<and> a \<noteq> CHR '']''" if "v \<in> set vs \<union> set ws" for v
    using that Array(2,3) w by (intro render_not_close [OF fmt]) auto
  have entry: "v = w' \<and> x' = y'" if "v \<in> set vs" "w' \<in> set ws" "ends_number x'" "ends_number y'" "render fmt v @ x' = render fmt w' @ y'"
    for v w' x' y'
    using Array(1) [OF that(1) _ _ that(3,4,5)] Array(2,3) that(1,2) w by simp
  have eq: "join '','' (map (render fmt) vs) @ CHR '']'' # x = join '','' (map (render fmt) ws) @ CHR '']'' # y"
    using Array(6) w by simp
  have "vs = ws \<and> x = y" by (rule join_prefix [OF entry brackets(1) letters_no_number(7) start eq])
  then show ?case using w by simp
next
  case (Object kvs)
  obtain ws where w: "w = Object ws" using kind_char_eq(4) [OF same_kind [OF fmt Object(2,3,6)]] by blast
  let ?f = "\<lambda>kv. quoted (fst kv) @ '':'' @ render fmt (snd kv)"
  have entry: "p = q \<and> x' = y'" if "p \<in> set kvs" "q \<in> set ws" "ends_number x'" "ends_number y'" "?f p @ x' = ?f q @ y'" for p q x' y'
  proof -
    have "fst p = fst q" "render fmt (snd p) @ x' = render fmt (snd q) @ y'"
      using quoted_prefix [of "fst p" "CHR '':'' # render fmt (snd p) @ x'" "fst q" "CHR '':'' # render fmt (snd q) @ y'"] that(5) by simp_all
    moreover have "normal_value (snd p)" "normal_value (snd q)" using Object(2,3) w that(1,2) by auto
    ultimately have "snd p = snd q \<and> x' = y'"
      using Object(1) [OF that(1) snd_in_snds _ _ that(3,4)] by blast
    with \<open>fst p = fst q\<close> show ?thesis by (simp add: prod_eq_iff)
  qed
  have eq: "join '','' (map ?f kvs) @ CHR 0x7D # x = join '','' (map ?f ws) @ CHR 0x7D # y" using Object(6) w by simp
  have start: "\<exists>a as. ?f kv = a # as \<and> a \<noteq> CHR 0x7D" for kv by (simp add: quoted_def)
  have "kvs = ws \<and> x = y" by (rule join_prefix [OF entry brackets(2) letters_no_number(8) start eq])
  then show ?case using w by simp
next
  case Null
  have "w = Null" by (rule kind_char_eq(5) [OF same_kind [OF fmt Null(1,2,5)]])
  then show ?case using Null(5) by simp
next
  case (Bool b)
  have "w = Bool b" by (rule kind_char_eq(6) [OF same_kind [OF fmt Bool(1,2,5)]])
  then show ?case using Bool(5) by simp
qed

lemma canonical_json_inject:
  assumes "float_format fmt" "normal_value v" "normal_value w"
  shows "canonical_json fmt v = canonical_json fmt w \<longleftrightarrow> sort_value v = sort_value w"
  using render_prefix [OF assms(1) normal_sort_value [OF assms(2)] normal_sort_value [OF assms(3)], of "[]" "[]"]
  by (auto simp: canonical_render ends_number_def)

end
