(* ===== verification/Json_Reader.thy ===== *)
theory Json_Reader
  imports Json_Canonical Payload_Encryption
begin

text \<open>
  A reader of JSON texts after RFC 8259, independent of the serializer: white space, all escapes, nesting
  up to 126 levels, below the limit of the crate, integers of 64 bits. It stands for what is documented of the parser of the
  \<^verbatim>\<open>serde_json\<close> crate; how a fraction or an exponent is read is the parameter \<open>rd\<close>. The canonical text of a
  value is read as the value with sorted entries.
\<close>

section \<open>The reader\<close>

fun skip_space :: "string \<Rightarrow> string" where
  "skip_space [] = []"
| "skip_space (c # s) = (if c \<in> {CHR '' '', CHR 0x09, CHR 0x0A, CHR 0x0D} then skip_space s else c # s)"

definition hex_value :: "char \<Rightarrow> nat option" where
  "hex_value c =
     (let n = of_char c
      in if 48 \<le> n \<and> n \<le> 57 then Some (n - 48) else if 65 \<le> n \<and> n \<le> 70 then Some (n - 55)
         else if 97 \<le> n \<and> n \<le> 102 then Some (n - 87) else None)"

text \<open>The character of a short escape.\<close>

definition unescape :: "char \<Rightarrow> char option" where
  "unescape c =
     map_of [(CHR 0x22, CHR 0x22), (CHR 0x5C, CHR 0x5C), (CHR ''/'', CHR ''/''), (CHR ''b'', CHR 0x08),
       (CHR ''f'', CHR 0x0C), (CHR ''n'', CHR 0x0A), (CHR ''r'', CHR 0x0D), (CHR ''t'', CHR 0x09)] c"

text \<open>The code point of four hexadecimal digits, when it is one of the modelled characters.\<close>

definition hex_char :: "char \<Rightarrow> char \<Rightarrow> char \<Rightarrow> char \<Rightarrow> char option" where
  "hex_char a b c d =
     (case (hex_value a, hex_value b, hex_value c, hex_value d) of
        (Some i, Some j, Some k, Some l) \<Rightarrow>
          (let n = ((i * 16 + j) * 16 + k) * 16 + l in if n < 256 then Some (char_of n) else None)
      | _ \<Rightarrow> None)"

text \<open>The characters of a string up to its closing quote.\<close>

fun read_chars :: "string \<Rightarrow> (string \<times> string) option" where
  "read_chars [] = None"
| "read_chars (c # s) =
     (if c = CHR 0x22 then Some ([], s)
      else if c = CHR 0x5C then
        (case s of
           [] \<Rightarrow> None
         | e # s' \<Rightarrow>
             (if e = CHR ''u'' then
                (case s' of
                   h1 # h2 # h3 # h4 # s'' \<Rightarrow>
                     (case hex_char h1 h2 h3 h4 of
                        None \<Rightarrow> None
                      | Some x \<Rightarrow> map_option (\<lambda>(xs, r). (x # xs, r)) (read_chars s''))
                 | _ \<Rightarrow> None)
              else case unescape e of
                     None \<Rightarrow> None
                   | Some x \<Rightarrow> map_option (\<lambda>(xs, r). (x # xs, r)) (read_chars s')))
      else if of_char c < (32 :: nat) then None
      else map_option (\<lambda>(xs, r). (c # xs, r)) (read_chars s))"

definition digits_value :: "string \<Rightarrow> nat" where
  "digits_value s = foldl (\<lambda>n c. n * 10 + (of_char c - 48)) 0 s"

text \<open>Digits without a superfluous leading zero.\<close>

definition is_integer :: "string \<Rightarrow> bool" where
  "is_integer s \<longleftrightarrow> s \<noteq> [] \<and> list_all is_digit s \<and> (hd s = CHR ''0'' \<longrightarrow> length s = 1)"

definition read_number :: "(string \<Rightarrow> f64 option) \<Rightarrow> string \<Rightarrow> Number option" where
  "read_number rd s =
     (if is_integer s \<and> digits_value s < 2 ^ 64 then Some (PosInt (digits_value s))
      else if s \<noteq> [] \<and> hd s = CHR ''-'' \<and> is_integer (tl s) \<and> 0 < digits_value (tl s) \<and> digits_value (tl s) \<le> 2 ^ 63
        then Some (NegInt (- int (digits_value (tl s))))
      else if \<exists>c \<in> set s. c \<in> set ''.eE'' then map_option JFloat (rd s)
      else None)"

text \<open>One or more entries, each read by \<open>p\<close>, separated by commas and ended by the bracket \<open>close\<close>;
  every entry takes at least one character, so the length of the text is fuel enough.\<close>

fun read_entries :: "(string \<Rightarrow> ('a \<times> string) option) \<Rightarrow> char \<Rightarrow> nat \<Rightarrow> string \<Rightarrow> ('a list \<times> string) option" where
  "read_entries p close 0 s = None"
| "read_entries p close (Suc k) s =
     (case p s of
        None \<Rightarrow> None
      | Some (x, r) \<Rightarrow>
          (case skip_space r of
             [] \<Rightarrow> None
           | c # r' \<Rightarrow>
               (if c = close then Some ([x], r')
                else if c = CHR '','' then map_option (\<lambda>(xs, r). (x # xs, r)) (read_entries p close k r')
                else None)))"

definition read_list :: "(string \<Rightarrow> ('a \<times> string) option) \<Rightarrow> char \<Rightarrow> string \<Rightarrow> ('a list \<times> string) option" where
  "read_list p close s =
     (case skip_space s of
        [] \<Rightarrow> None
      | c # r \<Rightarrow> if c = close then Some ([], r) else read_entries p close (length s) (c # r))"

definition read_member :: "(string \<Rightarrow> (Value \<times> string) option) \<Rightarrow> string \<Rightarrow> ((string \<times> Value) \<times> string) option" where
  "read_member p s =
     (case skip_space s of
        [] \<Rightarrow> None
      | c # r \<Rightarrow>
          (if c \<noteq> CHR 0x22 then None
           else case read_chars r of
                  None \<Rightarrow> None
                | Some (k, r1) \<Rightarrow>
                    (case skip_space r1 of
                       [] \<Rightarrow> None
                     | d # r2 \<Rightarrow> if d = CHR '':'' then map_option (\<lambda>(v, r3). ((k, v), r3)) (p r2) else None)))"

definition read_literal :: "string \<Rightarrow> Value \<Rightarrow> string \<Rightarrow> (Value \<times> string) option" where
  "read_literal word v s = (if take (length word) s = word then Some (v, drop (length word) s) else None)"

text \<open>A value nested at most \<open>n - 1\<close> levels deep. An object with a repeated key is left open.\<close>

fun read_value :: "(string \<Rightarrow> f64 option) \<Rightarrow> nat \<Rightarrow> string \<Rightarrow> (Value \<times> string) option" where
  "read_value rd 0 s = None"
| "read_value rd (Suc n) s =
     (case skip_space s of
        [] \<Rightarrow> None
      | c # r \<Rightarrow>
          (if c = CHR 0x22 then map_option (\<lambda>(xs, r'). (String xs, r')) (read_chars r)
           else if c = CHR ''['' then map_option (\<lambda>(vs, r'). (Array vs, r')) (read_list (read_value rd n) (CHR '']'') r)
           else if c = CHR 0x7B then
             (case read_list (read_member (read_value rd n)) (CHR 0x7D) r of
                None \<Rightarrow> None
              | Some (kvs, r') \<Rightarrow> if distinct (map fst kvs) then Some (Object kvs, r') else None)
           else if c = CHR ''n'' then read_literal ''null'' Null (c # r)
           else if c = CHR ''t'' then read_literal ''true'' (Bool True) (c # r)
           else if c = CHR ''f'' then read_literal ''false'' (Bool False) (c # r)
           else map_option (\<lambda>m. (Number m, dropWhile number_char (c # r))) (read_number rd (takeWhile number_char (c # r)))))"

definition read_json :: "(string \<Rightarrow> f64 option) \<Rightarrow> string \<Rightarrow> Value option" where
  "read_json rd s =
     (case read_value rd 127 s of
        None \<Rightarrow> None
      | Some (v, r) \<Rightarrow> if skip_space r = [] then Some v else None)"

section \<open>Reading the canonical text\<close>

text \<open>The strings.\<close>

lemma hex_value_digit: "d < 16 \<Longrightarrow> hex_value (digit_char d) = Some d"
  by (simp add: hex_value_def Let_def of_char_digit_char)

lemma hex_char_byte:
  assumes "n < 256"
  shows "hex_char (CHR ''0'') (CHR ''0'') (digit_char (n div 16)) (digit_char (n mod 16)) = Some (char_of n)"
proof -
  have "hex_value (CHR ''0'') = Some 0" by code_simp
  moreover have "n div 16 < 16" "n mod 16 < 16" using assms by simp_all
  moreover have "n div 16 * 16 + n mod 16 = n" by (simp add: div_mult_mod_eq)
  ultimately show ?thesis using assms by (simp add: hex_char_def hex_value_digit Let_def)
qed

lemma unescape_short: "short_escape m = Some e \<Longrightarrow> e \<noteq> CHR ''u'' \<and> unescape e = Some (char_of m)"
proof -
  let ?short = "[(34 :: nat, CHR 0x22), (92, CHR 0x5C), (8, CHR ''b''), (12, CHR ''f''), (10, CHR ''n''), (13, CHR ''r''), (9, CHR ''t'')]"
  have "\<forall>p \<in> set ?short. snd p \<noteq> CHR ''u'' \<and> unescape (snd p) = Some (char_of (fst p))" by code_simp
  moreover assume "short_escape m = Some e"
  then have "(m, e) \<in> set ?short" unfolding short_escape_def by (rule map_of_SomeD)
  ultimately show "e \<noteq> CHR ''u'' \<and> unescape e = Some (char_of m)" by force
qed

lemma read_escape:
  assumes "m < 256" "read_chars s = Some (xs, r)"
  shows "read_chars (escape_code m @ s) = Some (char_of m # xs, r)"
proof (cases "short_escape m")
  case (Some e)
  then show ?thesis using assms unescape_short [OF Some] by (simp add: escape_code_cases)
next
  case None
  show ?thesis
  proof (cases "m < 32 \<or> 126 < m")
    case True
    then show ?thesis using assms None by (simp add: escape_code_cases hex4_byte hex_char_byte)
  next
    case False
    have "m \<noteq> 34" "m \<noteq> 92" using None by (auto simp: short_escape_def)
    then show ?thesis using assms None False by (simp add: escape_code_cases char_of_eq_quote)
  qed
qed

lemma read_quoted: "read_chars (escape_string s @ CHR 0x22 # x) = Some (s, x)"
  by (induction s) (simp_all add: escape_string_Cons read_escape)

text \<open>The numbers.\<close>

lemma digits_value_snoc: "digits_value (s @ [c]) = digits_value s * 10 + (of_char c - 48)"
  by (simp add: digits_value_def)

lemma show_nat_step: "show_nat n = (if n < 10 then [] else show_nat (n div 10)) @ [digit_char (n mod 10)]"
  by (subst show_base.simps) simp

lemma digits_show_nat: "digits_value (show_nat n) = n"
proof (induction n rule: less_induct)
  case (less n)
  have d: "of_char (digit_char (n mod 10)) - 48 = n mod 10" by (simp add: of_char_digit_char)
  show ?case
  proof (cases "n < 10")
    case True
    then show ?thesis using d by (simp add: show_nat_step [of n] digits_value_def)
  next
    case False
    then have "digits_value (show_nat n) = n div 10 * 10 + n mod 10"
      using less [of "n div 10"] d by (simp add: show_nat_step [of n] digits_value_snoc)
    then show ?thesis by (simp add: div_mult_mod_eq)
  qed
qed

lemma show_nat_no_zero: "0 < n \<Longrightarrow> hd (show_nat n) \<noteq> CHR ''0''"
proof (induction n rule: less_induct)
  case (less n)
  show ?case
  proof (cases "n < 10")
    case True
    have "(of_char (digit_char n) :: nat) \<noteq> of_char (CHR ''0'')" using True less.prems by (simp add: of_char_digit_char)
    then show ?thesis using True by (auto simp: show_nat_step [of n])
  next
    case False
    then show ?thesis using less.IH [of "n div 10"] by (simp add: show_nat_step [of n] hd_append)
  qed
qed

lemma is_integer_show_nat: "is_integer (show_nat n)"
proof (cases "n = 0")
  case True
  have "is_integer (show_nat 0)" by code_simp
  then show ?thesis using True by simp
next
  case False
  then show ?thesis using show_nat_digits [of n] show_nat_no_zero [of n] by (simp add: is_integer_def)
qed

text \<open>What must hold of a value for its text to be read: integers of 64 bits, floats that \<open>rd\<close> reads back,
  distinct keys; and nesting within a depth.\<close>

fun readable_number :: "(string \<Rightarrow> f64 option) \<Rightarrow> (f64 \<Rightarrow> string) \<Rightarrow> Number \<Rightarrow> bool" where
  "readable_number rd fmt (PosInt n) = (n < 2 ^ 64)"
| "readable_number rd fmt (NegInt i) = (i < 0 \<and> - (2 ^ 63) \<le> i)"
| "readable_number rd fmt (JFloat x) =
     (rd (fmt x) = Some x \<and> list_all number_char (fmt x) \<and> (\<exists>c \<in> set (fmt x). c \<in> set ''.eE''))"

fun readable :: "(string \<Rightarrow> f64 option) \<Rightarrow> (f64 \<Rightarrow> string) \<Rightarrow> Value \<Rightarrow> bool" where
  "readable rd fmt (Number n) = readable_number rd fmt n"
| "readable rd fmt (Array vs) = (\<forall>v \<in> set vs. readable rd fmt v)"
| "readable rd fmt (Object kvs) = (distinct (map fst kvs) \<and> (\<forall>kv \<in> set kvs. readable rd fmt (snd kv)))"
| "readable rd fmt v = True"

fun nested :: "nat \<Rightarrow> Value \<Rightarrow> bool" where
  "nested n (Array vs) = (0 < n \<and> (\<forall>v \<in> set vs. nested (n - 1) v))"
| "nested n (Object kvs) = (0 < n \<and> (\<forall>kv \<in> set kvs. nested (n - 1) (snd kv)))"
| "nested n v = True"

lemma number_text:
  assumes "readable_number rd fmt n"
  shows "list_all number_char (number_to_string fmt n)" "number_to_string fmt n \<noteq> []"
    "read_number rd (number_to_string fmt n) = Some n"
proof -
  have digits: "list_all number_char (show_nat k)" for k
    using show_nat_digits [of k] digit_facts(1) by (simp add: list_all_iff)
  have minus: "\<not> is_integer (CHR ''-'' # s)" for s by (simp add: is_integer_def is_digit_def)
  show "list_all number_char (number_to_string fmt n)"
    using assms digits by (cases n) (simp_all add: show_int_neg digit_facts(4))
  show "number_to_string fmt n \<noteq> []" using assms by (cases n) (auto simp: show_int_neg)
  show "read_number rd (number_to_string fmt n) = Some n"
  proof (cases n)
    case (PosInt k)
    then show ?thesis using assms by (simp add: read_number_def is_integer_show_nat digits_show_nat)
  next
    case (NegInt i)
    then have i: "i < 0" "nat (- i) \<le> 2 ^ 63" "- int (nat (- i)) = i" using assms by (simp_all add: nat_le_iff)
    then show ?thesis using NegInt minus
      by (simp add: read_number_def show_int_neg is_integer_show_nat digits_show_nat)
  next
    case (JFloat x)
    then obtain c where c: "c \<in> set (fmt x)" "c \<in> set ''.eE''" and rd: "rd (fmt x) = Some x" using assms by auto
    then have "\<not> is_digit c" using digit_facts(3) [of c] by blast
    moreover have "c \<noteq> CHR ''-''" using c(2) by auto
    ultimately have "\<not> is_integer (fmt x)" "\<not> (fmt x \<noteq> [] \<and> hd (fmt x) = CHR ''-'' \<and> is_integer (tl (fmt x)))"
      using c(1) by (cases "fmt x"; auto simp: is_integer_def list_all_iff)+
    then show ?thesis using JFloat rd c by (auto simp: read_number_def)
  qed
qed

text \<open>Entries and their brackets.\<close>

definition is_space :: "char \<Rightarrow> bool" where
  "is_space c \<longleftrightarrow> c \<in> {CHR '' '', CHR 0x09, CHR 0x0A, CHR 0x0D}"

lemma skip_space_Cons [simp]: "\<not> is_space c \<Longrightarrow> skip_space (c # s) = c # s"
  by (simp add: is_space_def)

declare skip_space.simps(2) [simp del]
declare read_value.simps(2) [simp del]

lemma not_space:
  "\<not> is_space (CHR 0x22)" "\<not> is_space (CHR ''['')" "\<not> is_space (CHR '']'')" "\<not> is_space (CHR 0x7B)" "\<not> is_space (CHR 0x7D)"
  "\<not> is_space (CHR '','')" "\<not> is_space (CHR '':'')" "\<not> is_space (CHR ''n'')" "\<not> is_space (CHR ''t'')" "\<not> is_space (CHR ''f'')"
  "number_char c \<Longrightarrow> \<not> is_space c"
  by (auto simp: is_space_def number_char_def)

lemma read_entries_join:
  assumes "\<And>e x. e \<in> set (e0 # es) \<Longrightarrow> ends_number x \<Longrightarrow> p (f e @ x) = Some (e, x)"
    and close: "close \<noteq> CHR '',''" "\<not> number_char close" "\<not> is_space close" and "length es < k"
  shows "read_entries p close k (f e0 @ concat (map (\<lambda>e. CHR '','' # f e) es) @ close # x) = Some (e0 # es, x)"
  using assms(1,5)
proof (induction es arbitrary: e0 k)
  case Nil
  then obtain j where "k = Suc j" by (cases k) auto
  then show ?case using Nil.prems(1) [of e0 "close # x"] close by (simp add: ends_number_def)
next
  case (Cons e es)
  then obtain j where k: "k = Suc j" "length es < j" by (cases k) auto
  have "ends_number (CHR '','' # s)" for s by (simp add: ends_number_def number_char_def)
  then show ?case using Cons.prems(1) [of e0] Cons.IH [of e j] Cons.prems(1) k close(1) not_space(6) by simp
qed

lemma read_list_join:
  assumes "\<And>e x. e \<in> set es \<Longrightarrow> ends_number x \<Longrightarrow> p (f e @ x) = Some (e, x)"
    and close: "close \<noteq> CHR '',''" "\<not> number_char close" "\<not> is_space close"
    and start: "\<And>e. e \<in> set es \<Longrightarrow> \<exists>a as. f e = a # as \<and> a \<noteq> close \<and> \<not> is_space a"
  shows "read_list p close (join '','' (map f es) @ close # x) = Some (es, x)"
proof (cases es)
  case Nil
  then show ?thesis using close(3) by (simp add: read_list_def)
next
  case (Cons e0 es')
  obtain a as where a: "f e0 = a # as" "a \<noteq> close" "\<not> is_space a" using start [of e0] Cons by auto
  let ?s = "f e0 @ concat (map (\<lambda>e. CHR '','' # f e) es') @ close # x"
  have s: "join '','' (map f es) @ close # x = ?s" by (simp add: Cons join_Cons comp_def)
  have "length es' \<le> length (concat (map (\<lambda>e. CHR '','' # f e) es'))" by (induction es') auto
  then have "read_entries p close (length ?s) ?s = Some (e0 # es', x)"
    by (intro read_entries_join [OF assms(1) close]) (simp_all add: Cons)
  then show ?thesis unfolding s using a Cons by (simp add: read_list_def)
qed

lemma render_opens:
  assumes "readable rd fmt v"
  shows "\<exists>a as. render fmt v = a # as \<and> \<not> is_space a \<and> a \<noteq> CHR '']''"
proof (cases v)
  case (Number n)
  then obtain a as where "number_to_string fmt n = a # as" "number_char a"
    using number_text(1,2) [of rd fmt n] assms by (cases "number_to_string fmt n") auto
  then show ?thesis using Number not_space(11) letters_no_number(7) by auto
qed (auto simp: quoted_def not_space)

text \<open>How the first character decides.\<close>

lemma read_value_kinds:
  "read_value rd (Suc n) (CHR 0x22 # r) = map_option (\<lambda>(xs, r'). (String xs, r')) (read_chars r)"
  "read_value rd (Suc n) (CHR ''['' # r) = map_option (\<lambda>(vs, r'). (Array vs, r')) (read_list (read_value rd n) (CHR '']'') r)"
  "read_value rd (Suc n) (CHR 0x7B # r) =
     (case read_list (read_member (read_value rd n)) (CHR 0x7D) r of
        None \<Rightarrow> None
      | Some (kvs, r') \<Rightarrow> if distinct (map fst kvs) then Some (Object kvs, r') else None)"
  "read_value rd (Suc n) (CHR ''n'' # r) = read_literal ''null'' Null (CHR ''n'' # r)"
  "read_value rd (Suc n) (CHR ''t'' # r) = read_literal ''true'' (Bool True) (CHR ''t'' # r)"
  "read_value rd (Suc n) (CHR ''f'' # r) = read_literal ''false'' (Bool False) (CHR ''f'' # r)"
  by (simp_all add: read_value.simps(2) not_space)

lemma read_value_number:
  assumes "number_char c"
  shows "read_value rd (Suc n) (c # r) =
     map_option (\<lambda>m. (Number m, dropWhile number_char (c # r))) (read_number rd (takeWhile number_char (c # r)))"
proof -
  have "c \<noteq> CHR 0x22" "c \<noteq> CHR ''[''" "c \<noteq> CHR 0x7B" "c \<noteq> CHR ''n''" "c \<noteq> CHR ''t''" "c \<noteq> CHR ''f''"
    using assms letters_no_number by metis+
  then show ?thesis using not_space(11) [OF assms] unfolding read_value.simps(2) by simp
qed

lemma read_render:
  "readable rd fmt v \<Longrightarrow> nested n v \<Longrightarrow> ends_number x \<Longrightarrow> read_value rd (Suc n) (render fmt v @ x) = Some (v, x)"
proof (induction v arbitrary: n x)
  case (Number m)
  note t = number_text [of rd fmt m]
  obtain a as where a: "number_to_string fmt m = a # as" using t(2) Number.prems by (cases "number_to_string fmt m") auto
  have num: "number_char a" using t(1) Number.prems a by simp
  have all: "\<forall>c \<in> set (number_to_string fmt m). number_char c" using t(1) Number.prems by (simp add: list_all_iff)
  have "takeWhile number_char (number_to_string fmt m @ x) = number_to_string fmt m" "dropWhile number_char (number_to_string fmt m @ x) = x"
    using all Number.prems(3) by (cases x; auto simp: ends_number_def takeWhile_append dropWhile_append)+
  then show ?case using t(3) Number.prems a read_value_number [OF num, of rd n "as @ x"] by simp
next
  case (String s)
  then show ?case using read_quoted [of s x] by (simp add: quoted_def read_value_kinds)
next
  case (Array vs)
  then obtain m where n: "n = Suc m" by (cases n) auto
  have "read_value rd (Suc m) (render fmt v @ y) = Some (v, y)" if "v \<in> set vs" "ends_number y" for v y
    using Array that n by simp
  moreover have "\<exists>a as. render fmt v = a # as \<and> a \<noteq> CHR '']'' \<and> \<not> is_space a" if "v \<in> set vs" for v
    using render_opens [of rd fmt v] Array.prems(1) that by auto
  ultimately have "read_list (read_value rd (Suc m)) (CHR '']'') (join '','' (map (render fmt) vs) @ CHR '']'' # x) = Some (vs, x)"
    by (intro read_list_join) (simp_all add: letters_no_number not_space)
  then show ?case using n by (simp add: read_value_kinds)
next
  case (Object kvs)
  then obtain m where n: "n = Suc m" by (cases n) auto
  let ?f = "\<lambda>kv. quoted (fst kv) @ '':'' @ render fmt (snd kv)"
  have "read_member (read_value rd (Suc m)) (?f kv @ y) = Some (kv, y)" if "kv \<in> set kvs" "ends_number y" for kv y
  proof -
    have "read_value rd (Suc m) (render fmt (snd kv) @ y) = Some (snd kv, y)"
      using Object that n snd_in_snds [of kv] by simp
    then show ?thesis using read_quoted [of "fst kv" "CHR '':'' # render fmt (snd kv) @ y"]
      by (simp add: read_member_def quoted_def not_space)
  qed
  moreover have "\<exists>a as. ?f kv = a # as \<and> a \<noteq> CHR 0x7D \<and> \<not> is_space a" for kv by (simp add: quoted_def not_space)
  ultimately have "read_list (read_member (read_value rd (Suc m))) (CHR 0x7D) (join '','' (map ?f kvs) @ CHR 0x7D # x) = Some (kvs, x)"
    by (intro read_list_join) (simp_all add: letters_no_number not_space)
  then show ?case using Object.prems(1) n by (simp add: read_value_kinds)
qed (simp_all add: read_literal_def read_value_kinds)

lemma readable_sort_value: "readable rd fmt v \<Longrightarrow> readable rd fmt (sort_value v)"
proof (induction v)
  case (Object kvs)
  let ?m = "map (\<lambda>kv. (fst kv, sort_value (snd kv))) kvs"
  have "distinct (map fst ?m)" using Object.prems by (simp add: comp_def)
  moreover have "mset (map fst (sort_key fst ?m)) = mset (map fst ?m)" by (simp only: mset_map mset_sort)
  ultimately have "distinct (map fst (sort_key fst ?m))" using mset_eq_imp_distinct_iff by blast
  moreover have "readable rd fmt (sort_value (snd kv))" if "kv \<in> set kvs" for kv
    using that Object.IH [OF that snd_in_snds] Object.prems by simp
  ultimately show ?case by auto
qed simp_all

lemma nested_sort_value: "nested n v \<Longrightarrow> nested n (sort_value v)"
proof (induction v arbitrary: n)
  case (Object kvs)
  have "nested (n - 1) (sort_value (snd kv))" if "kv \<in> set kvs" for kv
    using that Object.IH [OF that snd_in_snds] Object.prems by simp
  then show ?case using Object.prems by auto
qed simp_all

lemma read_canonical:
  assumes "readable rd fmt v" "nested 126 v"
  shows "read_json rd (canonical_json fmt v) = Some (sort_value v)"
proof -
  have "ends_number []" by (simp add: ends_number_def)
  from read_render [OF readable_sort_value [OF assms(1)] nested_sort_value [OF assms(2)] this]
  have "read_value rd (Suc 126) (render fmt (sort_value v)) = Some (sort_value v, [])" by (simp only: append_Nil2)
  moreover have "(127 :: nat) = Suc 126" by simp
  ultimately have "read_value rd 127 (render fmt (sort_value v)) = Some (sort_value v, [])" by (simp only:)
  then show ?thesis by (simp only: read_json_def canonical_render option.case prod.case skip_space.simps(1) if_True simp_thms)
qed

section \<open>The parser of the crate\<close>

lemma sort_value_idem [simp]: "sort_value (sort_value v) = sort_value v"
proof (induction v)
  case (Object kvs)
  let ?m = "map (\<lambda>kv. (fst kv, sort_value (snd kv))) kvs"
  have "map (\<lambda>kv. (fst kv, sort_value (snd kv))) ?m = ?m" using Object.IH [OF _ snd_in_snds] by simp
  then have "sort_key fst (map (\<lambda>kv. (fst kv, sort_value (snd kv))) (sort_key fst ?m)) = sort_key fst (sort_key fst ?m)"
    by (simp only: sort_key_map_snd [symmetric])
  then show ?case by (simp add: sort_key_id_if_sorted)
qed simp_all

text \<open>\<^verbatim>\<open>from_slice\<close> reads the UTF-8 encoding of a JSON text; the map of an object is ordered by key.\<close>

definition json_ok :: "(string \<Rightarrow> f64 option) \<Rightarrow> crypto \<Rightarrow> bool" where
  "json_ok rd cr \<longleftrightarrow> (\<forall>s v. read_json rd s = Some v \<longrightarrow> json_from_slice cr (as_bytes s) = Inr (sort_value v))"

lemma canonical_parsed:
  assumes "json_ok rd cr" "readable rd (json_float cr) v" "nested 126 v"
  shows "json_from_slice cr (as_bytes (canonical_json (json_float cr) v)) = Inr (sort_value v)"
  using assms(1) read_canonical [OF assms(2,3)] by (simp add: json_ok_def)

text \<open>A parser that does so: the reader after a decoder.\<close>

fun of_utf8 :: "bytes \<Rightarrow> string" where
  "of_utf8 [] = []"
| "of_utf8 [b] = [char_of (unat b)]"
| "of_utf8 (b # c # bs) =
     (if b < 128 then char_of (unat b) # of_utf8 (c # bs)
      else char_of (unat (b - 192) * 64 + unat (c - 128)) # of_utf8 bs)"

lemma of_utf8_ascii: "b < 128 \<Longrightarrow> of_utf8 (b # bs) = char_of (unat b) # of_utf8 bs"
  by (cases bs) simp_all

lemma byte_low: "n < 128 \<Longrightarrow> (of_nat n :: u8) < 128 \<and> unat (of_nat n :: u8) = n"
  by (simp add: word_less_nat_alt unsigned_of_nat take_bit_eq_mod)

lemma byte_high:
  assumes "128 \<le> n" "n < 256"
  shows "\<not> (of_nat (192 + n div 64) :: u8) < 128"
    "unat ((of_nat (192 + n div 64) :: u8) - 192) * 64 + unat ((of_nat (128 + n mod 64) :: u8) - 128) = n"
proof -
  have d: "n div 64 < 4" "n mod 64 < 64" using assms(2) by simp_all
  show "\<not> (of_nat (192 + n div 64) :: u8) < 128"
    using d(1) by (simp add: word_less_nat_alt unsigned_of_nat take_bit_eq_mod del: of_nat_add)
  have "(of_nat (192 + n div 64) :: u8) - 192 = of_nat (n div 64)" "(of_nat (128 + n mod 64) :: u8) - 128 = of_nat (n mod 64)"
    by simp_all
  then show "unat ((of_nat (192 + n div 64) :: u8) - 192) * 64 + unat ((of_nat (128 + n mod 64) :: u8) - 128) = n"
    using d by (simp add: unsigned_of_nat take_bit_eq_mod)
qed

lemma of_utf8_as_bytes [simp]: "of_utf8 (as_bytes s) = s"
proof (induction s)
  case (Cons c s)
  have c: "(of_char c :: nat) < 256" by simp
  show ?case
  proof (cases "(of_char c :: nat) < 128")
    case True
    then show ?thesis using Cons byte_low [OF True] of_utf8_ascii [of "of_nat (of_char c)" "as_bytes s"]
      by (simp add: as_bytes_def char_utf8_def Let_def)
  next
    case False
    then show ?thesis using Cons byte_high [of "of_char c"] c
      by (simp add: as_bytes_def char_utf8_def Let_def del: of_nat_add)
  qed
qed (simp add: as_bytes_def)

definition reference_parser :: "(string \<Rightarrow> f64 option) \<Rightarrow> bytes \<Rightarrow> string + Value" where
  "reference_parser rd bs = (case read_json rd (of_utf8 bs) of None \<Rightarrow> Inl ''syntax'' | Some v \<Rightarrow> Inr (sort_value v))"

lemma reference_parser_ok: "json_from_slice cr = reference_parser rd \<Longrightarrow> json_ok rd cr"
  by (simp add: json_ok_def reference_parser_def)

end
