(* ===== verification/Sample_World.thy ===== *)
theory Sample_World
  imports Agent_Safety Json_Reader
begin

text \<open>
  Concrete instances: a server that accepts everything and one that always fails, an invertible stand-in
  for the cryptographic crates, a configuration, a transport and an agent. The witnesses of the
  properties evaluate the model on them.
\<close>

definition sample_crypto :: crypto where
  "sample_crypto =
     \<lparr> b64_encode = (\<lambda>bs. map (\<lambda>b. char_of (unat b)) bs @ ''.''),
       b64_decode = (\<lambda>s. Inr (map (\<lambda>c. of_nat (of_char c)) (butlast s))),
       aead_encrypt = (\<lambda>key nonce aad msg. Inr (msg @ replicate 16 0)),
       aead_decrypt = (\<lambda>key nonce aad c. Inr (take (length c - 16) c)),
       json_from_slice = reference_parser (\<lambda>_. None),
       json_float = (\<lambda>_. ''0'') \<rparr>"

definition accepted_response :: HttpResponse where
  "accepted_response = \<lparr> resp_status = 202, resp_retry_after = None, resp_text = Inr [] \<rparr>"

definition error_response :: HttpResponse where
  "error_response = \<lparr> resp_status = 500, resp_retry_after = None, resp_text = Inr [] \<rparr>"

definition sample_ext :: externals where
  "sample_ext =
     \<lparr> http = (\<lambda>sent now. (Inr accepted_response, 1)), oversleep = (\<lambda>_. 0), system_time = int,
       uuid_draw = (\<lambda>n. replicate 32 (CHR ''0'')), nonce_draw = (\<lambda>n. replicate 12 0),
       hmac_sha256 = (\<lambda>key msg. replicate 32 0), gzip_encode = Some, crypt = sample_crypto,
       header_value_ok = (\<lambda>_. True), client_build = (\<lambda>_ _. Inr ()),
       events_to_value = (\<lambda>es. Inr (Array [])), metrics_to_value = (\<lambda>ms. Inr (Array [])),
       value_to_vec = (\<lambda>v. Inr [1, 2, 3]), status_to_vec = (\<lambda>s. Inr [4]),
       value_from_str = (\<lambda>s. Inr (Object [])), ack_from_str = (\<lambda>s. Inl ''none''),
       rules_from_value = (\<lambda>v. Inr (rules_default 0)), datetime_to_string = (\<lambda>_. ''1970''),
       event_to_string = (\<lambda>e. Inr (ev_event_type e)), metric_to_string = (\<lambda>m. Inr ''m''),
       event_from_str = (\<lambda>s. Inr (event_new (replicate 32 (CHR ''0'')) 0 s)), metric_from_str = (\<lambda>s. Inr (metric_new 0 RequestCount (Fin 1))) \<rparr>"

definition failing_ext :: externals where
  "failing_ext = sample_ext\<lparr>http := (\<lambda>sent now. (Inr error_response, 1))\<rparr>"

definition sample_config :: AgentConfig where
  "sample_config = (config_new ''0123456789'')\<lparr>retry_attempts := 0, high_watermark_ratio := Fin 1, buffer_size := 2\<rparr>"

definition sample_transport :: HttpTransport where
  "sample_transport =
     \<lparr> client_headers = [], tr_config = sample_config, breaker = breaker_default,
       rate_limiter = limiter_new RATE_LIMIT_MAX_CALLS (from_secs RATE_LIMIT_WINDOW_SECS),
       requests_sent = 0, requests_failed = 0, bytes_sent = 0, encryptor = None \<rparr>"

definition sample_world :: "'st \<Rightarrow> 'st World" where
  "sample_world st = \<lparr> clock = 0, draws = 0, wire = [], sent_at = [], hook_calls = [], store = st, panicked = False \<rparr>"

definition sample_event :: SecurityEvent where
  "sample_event = event_new (replicate 32 (CHR ''0'')) 0 ''ip_banned''"

definition sample_metric :: SecurityMetric where
  "sample_metric = metric_new 0 RequestCount (Fin 1)"

definition sample_core :: "'st CoreState" where
  "sample_core = core_new\<lparr>events := [\<lparr> item = sample_event, redis_key = None \<rparr>],
                          metrics := [\<lparr> item = sample_metric, redis_key = None \<rparr>]\<rparr>"

definition sample_shared :: "'st Shared" where
  "sample_shared =
     \<lparr> config = sample_config, sh_install_id = ''id'', transport = sample_transport,
       redactor = redactor_new (sensitive_headers sample_config), core = sample_core, flush_permits = 1,
       inflight = 0, started_at = 0, running = True \<rparr>"

lemmas sample_defs =
  sample_ext_def failing_ext_def sample_config_def sample_transport_def sample_world_def sample_core_def sample_shared_def
  accepted_response_def error_response_def config_new_def

lemma total_attempts_sample [simp]: "total_attempts sample_config = 1"
  by (simp add: total_attempts_def sample_config_def config_new_def unat_saturating_add)

lemma sample_transport_ok: "transport_ok (sample_transport, sample_world st)"
  by (simp add: transport_ok_def sample_defs const_defs limiter_new_def)

lemma sample_agent_ok: "agent_ok (sample_shared, sample_world st)"
  using sample_transport_ok [of st]
  by (simp add: agent_ok_def sample_shared_def sample_core_def core_new_def sample_config_def config_new_def)

text \<open>One pass of the retry loop against the accepting and the failing server.\<close>

lemma sample_may_send: "may_send (sample_transport, sample_world st)"
  by (simp add: may_send_def sample_transport_def sample_world_def acquire_def admit_def limiter_new_def
      breaker_default_def breaker_new_def const_defs)

lemma send_accepted: "fst (send_with_retry sample_ext label body (sample_transport, sample_world st)) = Inr Accepted"
  using sample_may_send [of st]
  by (simp add: send_with_retry_def sample_transport_def Let_def send_body_may_send after_post_def attempt_post_def
      http_send_def gated_def case_prod_beta)
     (simp add: sample_ext_def classify_attempt_def classify_response_def accepted_response_def)

end
