(* ===== verification/Transport_Theorems.thy ===== *)
theory Transport_Theorems
  imports Sample_World
begin

text \<open>
  The properties of the transport, each with a witness on the sample instances where it has hypotheses:
  confirmed batches are settled by the server, the number and content of the requests, the limiter and
  the breaker in front of every request, encryption, classification of answers, and absence of panics.
\<close>

section \<open>Confirmation\<close>

text \<open>C3: When \<^verbatim>\<open>send_batch\<close> reports a plaintext batch as confirmed, the batch is the concatenation of
  parts such that for each part a request carrying exactly that part was put on the wire during the
  call, and the server answered it with an acceptance, with a permanent rejection, or, for a single
  item, with 413.\<close>

theorem send_batch_settles_items:
  assumes "encryptor t = None" and "send_batch ext items (t, w) = (out, t', w')" and "is_confirmed out"
  shows "\<exists>chunks. concat (map batch_events chunks) = batch_events items \<and>
           concat (map batch_metrics chunks) = batch_metrics items \<and>
           list_all (settled ext t (length (wire w)) (wire w')) chunks"
  using send_batch_chunks [OF assms] by metis

lemma sample_send_batch_accepted:
  "is_confirmed (fst (send_batch sample_ext (Events [sample_event]) (sample_transport, sample_world st)))"
proof -
  obtain w1 where w1: "build_batch_body sample_ext sample_config (Events [sample_event]) (sample_world st) = (Inr [1, 2, 3], w1)"
      "w1 = (sample_world st)\<lparr>draws := 1\<rparr>"
    by (simp add: build_batch_body_def sample_ext_def draw_uuid_def split_kinds_def sample_world_def)
  have "may_send (sample_transport, w1)" using sample_may_send [of st] w1(2) by (simp add: may_send_def)
  then have "fst (send_with_retry sample_ext ''events'' [1, 2, 3] (sample_transport, w1)) = Inr Accepted"
    by (simp add: send_with_retry_def sample_transport_def Let_def send_body_may_send after_post_def attempt_post_def
        http_send_def gated_def case_prod_beta)
       (simp add: sample_ext_def classify_attempt_def classify_response_def accepted_response_def)
  then have "\<exists>s'. send_plain sample_ext (Events [sample_event]) (sample_transport, sample_world st) = (Inr (Inr Accepted), s')"
    using w1(1) by (auto simp: send_plain_def sample_transport_def case_prod_beta)
  then show ?thesis by (auto simp: send_batch.simps sample_transport_def report_facts)
qed

theorem send_batch_settles_items_witness:
  "\<exists>chunks. concat (map batch_events chunks) = [sample_event] \<and>
     list_all (settled sample_ext sample_transport 0
       (wire (snd (snd (send_batch sample_ext (Events [sample_event]) (sample_transport, sample_world ())))))) chunks"
proof -
  obtain out t' w' where s: "send_batch sample_ext (Events [sample_event]) (sample_transport, sample_world ()) = (out, t', w')"
    by (metis prod_cases3)
  then have "is_confirmed out" using sample_send_batch_accepted [of "()"] by simp
  moreover have "encryptor sample_transport = None" by (simp add: sample_transport_def)
  ultimately show ?thesis using send_batch_settles_items [OF _ s] s by (auto simp: sample_world_def)
qed

text \<open>C14: The answer of the retry loop is the server's answer to the last request: an acceptance, a
  permanent rejection or a 413 is returned only when a request was sent in this call and the response to
  the last one was classified so.\<close>

theorem send_with_retry_answered:
  assumes "send_with_retry ext label body (t, w) = (r, t', w')" and "\<forall>e. r \<noteq> Inr (Failed e)"
  shows "justified ext (api_url t label) (wire w') r \<and> length (wire w) < length (wire w')"
  using send_with_retry_justified [OF assms(1)] assms(2) by (simp add: wire_length_def)

theorem send_with_retry_answered_witness:
  "justified sample_ext (api_url sample_transport ''events'')
     (wire (snd (snd (send_with_retry sample_ext ''events'' [7] (sample_transport, sample_world ()))))) (Inr Accepted)"
proof -
  obtain r t' w' where s: "send_with_retry sample_ext ''events'' [7] (sample_transport, sample_world ()) = (r, t', w')"
    by (metis prod_cases3)
  then have "r = Inr Accepted" using send_accepted [of "''events''" "[7]" "()"] by simp
  then show ?thesis using send_with_retry_answered [OF s] s by simp
qed

section \<open>Requests\<close>

text \<open>One call of \<^verbatim>\<open>send_with_retry\<close> puts at most \<^verbatim>\<open>retry_attempts + 1\<close> (saturating) requests on the
  wire, all of them the same signed and possibly compressed POST of the given body.\<close>

theorem send_with_retry_requests:
  "\<exists>k. k \<le> min (unat (retry_attempts (tr_config t)) + 1) (2 ^ 32 - 1) \<and>
     wire (snd (snd (send_with_retry ext label body (t, w)))) = wire w @ replicate k (post_request ext t label body)"
  using send_with_retry_wire [of "(t, w)" ext label body]
  by (simp add: total_attempts_def unat_saturating_add)

text \<open>C22: Sending a batch of \<open>n\<close> items, with all its 413 splits, takes at most \<open>2 n - 1\<close> runs of the retry
  loop (one for an empty batch), hence at most that many times the attempts of one run.\<close>

theorem send_batch_request_bound:
  "length (wire (snd (snd (send_batch ext items (t, w))))) \<le>
     length (wire w) + (2 * max 1 (batch_len items) - 1) * total_attempts (tr_config t)"
  using send_batch_bounded(1) [of items "(t, w)" ext] by (simp add: bounded_step_def wire_length_def)

text \<open>An attempt of either loop sends nothing while the circuit breaker is open or while the limiter
  has admitted its maximum in the current window.\<close>

theorem attempt_blocked_sends_nothing:
  assumes "breaker_state (clock w) (breaker t) = Open \<or>
      max_calls (rate_limiter t) \<le>
        length (filter (\<lambda>c. duration_since (clock w) c < time_window (rate_limiter t)) (calls (rate_limiter t)))"
  shows "wire (snd (step_state (send_body ext label body limit a (t, w)))) = wire w \<and>
         wire (snd (step_state (get_body ext url limit a (t, w)))) = wire w"
proof -
  have "\<not> fst (admit (clock w) (breaker t))" if "breaker_state (clock w) (breaker t) = Open"
    using that by (auto simp: admit_def breaker_state_def split: option.splits bool.splits if_splits)
  then have "\<not> may_send (t, w)" using assms acquire_rejected_iff [of "clock w" "rate_limiter t"] by (auto simp: may_send_def)
  then show ?thesis by (simp add: send_body_step(2) get_body_step(2))
qed

theorem attempt_blocked_sends_nothing_witness:
  "let t = sample_transport\<lparr>breaker := breaker_default\<lparr>opened_at := Some 0\<rparr>\<rparr>
   in wire (snd (step_state (send_body sample_ext ''events'' [] 1 0 (t, sample_world ())))) = []"
proof -
  let ?t = "sample_transport\<lparr>breaker := breaker_default\<lparr>opened_at := Some 0\<rparr>\<rparr>"
  have "breaker_state (clock (sample_world ())) (breaker ?t) = Open"
    by (simp add: sample_world_def breaker_default_def breaker_new_def breaker_state_def RECOVERY_WINDOW_def
        duration_since_def from_secs_def)
  then show ?thesis
    using attempt_blocked_sends_nothing [of "sample_world ()" ?t sample_ext "''events''" "[]" 1 0 "[]"]
    by (simp add: sample_world_def)
qed

text \<open>C33: Rules are returned only when the last of at most \<^verbatim>\<open>retry_attempts + 1\<close> GET requests was answered
  with a 2xx JSON object that deserializes to them; fetching rules never calls the error hook.\<close>

theorem fetch_rules_answered:
  assumes "fetch_rules ext (t, w) = (Some rules, t', w')"
  shows "\<exists>v k. is_object v \<and> rules_from_value ext v = Inr rules \<and>
           answered ext (wire w') (\<lambda>r. classify_get_attempt ext r (api_url t ''rules'') = GetOk v) \<and>
           k \<le> total_attempts (tr_config t) \<and>
           wire w' = wire w @ replicate k (get_request t (api_url t ''rules'')) \<and> hook_calls w' = hook_calls w"
proof -
  obtain v where v: "get_with_retry ext ''rules'' (t, w) = (Some v, t', w')" "rules_from_value ext v = Inr rules"
    using assms by (auto simp: fetch_rules_def split: prod.splits option.splits sum.splits)
  obtain k where k: "wire w' = wire w @ replicate k (get_request t (api_url t ''rules''))" "hook_calls w' = hook_calls w"
    using get_with_retry_inv [of "(t, w)" "''rules''" ext] v(1) by (auto simp: get_inv_def)
  moreover have "k \<le> total_attempts (tr_config t)"
    using get_with_retry_wire_length [of ext "''rules''" "(t, w)"] v(1) k(1) by (simp add: wire_length_def)
  ultimately show ?thesis using get_with_retry_Some [OF v(1)] v(2) by auto
qed

lemma sample_fetch_rules: "fst (fetch_rules sample_ext (sample_transport, sample_world ())) = Some (rules_default 0)"
proof -
  have "fst (get_with_retry sample_ext ''rules'' (sample_transport, sample_world ())) = Some (Object [])"
    using sample_may_send [of "()"]
    by (simp add: get_with_retry_def sample_transport_def Let_def get_body_may_send after_get_def get_attempt_def
        http_send_def gated_def case_prod_beta)
       (simp add: sample_ext_def classify_get_attempt_def accepted_response_def Let_def)
  then show ?thesis by (auto simp: fetch_rules_def sample_ext_def case_prod_beta)
qed

theorem fetch_rules_answered_witness:
  "\<exists>k. wire (snd (snd (fetch_rules sample_ext (sample_transport, sample_world ())))) =
     replicate k (get_request sample_transport (api_url sample_transport ''rules''))"
proof -
  obtain r t' w' where s: "fetch_rules sample_ext (sample_transport, sample_world ()) = (r, t', w')" by (metis prod_cases3)
  then have "r = Some (rules_default 0)" using sample_fetch_rules by simp
  with s fetch_rules_answered [of sample_ext sample_transport "sample_world ()" "rules_default 0" t' w'] show ?thesis
    by (auto simp: sample_world_def)
qed

section \<open>Classification\<close>

text \<open>The classification of a readable response depends on the status alone except for 200: accepted
  are 201 to 299 and a 200 whose acknowledgement parses and reports no failure; permanent are 400, 404 and
  422; 413 is too large; 429 is rate limited. Everything else is retried.\<close>

theorem classify_response_table:
  "(classify_response ext status body url h = AttemptAccepted \<longleftrightarrow>
      status = 200 \<and> (\<exists>ack. ack_from_str ext body = Inr ack \<and> ack_success ack \<noteq> Some False \<and>
                         (ack_errors ack = None \<or> ack_errors ack = Some [])) \<or>
      201 \<le> status \<and> status \<le> 299) \<and>
   ((\<exists>d. classify_response ext status body url h = AttemptPermanent status d) \<longleftrightarrow> status \<in> {400, 404, 422}) \<and>
   ((\<exists>d. classify_response ext status body url h = AttemptTooLarge d) \<longleftrightarrow> status = 413) \<and>
   ((\<exists>s. classify_response ext status body url h = AttemptRateLimited s) \<longleftrightarrow> status = 429)"
  by (auto simp: classify_response_def parse_ack_def NON_RETRYABLE_STATUS_CODES_def Let_def word_le_nat_alt
      split: sum.splits option.splits)

section \<open>Encryption\<close>

text \<open>C11: With an encryptor, everything \<^verbatim>\<open>send_batch\<close> puts on the wire goes to \<^verbatim>\<open>events/encrypted\<close> and has as
  body an envelope around the ciphertext of the batch: no plaintext request is ever sent, and a batch
  that cannot be encrypted is not sent at all.\<close>

theorem encrypted_batch_never_plain:
  assumes "encryptor t = Some enc"
  shows "\<exists>k body. wire (snd (snd (send_batch ext items (t, w)))) =
           wire w @ replicate k (post_request ext t ''events/encrypted'' body) \<and>
         (k = 0 \<or> sealed ext enc (tr_config t) items body)"
  using send_batch_encrypted_wire [of "(t, w)" ext enc items] assms by (auto simp: send_batch_eqs)

theorem encrypted_batch_never_plain_witness:
  "\<exists>k body. wire (snd (snd (send_batch sample_ext (Events []) (sample_transport\<lparr>encryptor := Some \<lparr>cipher_key = []\<rparr>\<rparr>, sample_world ())))) =
     replicate k (post_request sample_ext sample_transport ''events/encrypted'' body)"
proof -
  let ?t = "sample_transport\<lparr>encryptor := Some \<lparr>cipher_key = []\<rparr>\<rparr>"
  have "post_request sample_ext ?t ''events/encrypted'' body = post_request sample_ext sample_transport ''events/encrypted'' body" for body
    by (simp add: post_request_def api_url_def)
  then show ?thesis
    using encrypted_batch_never_plain [of ?t "\<lparr>cipher_key = []\<rparr>" sample_ext "Events []" "sample_world ()"]
    by (auto simp: sample_world_def)
qed

text \<open>C27: Construction fails closed: with a non-empty project key, a transport exists only when the key
  decodes to 32 bytes and a round trip through it succeeded, and then it has that encryptor.\<close>

theorem encryption_fails_closed:
  assumes "transport_new ext cfg iid nonce = Inr t" and "project_encryption_key cfg = Some key" and "key \<noteq> []"
  shows "\<exists>enc. encryptor t = Some enc \<and> length (cipher_key enc) = 32 \<and> verify_key (crypt ext) enc nonce"
proof -
  obtain enc where "encryptor_new (crypt ext) key = Inr enc" "encryptor t = Some enc" "verify_key (crypt ext) enc nonce"
    using transport_new_Inr(5) [OF assms(1)] assms(2,3) by (auto simp: init_encryptor_def split: sum.splits if_splits)
  with encryptor_new_key_size [of "crypt ext" key enc] show ?thesis by (simp add: KEY_SIZE_def)
qed

lemma sample_crypto_ok: "b64_ok sample_crypto" "aead_ok sample_crypto key" "json_ok (\<lambda>_. None) sample_crypto"
proof -
  have "trim_end_matches (CHR ''='') (xs @ ''.'') = xs @ ''.''" for xs
    by (simp add: trim_end_matches_def trim_end_where_def)
  moreover have "of_nat (of_char (char_of (unat b) :: char)) = b" for b :: u8
    using unsigned_less [of b, where 'a = nat] by simp
  ultimately show "b64_ok sample_crypto" by (simp add: b64_ok_def sample_crypto_def map_idI)
qed (simp_all add: aead_ok_def reference_parser_ok sample_crypto_def)

theorem encryption_fails_closed_witness:
  "let cfg = sample_config\<lparr>project_encryption_key := Some (replicate 32 (CHR ''a'') @ ''.'')\<rparr>
   in \<exists>t enc. transport_new sample_ext cfg ''id'' (replicate 12 0) = Inr t \<and> encryptor t = Some enc"
proof -
  let ?key = "replicate 32 (CHR ''a'') @ ''.''"
  let ?cfg = "sample_config\<lparr>project_encryption_key := Some ?key\<rparr>"
  have trim: "trim_end_matches (CHR ''='') ?key = ?key" by (simp add: trim_end_matches_def trim_end_where_def)
  have enc: "encryptor_new (crypt sample_ext) ?key = Inr \<lparr>cipher_key = map (\<lambda>c. of_nat (of_char c)) (replicate 32 (CHR ''a''))\<rparr>"
    unfolding encryptor_new_def trim by (simp add: sample_ext_def sample_crypto_def KEY_SIZE_def)
  have ver: "verify_key (crypt sample_ext) e (replicate 12 0)" for e
    using encrypt_decrypt [OF sample_crypto_ok(1,2) canonical_parsed [OF sample_crypto_ok(3), of verify_test_data], of "replicate 12 0" e None]
    by (auto simp: verify_key_def sample_ext_def NONCE_SIZE_def verify_test_data_def)
  have "init_encryptor sample_ext ?cfg (replicate 12 0) \<noteq> Inl e" for e
    using enc ver by (auto simp: init_encryptor_def)
  moreover have "list_all (\<lambda>(n, v). n = ''content-type'' \<or> header_value_ok sample_ext v) hs"
    "client_build sample_ext n hs = Inr ()" for hs n
    by (simp_all add: sample_ext_def list_all_iff)
  ultimately obtain t where t: "transport_new sample_ext ?cfg ''id'' (replicate 12 0) = Inr t"
    by (cases "init_encryptor sample_ext ?cfg (replicate 12 0)") (auto simp: transport_new_def Let_def)
  show ?thesis using encryption_fails_closed [OF t, of ?key] t by auto
qed

section \<open>No panic\<close>

text \<open>With a backoff factor that is not negative (NaN and infinity included) and the limiter window
  of the sources, no operation of the transport panics: every delay it sleeps for converts to a
  \<^verbatim>\<open>Duration\<close>.\<close>

theorem transport_never_panics:
  assumes "\<not> panicked w" and "\<not> f64_lt (backoff_factor (tr_config t)) (Fin 0)"
    and "time_window (rate_limiter t) = from_secs RATE_LIMIT_WINDOW_SECS"
  shows "\<not> panicked (snd (snd (send_batch ext items (t, w)))) \<and>
         \<not> panicked (snd (snd (send_status ext status (t, w)))) \<and>
         \<not> panicked (snd (snd (fetch_rules ext (t, w))))"
proof -
  have ok: "transport_ok (t, w)" using assms by (simp add: transport_ok_def)
  then show ?thesis
    using send_batch_bounded(1) [of items "(t, w)" ext] send_status_bounded [of "(t, w)" ext status]
      get_with_retry_bounded [of "(t, w)" ext "''rules''"]
    by (simp add: bounded_step_def transport_ok_def fetch_rules_snd)
qed

theorem transport_never_panics_witness:
  "\<not> panicked (snd (snd (send_batch failing_ext (Events [sample_event]) (sample_transport, sample_world ()))))"
  using transport_never_panics [of "sample_world ()" sample_transport failing_ext "Events [sample_event]"
      "compute_status sample_ext (sample_shared, sample_world ())"] sample_transport_ok [of "()"]
  by (simp add: transport_ok_def)

end
