(* ===== verification/Bridge.thy ===== *)
theory Bridge
  imports Agent_Lifecycle
begin

text \<open>
  The engine seam, \<^verbatim>\<open>src/src/bridge.rs\<close>: the telemetry sink that the composite handler of the
  \<^verbatim>\<open>guard_core_rs\<close> crate drives. The facade's event and metric records are that crate's; the records
  here hold the fields the bridge reads. A call that the bridge spawns on the runtime is the spawned
  computation; one it blocks on is the computation itself.
\<close>

record FacadeSecurityEvent =
  fe_timestamp :: int
  fe_event_type :: string
  fe_ip_address :: string
  fe_country :: "string option"
  fe_user_agent :: "string option"
  fe_endpoint :: "string option"
  fe_method :: "string option"
  fe_decorator_type :: "string option"
  fe_rule_type :: "string option"
  fe_handler_name :: "string option"
  fe_action_taken :: string
  fe_reason :: string
  fe_response_time :: "f64 option"
  fe_metadata :: "(string \<times> Value) list"

record FacadeSecurityMetric =
  fm_timestamp :: int
  fm_metric_type :: string
  fm_value :: f64
  fm_endpoint :: "string option"
  fm_tags :: "(string \<times> string) list"

datatype TelemetryError = TelemetryError string

section \<open>The constructor maps\<close>

text \<open>\<^verbatim>\<open>Value::as_str\<close>, \<^verbatim>\<open>Value::as_i64\<close> and \<^verbatim>\<open>u16::try_from\<close>.\<close>

fun as_str :: "Value \<Rightarrow> string option" where
  "as_str (String s) = Some s"
| "as_str _ = None"

fun as_i64 :: "Value \<Rightarrow> int option" where
  "as_i64 (Number (PosInt n)) = (if n < 2 ^ 63 then Some (int n) else None)"
| "as_i64 (Number (NegInt i)) = Some i"
| "as_i64 _ = None"

definition u16_try_from :: "int \<Rightarrow> u16 option" where
  "u16_try_from i = (if 0 \<le> i \<and> i < 2 ^ 16 then Some (of_int i) else None)"

definition string_kwarg :: "(string \<times> Value) list \<Rightarrow> string \<Rightarrow> string option" where
  "string_kwarg metadata key = Option.bind (map_of metadata key) as_str"

definition to_agent_event :: "Uuid \<Rightarrow> DateTime \<Rightarrow> FacadeSecurityEvent \<Rightarrow> SecurityEvent" where
  "to_agent_event uuid now event =
     (event_new uuid now (fe_event_type event))
       \<lparr> ev_timestamp := fe_timestamp event, ev_event_type := fe_event_type event,
         ev_ip_address := fe_ip_address event, ev_country := fe_country event,
         ev_user_agent := fe_user_agent event, ev_endpoint := fe_endpoint event,
         ev_method := fe_method event, ev_decorator_type := fe_decorator_type event,
         ev_rule_type := fe_rule_type event,
         ev_pattern_matched := string_kwarg (fe_metadata event) ''pattern_matched'',
         ev_handler_name := fe_handler_name event, ev_action_taken := fe_action_taken event,
         ev_reason := fe_reason event,
         ev_status_code := Option.bind (Option.bind (map_of (fe_metadata event) ''status_code'') as_i64) u16_try_from,
         ev_response_time := fe_response_time event, ev_metadata := Object (fe_metadata event) \<rparr>"

definition from_str_name :: "string \<Rightarrow> MetricType option" where
  "from_str_name name =
     (if name = ''request_count'' then Some RequestCount
      else if name = ''response_time'' then Some ResponseTime
      else if name = ''error_rate'' then Some ErrorRate
      else if name = ''bandwidth_usage'' then Some BandwidthUsage
      else if name = ''threat_level'' then Some ThreatLevel
      else if name = ''block_rate'' then Some BlockRate
      else if name = ''cache_hit_rate'' then Some CacheHitRate
      else None)"

definition to_agent_metric :: "FacadeSecurityMetric \<Rightarrow> TelemetryError + SecurityMetric" where
  "to_agent_metric metric =
     (case from_str_name (fm_metric_type metric) of
        None \<Rightarrow> Inl (TelemetryError (''unknown metric type '' @ [CHR 0x27] @ fm_metric_type metric @ [CHR 0x27] @
                  '': the wire model accepts the seven METRIC_* types''))
      | Some metric_type \<Rightarrow>
          Inr \<lparr> mt_timestamp = fm_timestamp metric, mt_metric_type = metric_type,
                mt_value = fm_value metric, mt_endpoint = fm_endpoint metric, mt_tags = fm_tags metric \<rparr>)"

definition serialize_rules ::
  "(DynamicRules \<Rightarrow> string + Value) \<Rightarrow> DynamicRules \<Rightarrow> TelemetryError + Value option" where
  "serialize_rules to_value rules =
     (case to_value rules of
        Inr v \<Rightarrow> Inr (Some v)
      | Inl e \<Rightarrow> Inl (TelemetryError (''dynamic rules serialization: '' @ e)))"

section \<open>The sink\<close>

definition handler_name :: string where "handler_name = ''GuardAgent''"

definition telemetry_start ::
  "externals \<Rightarrow> (RedisConfig \<Rightarrow> GuardAgentError + 'st RedisHandler) \<Rightarrow> 'st GuardAgent \<Rightarrow> 'st World \<Rightarrow>
   (TelemetryError + unit) \<times> 'st GuardAgent \<times> 'st World" where
  "telemetry_start ext connect a w = (Inr (), start ext connect a w)"

definition telemetry_stop ::
  "externals \<Rightarrow> ('st astate \<Rightarrow> 'st astate) \<Rightarrow> 'st GuardAgent \<Rightarrow> 'st World \<Rightarrow>
   (TelemetryError + unit) \<times> 'st GuardAgent \<times> 'st World" where
  "telemetry_stop ext other a w = (Inr (), stop ext other a w)"

text \<open>The two send paths answer at once; the second component is the spawned task, from the state in
  which it runs. Converting an event stamps the fresh idempotency key.\<close>

definition telemetry_send_event ::
  "externals \<Rightarrow> (nat \<Rightarrow> 'st astate \<Rightarrow> 'st astate) \<Rightarrow> nat \<Rightarrow> FacadeSecurityEvent \<Rightarrow> 'st World \<Rightarrow>
   (TelemetryError + unit) \<times> ('st astate \<Rightarrow> 'st astate option) \<times> 'st World" where
  "telemetry_send_event ext other n event w =
     (let (uuid, w1) = draw_uuid ext w
      in (Inr (), send_event ext other n (to_agent_event uuid (utc_now ext w) event), w1))"

definition telemetry_send_metric ::
  "externals \<Rightarrow> (nat \<Rightarrow> 'st astate \<Rightarrow> 'st astate) \<Rightarrow> nat \<Rightarrow> FacadeSecurityMetric \<Rightarrow>
   (TelemetryError + unit) \<times> ('st astate \<Rightarrow> 'st astate option)" where
  "telemetry_send_metric ext other n metric =
     (case to_agent_metric metric of
        Inl e \<Rightarrow> (Inl e, Some)
      | Inr m \<Rightarrow> (Inr (), send_metric ext other n m))"

definition telemetry_flush_buffer ::
  "externals \<Rightarrow> ('st astate \<Rightarrow> 'st astate) \<Rightarrow> 'st astate \<Rightarrow> (TelemetryError + unit) \<times> 'st astate" where
  "telemetry_flush_buffer ext other s = (Inr (), flush_buffer ext other s)"

definition telemetry_get_dynamic_rules ::
  "externals \<Rightarrow> (DynamicRules \<Rightarrow> string + Value) \<Rightarrow> 'st astate \<Rightarrow> (TelemetryError + Value option) \<times> 'st astate" where
  "telemetry_get_dynamic_rules ext to_value s =
     (case get_dynamic_rules ext s of
        (None, s') \<Rightarrow> (Inr None, s')
      | (Some rules, s') \<Rightarrow> (serialize_rules to_value rules, s'))"

definition telemetry_health_check :: "'st astate \<Rightarrow> bool" where
  "telemetry_health_check s = health_check s"

section \<open>Properties\<close>

lemma from_str_name_as_str [simp]: "from_str_name (metric_type_as_str t) = Some t"
  by (cases t) (simp_all add: from_str_name_def)

lemma from_str_name_cases:
  "from_str_name name = None \<or> (\<exists>t. name = metric_type_as_str t)"
proof (cases "\<exists>t. name = metric_type_as_str t")
  case False
  then have "\<And>t. name \<noteq> metric_type_as_str t" by blast
  note this [of RequestCount] this [of ResponseTime] this [of ErrorRate] this [of BandwidthUsage]
    this [of ThreatLevel] this [of BlockRate] this [of CacheHitRate]
  then show ?thesis unfolding from_str_name_def metric_type_as_str.simps by (simp only: if_False simp_thms)
qed simp

lemma from_str_name_Some: "from_str_name name = Some t \<longleftrightarrow> name = metric_type_as_str t"
  using from_str_name_cases [of name] by (metis from_str_name_as_str option.distinct(1) option.inject)
end
