(* ===== verification/Logging_Utils.thy ===== *)
theory Logging_Utils
  imports Signing
begin

text \<open>
  The log-record formatters of \<^verbatim>\<open>src/src/logging_utils.rs\<close>. Machine integers are mathematical ones:
  \<^verbatim>\<open>div_euclid\<close> and \<^verbatim>\<open>rem_euclid\<close> by a positive divisor are \<open>div\<close> and \<open>mod\<close>, the truncating divisions of
  the calendar conversion are applied to non-negative operands only (as the lemmas show), and no
  sum leaves the range of \<^verbatim>\<open>i64\<close> because the days are a quotient by 86400.
\<close>

definition civil_from_days :: "int \<Rightarrow> int \<times> int \<times> int" where
  "civil_from_days days =
     (let z = days + 719468;
          era = z div 146097;
          doe = z mod 146097;
          yoe = (doe - doe div 1460 + doe div 36524 - doe div 146096) div 365;
          y = yoe + era * 400;
          doy = doe - (365 * yoe + yoe div 4 - yoe div 100);
          mp = (5 * doy + 2) div 153;
          d = doy - (153 * mp + 2) div 5 + 1;
          m = (if mp < 10 then mp + 3 else mp - 9)
      in (if m \<le> 2 then y + 1 else y, m, d))"

text \<open>\<^verbatim>\<open>{:0N}\<close> of a signed integer: zeros between the sign and the digits.\<close>

definition pad_int :: "nat \<Rightarrow> int \<Rightarrow> string" where
  "pad_int w i =
     (if i < 0 then CHR ''-'' # pad_left (CHR ''0'') (w - 1) (show_nat (nat (- i)))
      else pad_left (CHR ''0'') w (show_nat (nat i)))"

definition asctime :: "int \<Rightarrow> nat \<Rightarrow> string" where
  "asctime unix_seconds millis =
     (let days = unix_seconds div 86400;
          seconds_of_day = unix_seconds mod 86400;
          (year, month, day) = civil_from_days days
      in pad_int 4 year @ ''-'' @ pad_int 2 month @ ''-'' @ pad_int 2 day @ '' '' @
         pad_int 2 (seconds_of_day div 3600) @ '':'' @
         pad_int 2 ((seconds_of_day mod 3600) div 60) @ '':'' @
         pad_int 2 (seconds_of_day mod 60) @ '','' @ pad_int 3 (int millis))"

definition json_char :: "char \<Rightarrow> string" where
  "json_char c =
     (let n = (of_char c :: nat)
      in if n = 34 then [CHR 0x5C, CHR 0x22]
         else if n = 92 then [CHR 0x5C, CHR 0x5C]
         else if n = 10 then [CHR 0x5C, CHR ''n'']
         else if n = 13 then [CHR 0x5C, CHR ''r'']
         else if n = 9 then [CHR 0x5C, CHR ''t'']
         else if n < 0x20 then [CHR 0x5C, CHR ''u''] @ hex4 n
         else [c])"

definition json_string :: "string \<Rightarrow> string" where
  "json_string value = [CHR 0x22] @ concat (map json_char value) @ [CHR 0x22]"

definition json_field :: "string \<Rightarrow> string" where
  "json_field name = [CHR 0x22] @ name @ [CHR 0x22] @ '': ''"

definition json_record :: "string \<Rightarrow> string \<Rightarrow> string \<Rightarrow> string \<Rightarrow> string" where
  "json_record level logger message timestamp =
     [CHR 0x7B] @ json_field ''timestamp'' @ json_string timestamp @ '', '' @
     json_field ''level'' @ json_string level @ '', '' @
     json_field ''logger'' @ json_string logger @ '', '' @
     json_field ''message'' @ json_string message @ [CHR 0x7D]"

definition text_record :: "string \<Rightarrow> string \<Rightarrow> string \<Rightarrow> string \<Rightarrow> string" where
  "text_record level logger message timestamp =
     ''['' @ logger @ ''] '' @ timestamp @ '' - '' @ level @ '' - '' @ message"

section \<open>Properties of the encoding\<close>

definition is_control :: "char \<Rightarrow> bool" where
  "is_control c \<longleftrightarrow> (of_char c :: nat) < 0x20"

lemma digit_char_not_control: "d < 36 \<Longrightarrow> \<not> is_control (digit_char d)"
  by (simp add: is_control_def digit_char_def)

lemma show_base_not_control: "1 < b \<Longrightarrow> b \<le> 36 \<Longrightarrow> c \<in> set (show_base b n) \<Longrightarrow> \<not> is_control c"
proof (induction b n rule: show_base.induct)
  case (1 b n)
  then show ?case
    by (subst (asm) (2) show_base.simps) (auto split: if_splits simp: digit_char_not_control less_le_trans [OF mod_less_divisor])
qed

lemma hex4_not_control: "c \<in> set (hex4 n) \<Longrightarrow> \<not> is_control c"
  by (auto simp: hex4_def pad_left_def dest!: show_base_not_control [of 16, rotated 2])
    (simp add: is_control_def)

lemma json_char_not_control: "x \<in> set (json_char c) \<Longrightarrow> \<not> is_control x"
  by (auto simp: json_char_def Let_def is_control_def split: if_splits
      dest: hex4_not_control [unfolded is_control_def])

lemma json_string_not_control: "x \<in> set (json_string s) \<Longrightarrow> \<not> is_control x"
  by (auto simp: json_string_def json_char_not_control) (simp_all add: is_control_def)

text \<open>The encoding of a string determines it: no two characters have encodings of which one is a prefix
  of the other.\<close>

lemma hex4_small:
  assumes "n < 32"
  shows "hex4 n = [CHR ''0'', CHR ''0'', digit_char (n div 16), digit_char (n mod 16)]"
proof -
  have "digit_char 0 = CHR ''0''" by code_simp
  moreover have "replicate 3 c = [c, c, c]" "replicate 2 c = [c, c]" for c :: char by (simp_all add: numeral_3_eq_3 numeral_2_eq_2)
  ultimately show ?thesis using assms by (auto simp: hex4_def pad_left_def show_base.simps [of 16])
qed

lemma hex4_small_inject:
  assumes "m < 32" "n < 32" "hex4 m = hex4 n" shows "m = n"
proof -
  have "digit_char (m div 16) = digit_char (n div 16)" "digit_char (m mod 16) = digit_char (n mod 16)"
    using assms by (simp_all add: hex4_small)
  then have "m div 16 = n div 16" "m mod 16 = n mod 16" using digit_char_inject assms(1,2) by simp_all
  then show ?thesis by (metis div_mult_mod_eq)
qed

lemma json_char_prefix_free:
  assumes "json_char c @ x = json_char d @ y" shows "c = d \<and> x = y"
proof -
  define m n where "m = (of_char c :: nat)" and "n = (of_char d :: nat)"
  have inj: "c = d \<longleftrightarrow> m = n" by (simp add: m_def n_def)
  have bs: "c = CHR 0x5C \<Longrightarrow> m = 92" "d = CHR 0x5C \<Longrightarrow> n = 92" "c = d \<Longrightarrow> m = n" by (simp_all add: m_def n_def)
  consider "m \<in> {34, 92, 10, 13, 9}" | "m < 32" "m \<notin> {34, 92, 10, 13, 9}" | "32 \<le> m" "m \<noteq> 34" "m \<noteq> 92" by fastforce
  then show ?thesis
    using assms bs(1,2) hex4_small_inject [of m n] hex4_small [of m] hex4_small [of n] unfolding inj
    by cases (auto simp: json_char_def m_def [symmetric] n_def [symmetric] intro: bs(3) split: if_splits)
qed

lemma json_string_inject: "json_string a = json_string b \<longleftrightarrow> a = b"
proof -
  have ne: "json_char c \<noteq> []" for c by (simp add: json_char_def Let_def)
  have "concat (map json_char a) = concat (map json_char b) \<Longrightarrow> a = b"
  proof (induction a arbitrary: b)
    case Nil
    then show ?case using ne by (cases b) auto
  next
    case (Cons c a)
    then obtain d b' where b: "b = d # b'" using ne by (cases b) auto
    with Cons json_char_prefix_free [of c _ d] show ?case by fastforce
  qed
  then show ?thesis by (auto simp: json_string_def)
qed

end
