(* ===== verification/Calendar.thy ===== *)
theory Calendar
  imports Logging_Utils
begin

text \<open>
  The calendar conversion of the log timestamps against the Gregorian calendar. The reference is the
  rule everybody knows: leap years, month lengths, and the day after a day. The conversion counts
  years from March, so that the leap day is the last day of a year; a day is then four digits of an
  era of 400 years and a day of the year (\<open>march_day\<close>).
\<close>

section \<open>The Gregorian calendar\<close>

definition leap_year :: "int \<Rightarrow> bool" where
  "leap_year y \<longleftrightarrow> y mod 4 = 0 \<and> (y mod 100 \<noteq> 0 \<or> y mod 400 = 0)"

definition days_in_month :: "int \<Rightarrow> int \<Rightarrow> int" where
  "days_in_month y m =
     (if m = 2 then (if leap_year y then 29 else 28) else if m = 4 \<or> m = 6 \<or> m = 9 \<or> m = 11 then 30 else 31)"

fun next_day :: "int \<times> int \<times> int \<Rightarrow> int \<times> int \<times> int" where
  "next_day (y, m, d) =
     (if d < days_in_month y m then (y, m, d + 1) else if m < 12 then (y, m + 1, 1) else (y + 1, 1, 1))"

section \<open>Years that begin in March\<close>

definition of_march :: "int \<Rightarrow> int \<Rightarrow> int \<times> int \<times> int" where
  "of_march y doy =
     (let mp = (5 * doy + 2) div 153; m = (if mp < 10 then mp + 3 else mp - 9)
      in (if m \<le> 2 then y + 1 else y, m, doy - (153 * mp + 2) div 5 + 1))"

definition march_len :: "int \<Rightarrow> int" where
  "march_len y = (if leap_year (y + 1) then 366 else 365)"

lemma div_eqI: "b * k \<le> a \<Longrightarrow> a < b * k + b \<Longrightarrow> a div b = (k :: int)"
  by (rule int_div_pos_eq [of a b k "a - b * k"]) auto

lemma div_bounds: "0 < b \<Longrightarrow> b * (a div b) \<le> a \<and> a < b * (a div b) + (b :: int)"
  using pos_mod_sign [of b a] pos_mod_bound [of b a] mult_div_mod_eq [of b a] by linarith

lemma mod_shift: "(b * k + r) mod b = r mod (b :: int)"
  by simp

text \<open>The months of such a year: the first day of each, and its name.\<close>

definition month_start :: "int \<Rightarrow> int" where
  "month_start k = (153 * k + 2) div 5"

lemma month_start_bounds: "5 * month_start k \<le> 153 * k + 2" "153 * k + 2 < 5 * month_start k + 5"
  using div_bounds [of 5 "153 * k + 2"] by (simp_all add: month_start_def)

definition month_of :: "int \<Rightarrow> int \<Rightarrow> int \<times> int" where
  "month_of y k = (if k < 10 then (y, k + 3) else (y + 1, k - 9))"

lemma of_march_month:
  assumes "0 \<le> k" "k \<le> 11" "month_start k \<le> doy" "doy < month_start (k + 1)"
  shows "of_march y doy = (fst (month_of y k), snd (month_of y k), doy - month_start k + 1)"
proof -
  have "5 * (doy + 1) \<le> 5 * month_start (k + 1)" using assms(4) by simp
  then have "(5 * doy + 2) div 153 = k"
    using assms(3) month_start_bounds [of k] month_start_bounds [of "k + 1"] by (intro div_eqI) (simp_all add: algebra_simps)
  then show ?thesis using assms(1,2) by (simp add: of_march_def month_of_def month_start_def)
qed

lemma month_cases:
  assumes "0 \<le> doy" "doy < 366"
  obtains k where "0 \<le> k" "k \<le> 11" "month_start k \<le> doy" "doy < month_start (k + 1)"
proof (rule that)
  let ?k = "(5 * doy + 2) div 153"
  show "0 \<le> ?k" "?k \<le> 11" using assms by linarith+
  have "153 * ?k \<le> 5 * doy + 2" "5 * doy + 2 < 153 * ?k + 153" using div_bounds [of 153 "5 * doy + 2"] by simp_all
  then have "5 * month_start ?k < 5 * doy + 5" "5 * doy < 5 * month_start (?k + 1)"
    using month_start_bounds [of ?k] month_start_bounds [of "?k + 1"] by (simp_all add: algebra_simps)
  then show "month_start ?k \<le> doy" "doy < month_start (?k + 1)" by simp_all
qed

lemma month_length:
  assumes "0 \<le> k" "k \<le> 10"
  shows "month_start (k + 1) - month_start k = days_in_month (fst (month_of y k)) (snd (month_of y k))"
    "month_of y (k + 1) = (if snd (month_of y k) < 12 then (fst (month_of y k), snd (month_of y k) + 1) else (fst (month_of y k) + 1, 1))"
proof -
  have "k \<in> {0, 1, 2, 3, 4, 5, 6, 7, 8, 9, 10}" unfolding insert_iff empty_iff using assms by presburger
  then show "month_start (k + 1) - month_start k = days_in_month (fst (month_of y k)) (snd (month_of y k))"
    by (elim insertE emptyE) (simp_all add: month_start_def month_of_def days_in_month_def)
  show "month_of y (k + 1) = (if snd (month_of y k) < 12 then (fst (month_of y k), snd (month_of y k) + 1) else (fst (month_of y k) + 1, 1))"
    using assms by (auto simp: month_of_def)
qed

lemma of_march_step:
  assumes "0 \<le> doy" "doy + 1 < march_len y"
  shows "of_march y (doy + 1) = next_day (of_march y doy)"
proof -
  have d: "doy + 1 < 366" "doy + 1 = 365 \<Longrightarrow> leap_year (y + 1)"
    using assms(2) by (auto simp: march_len_def split: if_splits)
  then obtain k where k: "0 \<le> k" "k \<le> 11" "month_start k \<le> doy" "doy < month_start (k + 1)"
    using month_cases [of doy] assms(1) by auto
  note cur = of_march_month [OF k]
  show ?thesis
  proof (cases "doy + 1 < month_start (k + 1)")
    case True
    have "doy - month_start k + 1 < days_in_month (fst (month_of y k)) (snd (month_of y k))"
    proof (cases "k = 11")
      case k11: True
      then show ?thesis using d by (cases "doy + 1 = 365") (simp_all add: month_start_def month_of_def days_in_month_def)
    next
      case False
      then show ?thesis using month_length(1) [of k y] k True by simp
    qed
    then show ?thesis using cur of_march_month [OF k(1,2) _ True] k(3) by simp
  next
    case False
    then have e: "doy + 1 = month_start (k + 1)" "k \<noteq> 11" using k d(1) by (auto simp: month_start_def)
    then have "doy + 1 < month_start (k + 1 + 1)" using k(1) by (simp add: month_start_def)
    then have "of_march y (doy + 1) = (fst (month_of y (k + 1)), snd (month_of y (k + 1)), 1)"
      using of_march_month [of "k + 1" "doy + 1" y] e k(1,2) by simp
    then show ?thesis using month_length [of k y] cur e k by simp
  qed
qed

lemma of_march_last: "of_march (y + 1) 0 = next_day (of_march y (march_len y - 1))"
  by (simp add: of_march_def march_len_def days_in_month_def)

section \<open>The digits of a day\<close>

definition march_day :: "int \<Rightarrow> int \<Rightarrow> int \<Rightarrow> int \<Rightarrow> int \<Rightarrow> bool" where
  "march_day c q p doy yoe \<longleftrightarrow> 0 \<le> c \<and> c \<le> 3 \<and> 0 \<le> q \<and> q \<le> 24 \<and> 0 \<le> p \<and> p \<le> 3 \<and> yoe = 100 * c + 4 * q + p \<and>
     0 \<le> doy \<and> doy < 365 + (if p = 3 \<and> (q < 24 \<or> c = 3) then 1 else 0)"

lemma leap_digits:
  assumes "0 \<le> c" "c \<le> 3" "0 \<le> q" "q \<le> 24" "0 \<le> p" "p \<le> 3"
  shows "leap_year (100 * c + 4 * q + p + 400 * era + 1) \<longleftrightarrow> p = 3 \<and> (q < 24 \<or> c = 3)"
proof -
  let ?y = "100 * c + 4 * q + p + 400 * era + 1"
  have "?y mod 4 = (p + 1) mod 4" using mod_shift [of 4 "25 * c + q + 100 * era" "p + 1"] by (simp add: algebra_simps)
  then have "?y mod 4 = 0 \<longleftrightarrow> p = 3" using assms(5,6) by (cases "p = 3") (simp_all add: mod_pos_pos_trivial)
  moreover have "?y mod 100 = 0 \<longleftrightarrow> q = 24" if "p = 3"
  proof -
    have "?y mod 100 = (4 * (q + 1)) mod 100"
      using mod_shift [of 100 "c + 4 * era" "4 * (q + 1)"] that by (simp add: algebra_simps)
    then show ?thesis using assms(3,4) by (cases "q = 24") (simp_all add: mod_pos_pos_trivial)
  qed
  moreover have "?y mod 400 = 0 \<longleftrightarrow> c = 3" if "p = 3" "q = 24"
  proof -
    have "?y mod 400 = (100 * (c + 1)) mod 400"
      using mod_shift [of 400 era "100 * (c + 1)"] that by (simp add: algebra_simps)
    then show ?thesis using assms(1,2) by (cases "c = 3") (simp_all add: mod_pos_pos_trivial)
  qed
  ultimately show ?thesis using assms(4) unfolding leap_year_def by auto
qed

lemma march_day_len:
  "march_day c q p doy yoe \<Longrightarrow> march_len (yoe + 400 * era) = 365 + (if p = 3 \<and> (q < 24 \<or> c = 3) then 1 else 0)"
  using leap_digits [of c q p era] by (auto simp: march_day_def march_len_def)

text \<open>The divisions of the conversion recover the digits.\<close>

lemma civil_from_digits:
  assumes "march_day c q p doy yoe" "days + 719468 = 146097 * era + 36524 * c + 1461 * q + 365 * p + doy"
  shows "civil_from_days days = of_march (yoe + 400 * era) doy"
proof -
  define doe where "doe = 36524 * c + 1461 * q + 365 * p + doy"
  note m = assms(1) [unfolded march_day_def]
  have doe: "0 \<le> doe" "doe < 146097" using m by (auto simp: doe_def split: if_splits)
  have z: "(days + 719468) div 146097 = era" using assms(2) doe by (intro div_eqI) (auto simp: doe_def)
  have z': "(days + 719468) mod 146097 = doe" using assms(2) z by (simp add: minus_div_mult_eq_mod [symmetric] doe_def)
  define e where "e = (24 * c + q + 365 * p + doy) div 1460"
  have eb: "1460 * e \<le> 24 * c + q + 365 * p + doy" "24 * c + q + 365 * p + doy < 1460 * e + 1460"
    using div_bounds [of 1460 "24 * c + q + 365 * p + doy"] by (simp_all add: e_def)
  have "doe div 1460 = 25 * c + q + e" using eb by (intro div_eqI) (simp_all add: doe_def)
  moreover have "doe div 36524 - doe div 146096 = c"
  proof (cases "doe = 146096")
    case True
    then have "c = 3" using m by (auto simp: doe_def split: if_splits)
    then show ?thesis using True by simp
  next
    case False
    have "doe div 36524 = c" using m False by (intro div_eqI) (auto simp: doe_def split: if_splits)
    moreover have "doe div 146096 = 0" using False doe by simp
    ultimately show ?thesis by simp
  qed
  moreover have "0 \<le> doy - e" "doy - e < 365" using m eb by (auto split: if_splits)
  ultimately have y: "(doe - doe div 1460 + doe div 36524 - doe div 146096) div 365 = yoe"
    using m by (intro div_eqI) (auto simp: doe_def)
  have "yoe div 4 = 25 * c + q" "yoe div 100 = c" using m by (auto intro!: div_eqI)
  then have d: "doe - (365 * yoe + yoe div 4 - yoe div 100) = doy" using m by (simp add: doe_def)
  have "era * 400 = 400 * era" by simp
  then show ?thesis unfolding civil_from_days_def of_march_def Let_def z z' y d by (simp only:)
qed

lemma digits_exist:
  obtains era c q p doy yoe where "march_day c q p doy yoe" "days + 719468 = 146097 * era + 36524 * c + 1461 * q + 365 * p + doy"
proof -
  define z where "z = days + 719468"
  define era where "era = z div 146097"
  define doe where "doe = z mod 146097"
  define c where "c = min 3 (doe div 36524)"
  define r1 where "r1 = doe - 36524 * c"
  define q where "q = min 24 (r1 div 1461)"
  define r2 where "r2 = r1 - 1461 * q"
  define p where "p = min 3 (r2 div 365)"
  have doe: "0 \<le> doe" "doe < 146097" by (simp_all add: doe_def)
  have r1: "0 \<le> r1" "0 \<le> c" "c \<le> 3" "r1 < 36524 + (if c = 3 then 1 else 0)"
    using doe div_bounds [of 36524 doe] by (auto simp: r1_def c_def min_def split: if_splits)
  have r2: "0 \<le> r2" "0 \<le> q" "q \<le> 24" "r2 < 1460 + (if q < 24 \<or> c = 3 then 1 else 0)"
    using r1 div_bounds [of 1461 r1] by (auto simp: r2_def q_def min_def split: if_splits)
  have p: "0 \<le> p" "p \<le> 3" "0 \<le> r2 - 365 * p" "r2 - 365 * p < 365 + (if p = 3 \<and> (q < 24 \<or> c = 3) then 1 else 0)"
    using r2 div_bounds [of 365 r2] by (auto simp: p_def min_def split: if_splits)
  have "march_day c q p (r2 - 365 * p) (100 * c + 4 * q + p)" using r1 r2 p by (simp add: march_day_def)
  moreover have "z = 146097 * era + doe" by (simp add: era_def doe_def)
  then have "days + 719468 = 146097 * era + 36524 * c + 1461 * q + 365 * p + (r2 - 365 * p)"
    by (simp add: z_def [symmetric] r1_def r2_def)
  ultimately show thesis by (rule that)
qed

text \<open>Counting on in the digits.\<close>

lemma civil_from_days_Suc: "civil_from_days (days + 1) = next_day (civil_from_days days)"
proof -
  obtain era c q p doy yoe where m: "march_day c q p doy yoe"
    and z: "days + 719468 = 146097 * era + 36524 * c + 1461 * q + 365 * p + doy"
    by (rule digits_exist)
  note cur = civil_from_digits [OF m z] and len = march_day_len [OF m, of era] and md = m [unfolded march_day_def]
  show ?thesis
  proof (cases "doy + 1 < march_len (yoe + 400 * era)")
    case True
    then have "march_day c q p (doy + 1) yoe" using md len by (auto simp: march_day_def)
    from civil_from_digits [OF this, of "days + 1" era] have "civil_from_days (days + 1) = of_march (yoe + 400 * era) (doy + 1)"
      using z by simp
    then show ?thesis using cur of_march_step [OF _ True] md by simp
  next
    case False
    then have doy: "doy = march_len (yoe + 400 * era) - 1" using md len by auto
    have "civil_from_days (days + 1) = of_march (yoe + 400 * era + 1) 0"
    proof -
      consider (year) "p < 3" | (four) "p = 3" "q < 24" | (century) "p = 3" "q = 24" "c < 3" | (era) "p = 3" "q = 24" "c = 3"
        using md by force
      then show ?thesis
      proof cases
        case year
        then have "march_day c q (p + 1) 0 (yoe + 1)" using md by (auto simp: march_day_def)
        from civil_from_digits [OF this, of "days + 1" era] show ?thesis using z doy len year by (simp add: algebra_simps)
      next
        case four
        then have "march_day c (q + 1) 0 0 (yoe + 1)" using md by (auto simp: march_day_def)
        from civil_from_digits [OF this, of "days + 1" era] show ?thesis using z doy len four by (simp add: algebra_simps)
      next
        case century
        then have "march_day (c + 1) 0 0 0 (yoe + 1)" using md by (auto simp: march_day_def)
        from civil_from_digits [OF this, of "days + 1" era] show ?thesis using z doy len century by (simp add: algebra_simps)
      next
        case era
        have "march_day 0 0 0 0 0" by (simp add: march_day_def)
        from civil_from_digits [OF this, of "days + 1" "era + 1"] show ?thesis using z doy len md era by (simp add: algebra_simps)
      qed
    qed
    then show ?thesis using cur doy of_march_last by simp
  qed
qed

end
