(* ===== verification/Component_Theorems.thy ===== *)
theory Component_Theorems
  imports Transport_Theorems Bridge Calendar Json_Canonical
begin

text \<open>
  The properties of the leaf components: rate limiter, circuit breaker, configuration, encryption,
  redaction, backoff, persistence, install identifier, logging and the engine seam.
\<close>

section \<open>Rate limiter\<close>

text \<open>The reference: keep every admission forever and admit a call when fewer than \<open>mc\<close> of them lie
  within the window before it.\<close>

fun admitted_ref :: "nat \<Rightarrow> Duration \<Rightarrow> Instant list \<Rightarrow> Instant list \<Rightarrow> Instant list" where
  "admitted_ref mc w hist [] = []"
| "admitted_ref mc w hist (t # ts) =
     (if length (filter (\<lambda>c. t - c < w) hist) < mc
      then t # admitted_ref mc w (hist @ [t]) ts
      else admitted_ref mc w hist ts)"

lemma admitted_eq_ref:
  assumes "tracks l hist t" "sorted (t # ts)"
  shows "admitted l ts = admitted_ref (max_calls l) (time_window l) hist ts"
  using assms
proof (induction ts arbitrary: l hist t)
  case (Cons t' ts)
  have ok: "fst (acquire t' l) \<longleftrightarrow> length (filter (\<lambda>c. t' - c < time_window l) hist) < max_calls l"
    using Cons.prems filter_window_later [of t t' "time_window l" "calls l" hist]
    by (auto simp: tracks_def acquire_def Let_def duration_since_def)
  have "tracks (snd (acquire t' l)) (if fst (acquire t' l) then hist @ [t'] else hist) t'"
    using Cons.prems by (intro tracks_acquire [where t = t]) auto
  with Cons.IH [of "snd (acquire t' l)" "if fst (acquire t' l) then hist @ [t'] else hist" t'] Cons.prems(2)
  show ?case by (auto simp: case_prod_beta ok)
qed simp

text \<open>C21: The limiter, which forgets calls that left the window, admits exactly the calls that the
  reference limiter with unbounded memory admits.\<close>

theorem limiter_equals_reference:
  assumes "sorted ts"
  shows "admitted (limiter_new mc w) ts = admitted_ref mc w [] ts"
  using admitted_eq_ref [OF tracks_new, of 0 ts mc w] assms by (simp add: limiter_new_def)

theorem limiter_equals_reference_witness: "admitted (limiter_new 2 10) [0, 1, 2, 11] = [0, 1, 11]"
proof -
  have "sorted [0 :: nat, 1, 2, 11]" by simp
  from limiter_equals_reference [OF this, of 2 10] show ?thesis by simp
qed

section \<open>Circuit breaker\<close>

text \<open>C25: In every state a breaker can reach, the circuit is open exactly when the failure count has
  reached the threshold, and a probe is outstanding only on an open circuit.\<close>

theorem breaker_invariant:
  assumes "breaker_reachable thr rec b"
  shows "(opened_at b \<noteq> None) = (threshold b \<le> failures b) \<and> (half_open b \<longrightarrow> opened_at b \<noteq> None)"
  using breaker_reachable_inv [OF assms] by (auto simp: breaker_inv_def)

theorem breaker_invariant_witness:
  "opened_at (record_failure 7 (breaker_new 1 10)) \<noteq> None \<and>
   threshold (record_failure 7 (breaker_new 1 10)) \<le> failures (record_failure 7 (breaker_new 1 10))"
proof -
  have "breaker_reachable 1 10 (record_failure 7 (breaker_new 1 10))"
    by (rule breaker_reachable.reach_step [OF breaker_reachable.reach_new breaker_step.step_failure])
  from breaker_invariant [OF this] show ?thesis by (simp add: record_failure_def breaker_new_def saturating_add_def Let_def)
qed

text \<open>C24: After as many failures in a row as the threshold, starting from a fresh breaker, every request
  is refused until the recovery time has passed since the last failure, and the first one after it is
  admitted as a probe.\<close>

theorem breaker_opens_and_probes:
  assumes "length ts + 1 = unat (max thr 1)"
  shows "(let b = fail_run (breaker_new thr rec) (ts @ [t0])
          in admit now b = (if duration_since now t0 < rec then (False, b) else (True, b\<lparr>half_open := True\<rparr>)))"
proof -
  let ?b = "fail_run (breaker_new thr rec) (ts @ [t0])"
  have new: "\<not> half_open (breaker_new thr rec)" "breaker_inv (breaker_new thr rec)"
    "unat (failures (breaker_new thr rec)) + length ts + 1 = unat (threshold (breaker_new thr rec))"
    using assms by (simp_all add: breaker_inv_new) (simp_all add: breaker_new_def)
  have "recovery (record_failure t b) = recovery b" for t b by (simp add: record_failure_def Let_def)
  then have "recovery (fail_run b us) = recovery b" for b us by (induction us arbitrary: b) simp_all
  then have "recovery ?b = rec" by (simp add: breaker_new_def)
  with fail_run_opens [OF new, of t0] show ?thesis by (auto simp: admit_def Let_def)
qed

theorem breaker_opens_and_probes_witness:
  "fst (admit 5 (fail_run (breaker_new 2 10) [1, 3])) = False \<and> fst (admit 13 (fail_run (breaker_new 2 10) [1, 3])) = True"
proof -
  have "max (2 :: u32) 1 = 2" by (simp add: max_def word_le_nat_alt)
  then show ?thesis using breaker_opens_and_probes [of "[1]" 2 10 3 5] breaker_opens_and_probes [of "[1]" 2 10 3 13]
    by (simp add: duration_since_def Let_def)
qed

text \<open>A half-open breaker admits every request, not only one probe: a second request after the
  recovery time is admitted before the first has reported.\<close>

theorem half_open_admits_every_request:
  assumes "opened_at b = Some t0" and "recovery b \<le> duration_since now t0" and "now \<le> now'"
  shows "fst (admit now b) \<and> fst (admit now' (snd (admit now b)))"
  using assms by (simp add: admit_def duration_since_def)

theorem half_open_admits_every_request_witness:
  "let b = breaker_default\<lparr>opened_at := Some 0\<rparr>; t = from_secs 100
   in fst (admit t b) \<and> fst (admit t (snd (admit t b)))"
  using half_open_admits_every_request [of "breaker_default\<lparr>opened_at := Some 0\<rparr>" 0 "from_secs 100" "from_secs 100"]
  by (simp add: breaker_default_def breaker_new_def RECOVERY_WINDOW_def from_secs_def duration_since_def)

section \<open>Configuration\<close>

text \<open>C35: In a configuration that validates every integer field and the store URL satisfy their documented
  bounds, each of the two float fields is in its documented range or is NaN, which the tests let through,
  the endpoint starts with \<^verbatim>\<open>http\<close> or \<^verbatim>\<open>https\<close> and has no trailing slash, and nothing but the endpoint
  differs from the input.\<close>

theorem validate_accepts_valid:
  assumes "validate c = (Inr (), c')"
  shows "valid_config c' \<and> (prefix ''http://'' (endpoint c') \<or> prefix ''https://'' (endpoint c')) \<and>
         last (endpoint c') \<noteq> CHR ''/'' \<and> c' = c\<lparr>endpoint := endpoint c'\<rparr>"
  using validate_Inr [OF assms] validate_config [of c] assms by simp

lemma sample_validates:
  "validate (sample_config\<lparr>endpoint := ''https://a.b/api/v1/'', high_watermark_ratio := r\<rparr>) =
     (if f64_le r (Fin 0) \<or> f64_lt (Fin 1) r
      then Inl \<lparr>problems = [''high_watermark_ratio must be within (0, 1]'']\<rparr> else Inr (),
      sample_config\<lparr>endpoint := ''https://a.b'', high_watermark_ratio := r\<rparr>)"
proof -
  let ?c = "sample_config\<lparr>endpoint := ''https://a.b/api/v1/'', high_watermark_ratio := r\<rparr>"
  have "trim ''https://a.b/api/v1/'' = ''https://a.b/api/v1/''" "strip_endpoint ''https://a.b/api/v1/'' = ''https://a.b''"
    "endpoint_problems ''https://a.b'' = []" "utf8_len ''0123456789'' = 10"
    by code_simp+
  then have "normalize_endpoint ?c = ([], ?c\<lparr>endpoint := ''https://a.b''\<rparr>)" "utf8_len (api_key ?c) = 10"
    by (simp_all add: normalize_endpoint_def Let_def sample_config_def config_new_def)
  then show ?thesis
    by (simp add: validate_def Let_def validate_numeric_def validate_optional_def)
       (simp add: sample_config_def config_new_def const_defs)
qed

theorem validate_accepts_valid_witness: "valid_config (sample_config\<lparr>endpoint := ''https://a.b'', high_watermark_ratio := Fin 1\<rparr>)"
  using validate_accepts_valid [of "sample_config\<lparr>endpoint := ''https://a.b/api/v1/'', high_watermark_ratio := Fin 1\<rparr>"]
    sample_validates [of "Fin 1"] by simp

section \<open>Encryption\<close>

text \<open>C26: What was encrypted decrypts under the same key and associated data to the same value, with the
  entries of its objects in the order of their keys, which is how the maps of \<^verbatim>\<open>serde_json\<close> keep them.
  Assumed of the crates: base64 and AES-GCM invert themselves, and the JSON parser accepts the texts of
  RFC 8259; of the value: integers of 64 bits, floats that the parser reads back as they are written
  (it does not promise that for every float), distinct keys, and at most 126 levels.\<close>

theorem encrypt_then_decrypt:
  assumes "b64_ok cr" and "aead_ok cr (cipher_key enc)" and "json_ok rd cr" and "length nonce = NONCE_SIZE"
    and "readable rd (json_float cr) v" and "nested 126 v"
  shows "\<exists>e. encrypt cr enc nonce v aad = Inr e \<and> decrypt cr enc e aad = Inr (sort_value v)"
  by (rule encrypt_decrypt [OF assms(1,2) canonical_parsed [OF assms(3,5,6)] assms(4)])

theorem encrypt_then_decrypt_witness:
  "let v = Object [(''b'', String [CHR 0x22, CHR 0xE9]), (''a'', Array [Number (NegInt (- 7)), Null])]
   in \<exists>e. encrypt sample_crypto \<lparr>cipher_key = []\<rparr> (replicate 12 0) v (Some ''p'') = Inr e \<and>
        decrypt sample_crypto \<lparr>cipher_key = []\<rparr> e (Some ''p'') =
          Inr (Object [(''a'', Array [Number (NegInt (- 7)), Null]), (''b'', String [CHR 0x22, CHR 0xE9])])"
proof -
  let ?v = "Object [(''b'', String [CHR 0x22, CHR 0xE9]), (''a'', Array [Number (NegInt (- 7)), Null])]"
  have "sort_value ?v = Object [(''a'', Array [Number (NegInt (- 7)), Null]), (''b'', String [CHR 0x22, CHR 0xE9])]"
    by code_simp
  with encrypt_then_decrypt [OF sample_crypto_ok, of "replicate 12 0" ?v "\<lparr>cipher_key = []\<rparr>" "Some ''p''"] show ?thesis
    by (simp add: NONCE_SIZE_def)
qed

section \<open>Canonical JSON\<close>

text \<open>C32: The canonical text identifies a value: two values have the same text exactly when they differ in
  the order of the entries of their objects at most. So the two sides of an encrypted channel agree on the
  text whatever the iteration order of their maps, and no two different payloads share one.\<close>

theorem canonical_json_identifies:
  assumes "float_format fmt" and "normal_value v" and "normal_value w"
  shows "canonical_json fmt v = canonical_json fmt w \<longleftrightarrow> sort_value v = sort_value w"
  using assms by (rule canonical_json_inject)

text \<open>C31: The canonical text is JSON: a reader that follows RFC 8259 and knows nothing of the serializer
  reads it as the value with sorted entries, whatever its strings contain; assumed are integers of 64
  bits, floats whose text is read back, distinct keys and at most 126 levels.\<close>

theorem canonical_json_is_read:
  assumes "readable rd fmt v" and "nested 126 v"
  shows "read_json rd (canonical_json fmt v) = Some (sort_value v)"
  using assms by (rule read_canonical)

theorem canonical_json_is_read_witness:
  "read_json (\<lambda>_. None) (canonical_json (\<lambda>_. []) (Object [(''b'', Array [Null, Bool True]), (''a'', String [CHR 0x0A])])) =
     Some (Object [(''a'', String [CHR 0x0A]), (''b'', Array [Null, Bool True])])"
proof -
  have "sort_value (Object [(''b'', Array [Null, Bool True]), (''a'', String [CHR 0x0A])]) =
      Object [(''a'', String [CHR 0x0A]), (''b'', Array [Null, Bool True])]"
    by code_simp
  then show ?thesis
    using canonical_json_is_read [of "\<lambda>_. None" "\<lambda>_. []" "Object [(''b'', Array [Null, Bool True]), (''a'', String [CHR 0x0A])]"]
    by simp
qed

text \<open>A rendering of floats that qualifies: numerator and denominator around the letter e.\<close>

definition sample_float_text :: "f64 \<Rightarrow> string" where
  "sample_float_text x = (case x of Fin r \<Rightarrow> show_int (fst (quotient_of r)) @ ''e'' @ show_int (snd (quotient_of r)) | _ \<Rightarrow> ''e'')"

lemma sample_float_format: "float_format sample_float_text"
proof -
  have chars: "list_all number_char (show_int i)" "CHR ''e'' \<notin> set (show_int i)" for i
    by (simp_all add: show_int_number)
  have "r = s" if "sample_float_text (Fin r) = sample_float_text (Fin s)" for r s
  proof -
    have "takeWhile (\<lambda>c. c \<noteq> CHR ''e'') (show_int i @ ''e'' @ x) = show_int i" for i x
      using chars(2) [of i] by (induction "show_int i") (auto simp: takeWhile_append)
    then have "show_int (fst (quotient_of r)) = show_int (fst (quotient_of s))"
      using that unfolding sample_float_text_def f64.case by metis
    with that have "quotient_of r = quotient_of s"
      by (simp add: sample_float_text_def show_int_inject prod_eq_iff)
    then show ?thesis by (rule quotient_of_inject)
  qed
  then show ?thesis using chars(1) by (auto simp: float_format_def sample_float_text_def number_char_def)
qed

theorem canonical_json_identifies_witness:
  "canonical_json sample_float_text (Object [(''b'', Null), (''a'', Bool True)]) =
     canonical_json sample_float_text (Object [(''a'', Bool True), (''b'', Null)]) \<and>
   canonical_json sample_float_text (Array [Null, String ''x'']) \<noteq> canonical_json sample_float_text (Array [String ''x'', Null])"
  using canonical_json_identifies [OF sample_float_format, of "Object [(''b'', Null), (''a'', Bool True)]" "Object [(''a'', Bool True), (''b'', Null)]"]
    canonical_json_identifies [OF sample_float_format, of "Array [Null, String ''x'']" "Array [String ''x'', Null]"]
  by simp

section \<open>Redaction\<close>

text \<open>C28: After redaction no entry under a sensitive key is anything but the placeholder, in the first ten
  levels of the metadata; redacting again changes nothing, and every other field is untouched.\<close>

theorem redact_event_complete:
  "redacted_upto r MAX_REDACT_DEPTH (ev_metadata (redact_event r e)) \<and>
   redact_event r (redact_event r e) = redact_event r e \<and>
   redact_event r e = e\<lparr>ev_metadata := ev_metadata (redact_event r e)\<rparr>"
  using redact_inner_redacted [of r 0 "ev_metadata e"] redact_inner_idem [of r "ev_metadata e" 0]
  by (simp add: redact_event_def redact_value_def)

section \<open>Backoff\<close>

text \<open>C30: For a base of whole seconds the delay of attempt \<open>n\<close> is exactly \<open>min (s * 2^n) m\<close>, in spite of
  the floating-point arithmetic, the clamp of the exponent and overflow to infinity.\<close>

theorem backoff_is_capped_doubling:
  assumes "0 < s" and "s < 2 ^ 53" and "m < 2 ^ 1024"
  shows "calculate_backoff_delay n (f64_of_nat s) (Fin m) = Fin (min (of_nat s * 2 ^ unat n) m)"
  using assms by (rule calculate_backoff_delay_doubles)

lemma three_hundred_small: "(300 :: rat) < 2 ^ 1024"
proof -
  have "(300 :: rat) < 2 ^ 9" by simp
  also have "(2 :: rat) ^ 9 \<le> 2 ^ 1024" by (rule power_increasing) simp_all
  finally show ?thesis .
qed

theorem backoff_is_capped_doubling_witness: "calculate_backoff_delay 2 (f64_of_nat 30) (Fin 300) = Fin 120"
  using backoff_is_capped_doubling [of 30 300 2] three_hundred_small by simp

section \<open>Persistence\<close>

text \<open>The in-memory store returns a record until its lifetime is over, whatever was stored before, and
  not afterwards.\<close>

theorem store_set_then_get:
  assumes "store_inv st" and "plain_ns ns" and "0 < ttl" and "now \<le> t"
  shows "fst (store_get_key ns k t (snd (store_set_key ns k v ttl now st))) =
         Inr (if t < now + from_secs ttl then Some v else None)"
proof -
  obtain st' where s: "store_set_key ns k v ttl now st = (Inr (), st')" "store_inv st'"
      "store_live t st' ns k = (if t < now + from_secs ttl then Some v else None)"
    using mem.set_key_law [OF assms(1-3), of k v now] assms by (auto simp: in_memory_handler_def)
  with mem.get_key_law [OF s(2) assms(2), of k t] show ?thesis by (auto simp: in_memory_handler_def)
qed

theorem store_set_then_get_witness:
  "fst (store_get_key ''ns'' ''k'' (from_secs 9) (snd (store_set_key ''ns'' ''k'' ''v'' 10 0 []))) = Inr (Some ''v'')"
  using store_set_then_get [of "[]" "''ns''" 10 0 "from_secs 9" "''k''" "''v''"]
  by (simp add: store_inv_def plain_ns_def from_secs_def)

text \<open>After a namespace is cleared it lists no keys, and the records of every other namespace are still
  there.\<close>

theorem store_clear_isolated:
  assumes "store_inv st" and "plain_ns ns" and "plain_ns ns'" and "now \<le> t"
  shows "fst (store_list_keys ns t (snd (store_clear_namespace ns now st))) = Inr [] \<and>
         (ns' = ns \<or> store_live t (snd (store_clear_namespace ns now st)) ns' k = store_live t st ns' k)"
  using mem.clear_then_list [OF assms(1,2,4)] store_clear_live [OF assms(2,3,1)] by (simp add: in_memory_handler_def)

theorem store_clear_isolated_witness:
  "fst (store_list_keys ''a'' 0 (snd (store_clear_namespace ''a'' 0 [(''a:k'', \<lparr>entry_value = ''v'', expires_at = None\<rparr>)]))) = Inr []"
  using store_clear_isolated [of "[(''a:k'', \<lparr>entry_value = ''v'', expires_at = None\<rparr>)]" "''a''" "''b''" 0 0]
  by (simp add: store_inv_def plain_ns_def)

section \<open>Install identifier\<close>

text \<open>C36: Without an override and with no file at the path, the fresh identifier is returned; when it could
  be written, and the file system reads back what it wrote, every later resolution without an override
  returns that identifier and leaves the file system as it is. When the write fails the identifier
  lasts only as long as the process.\<close>

theorem install_id_stable:
  assumes "read_to_string fso path fs = Inl IoNotFound" and "trim fresh = fresh" and "fresh \<noteq> []"
    and "resolve_install_id_from fso path None fresh fs = (i, fs')"
  shows "i = fresh \<and> fs' = snd (persist_install_id fso path fresh fs) \<and>
    (if fst (persist_install_id fso path fresh fs) = Inr () \<and> read_to_string fso path fs' = Inr fresh
     then \<forall>fresh'. resolve_install_id_from fso path None fresh' fs' = (fresh, fs') else True)"
  using assms by (auto simp: resolve_install_id_from_def)

definition sample_fs :: "string option FileSystem" where
  "sample_fs =
     \<lparr> read_to_string = (\<lambda>path fs. case fs of None \<Rightarrow> Inl IoNotFound | Some s \<Rightarrow> Inr s),
       create_dir_all = (\<lambda>path fs. (Inr (), fs)), write_file = (\<lambda>path s fs. (Inr (), Some s)) \<rparr>"

theorem install_id_stable_witness:
  "resolve_install_id_from sample_fs [''d'', ''f''] None ''y'' (snd (resolve_install_id_from sample_fs [''d'', ''f''] None ''x'' None)) =
     (''x'', Some ''x'')"
proof -
  have "trim ''x'' = ''x''" by code_simp
  moreover obtain i fs' where r: "resolve_install_id_from sample_fs [''d'', ''f''] None ''x'' None = (i, fs')" by (metis prod.exhaust)
  moreover have "persist_install_id sample_fs [''d'', ''f''] ''x'' None = (Inr (), Some ''x'')"
      "read_to_string sample_fs [''d'', ''f''] None = Inl IoNotFound" "read_to_string sample_fs [''d'', ''f''] (Some ''x'') = Inr ''x''"
    by (simp_all add: sample_fs_def persist_install_id_def path_parent_def)
  ultimately have "fs' = Some ''x''" "\<forall>fresh'. resolve_install_id_from sample_fs [''d'', ''f''] None fresh' fs' = (''x'', fs')"
    using install_id_stable [OF _ _ _ r] by auto
  then show ?thesis using r by simp
qed

section \<open>Engine seam\<close>

text \<open>C37: The bridge accepts a metric exactly when its type is one of the seven wire names. An accepted metric
  keeps type, value, time, endpoint and tags and is handed to the agent; any other is reported as an
  error and no task is spawned for it.\<close>

theorem bridge_metric_conversion:
  "case to_agent_metric m of
     Inr x \<Rightarrow> metric_type_as_str (mt_metric_type x) = fm_metric_type m \<and> mt_value x = fm_value m \<and>
       mt_timestamp x = fm_timestamp m \<and> mt_endpoint x = fm_endpoint m \<and> mt_tags x = fm_tags m \<and>
       telemetry_send_metric ext other n m = (Inr (), send_metric ext other n x)
   | Inl e \<Rightarrow> fm_metric_type m \<notin> range metric_type_as_str \<and> telemetry_send_metric ext other n m = (Inl e, Some)"
proof (cases "from_str_name (fm_metric_type m)")
  case None
  then have "fm_metric_type m \<notin> range metric_type_as_str" using from_str_name_Some by fastforce
  with None show ?thesis by (simp add: to_agent_metric_def telemetry_send_metric_def)
next
  case (Some t)
  then show ?thesis by (simp add: to_agent_metric_def telemetry_send_metric_def from_str_name_Some)
qed

section \<open>Logging\<close>

text \<open>C38: The date of a log timestamp is the Gregorian date: day zero is the first of January 1970, and the
  conversion of the next day number is the next day of the calendar with its leap years and month
  lengths, for every day before and after.\<close>

theorem log_dates_are_gregorian:
  "civil_from_days 0 = (1970, 1, 1) \<and> civil_from_days (days + 1) = next_day (civil_from_days days)"
proof -
  have "civil_from_days 0 = (1970, 1, 1)" by code_simp
  then show ?thesis using civil_from_days_Suc by simp
qed

text \<open>The JSON encoding of a log string contains no control character, so that a record stays on one
  line whatever was logged, and different strings have different encodings.\<close>

theorem log_strings_safe: "list_all (\<lambda>c. \<not> is_control c) (json_string s) \<and> (json_string s = json_string s' \<longleftrightarrow> s = s')"
  using json_string_not_control by (auto simp: list_all_iff json_string_inject)

end
