(* ===== verification/Agent_Redaction.thy ===== *)
theory Agent_Redaction
  imports Agent_Safety
begin

text \<open>
  Redaction and the buffer: a buffer whose events are all redacted stays so under every pass of the
  enqueue loop with a redacted event, and under a flush, whatever its outcome.
\<close>

definition buffer_redacted :: "'st astate \<Rightarrow> bool" where
  "buffer_redacted s \<longleftrightarrow>
     (\<forall>x \<in> item ` set (events (core (fst s))). redacted_upto (redactor (fst s)) MAX_REDACT_DEPTH (ev_metadata x))"

lemma buffer_redacted_subset:
  "buffer_redacted s \<Longrightarrow> redactor (fst s') = redactor (fst s) \<Longrightarrow>
   item ` set (events (core (fst s'))) \<subseteq> item ` set (events (core (fst s))) \<Longrightarrow> buffer_redacted s'"
  unfolding buffer_redacted_def by auto

section \<open>Enqueueing\<close>

lemma event_pass_items:
  assumes "enqueue_event_pass ext x s = EnqDone r s' \<or> enqueue_event_pass ext x s = EnqRetry s' \<or> enqueue_event_pass ext x s = EnqWait s'"
  shows "redactor (fst s') = redactor (fst s) \<and>
         item ` set (events (core (fst s'))) \<subseteq> insert x (item ` set (events (core (fst s))))"
proof -
  obtain sh w where s: "s = (sh, w)" by (cases s)
  show ?thesis
  proof (cases "length (events (core sh)) < buffer_size (config sh)")
    case True
    then show ?thesis using event_pass_room [of sh ext x w] assms s by (auto simp: same_agent_def buffered_def)
  next
    case False
    then show ?thesis using assms s
      by (cases "buffer_overflow_policy (config sh)"; cases "events (core sh)") (auto simp: enqueue_event_pass_def Let_def)
  qed
qed

lemma event_pass_redacted:
  assumes "enqueue_event_pass ext x s = EnqDone r s' \<or> enqueue_event_pass ext x s = EnqRetry s' \<or> enqueue_event_pass ext x s = EnqWait s'"
    and "buffer_redacted s" and "redacted_upto (redactor (fst s)) MAX_REDACT_DEPTH (ev_metadata x)"
  shows "buffer_redacted s' \<and> redactor (fst s') = redactor (fst s)"
  using event_pass_items [OF assms(1)] assms(2,3) unfolding buffer_redacted_def by auto

lemma enqueue_redacted:
  assumes other: "\<And>k s. buffer_redacted s \<Longrightarrow> buffer_redacted (other k s) \<and> redactor (fst (other k s)) = redactor (fst s)"
    and "enqueue_event ext other n x s = Some (r, s')" and "buffer_redacted s"
    and "redacted_upto (redactor (fst s)) MAX_REDACT_DEPTH (ev_metadata x)"
  shows "buffer_redacted s'"
  using assms(2-4)
proof (induction n arbitrary: s)
  case (Suc n)
  show ?case
  proof (cases "enqueue_event_pass ext x s")
    case (EnqDone r1 s1)
    then show ?thesis using event_pass_redacted [OF _ Suc.prems(2,3), of ext r1 s1] Suc.prems(1) by simp
  next
    case (EnqRetry s1)
    then have "buffer_redacted s1" "redactor (fst s1) = redactor (fst s)"
      using event_pass_redacted [OF _ Suc.prems(2,3), of ext r s1] by simp_all
    then show ?thesis using Suc.IH [of s1] Suc.prems(1,3) EnqRetry by simp
  next
    case (EnqWait s1)
    then have "buffer_redacted s1" "redactor (fst s1) = redactor (fst s)"
      using event_pass_redacted [OF _ Suc.prems(2,3), of ext r s1] by simp_all
    then show ?thesis using other [of s1 n] Suc.IH [of "other n s1"] Suc.prems(1,3) EnqWait by simp
  qed (use Suc.prems in simp)
qed simp

section \<open>Flushing\<close>

lemma requeue_one_items:
  "item ` set (fst (requeue_one cap (y, k) (d, m, e))) \<subseteq> insert y (item ` set d)"
  by (auto dest: in_set_butlastD)

lemma requeue_items: "item ` set (fst (requeue d cap xs ks n)) \<subseteq> item ` set d \<union> set xs"
proof -
  have "item ` set (fst (fold (requeue_one cap) ps a)) \<subseteq> item ` set (fst a) \<union> fst ` set ps" for ps a
  proof (induction ps arbitrary: a)
    case (Cons q ps)
    obtain y k d m e where q: "q = (y, k)" "a = (d, m, e)" by (metis prod_cases3 surj_pair)
    have "item ` set (fst (requeue_one cap q a)) \<subseteq> insert y (item ` set d)" unfolding q by (rule requeue_one_items)
    with Cons.IH [of "requeue_one cap q a"] show ?case unfolding q by (simp del: requeue_one.simps) blast
  qed simp
  from this [of "rev (zip xs ks)" "(d, n, [])"] show ?thesis
    unfolding requeue_def by (auto dest!: subsetD set_zip_leftD)
qed

lemma finish_events_items:
  "redactor (fst (finish_events out xs ks s)) = redactor (fst s) \<and>
   item ` set (events (core (fst (finish_events out xs ks s)))) \<subseteq> item ` set (events (core (fst s))) \<union> set xs"
proof (cases out)
  case (Failed e)
  then show ?thesis using requeue_items [of "events (core (fst s))" "buffer_size (config (fst s))" xs ks "events_dropped (core (fst s))"]
    by (simp add: finish_events_def requeue_events_def fail_events_def bump_flush_failures_def Let_def case_prod_beta)
qed (simp_all add: finish_events_def accept_events_def Let_def case_prod_beta)

lemma flush_events_redacted:
  assumes "buffer_redacted s"
  shows "buffer_redacted (flush_events ext s)"
proof -
  obtain sh w where s: "s = (sh, w)" by (cases s)
  define b where "b = send_batch ext (Events (map item (events (core sh)))) (transport sh, w)"
  define s1 where "s1 = (sh\<lparr>core := core_set_last_flush ext w (snd (snd (drain_events (core sh)))), transport := fst (snd b)\<rparr>, snd (snd b))"
  define f where "f = finish_events (fst b) (map item (events (core sh))) (map redis_key (events (core sh))) s1"
  have "redactor (fst f) = redactor sh" "item ` set (events (core (fst f))) \<subseteq> item ` set (events (core sh))"
    using finish_events_items [of "fst b" "map item (events (core sh))" "map redis_key (events (core sh))" s1]
    by (simp_all add: f_def s1_def core_set_last_flush_def drain_events_def drain_def)
  then have "buffer_redacted f" using buffer_redacted_subset [OF assms] s by simp
  moreover have "flush_events ext s = s \<or> (\<exists>c. events c = [] \<and> flush_events ext s = (sh\<lparr>core := c\<rparr>, w)) \<or> flush_events ext s = f"
    unfolding s f_def s1_def b_def by (simp add: flush_events_def drain_events_def drain_def Let_def case_prod_beta)
  ultimately show ?thesis using assms by (auto simp: buffer_redacted_def)
qed

end
