(* ===== verification/Redis_Client.thy ===== *)
theory Redis_Client
  imports Agent_Durability
begin

text \<open>
  The Redis client handler as a durable store. The locale \<open>redis_server\<close> states what the handler relies on:
  the documented effect of \<^verbatim>\<open>SET key value EX ttl\<close>, \<^verbatim>\<open>GET\<close>, \<^verbatim>\<open>DEL\<close> and \<^verbatim>\<open>KEYS pattern\<close> on a server that answers.
  Under it the handler satisfies the contract of a store, as long as neither the key prefix nor the namespace has a
  character that \<^verbatim>\<open>KEYS\<close> reads as a wildcard. The reference server at the end has an expiry per key and matches
  patterns with stars and question marks.
\<close>

section \<open>The server\<close>

text \<open>The characters with a meaning in a pattern: star, question mark, brackets, caret and backslash.\<close>

definition wildcard :: "char \<Rightarrow> bool" where
  "wildcard c \<longleftrightarrow> (of_char c :: nat) \<in> {42, 63, 91, 93, 94, 92}"

definition literal :: "string \<Rightarrow> bool" where
  "literal s \<longleftrightarrow> list_all (\<lambda>c. \<not> wildcard c) s"

locale redis_server =
  fixes conn :: "'st RedisConnection"
    and live_key :: "Instant \<Rightarrow> 'st \<Rightarrow> string \<Rightarrow> string option"
    and server_ok :: "'st \<Rightarrow> bool"
  assumes set_cmd:
    "server_ok st \<Longrightarrow> 0 < ttl \<Longrightarrow>
       \<exists>st'. conn_set conn d key v ttl now st = (Inr (), st') \<and> server_ok st' \<and>
         (\<forall>t k. live_key t st' k = (if k = key then (if t < now + from_secs ttl then Some v else None) else live_key t st k))"
    and get_cmd:
    "server_ok st \<Longrightarrow>
       \<exists>st'. conn_get conn d key now st = (Inr (live_key now st key), st') \<and> server_ok st' \<and>
         (\<forall>t k. now \<le> t \<longrightarrow> live_key t st' k = live_key t st k)"
    and del_cmd:
    "server_ok st \<Longrightarrow>
       \<exists>st'. conn_del conn d ks now st = (Inr (), st') \<and> server_ok st' \<and>
         (\<forall>t k. live_key t st' k = (if k \<in> set ks then None else live_key t st k))"
    and keys_cmd:
    "server_ok st \<Longrightarrow> literal pre \<Longrightarrow>
       \<exists>ks st'. conn_keys conn d (pre @ ''*'') now st = (Inr ks, st') \<and> server_ok st' \<and> distinct ks \<and>
         set ks = {k. prefix pre k \<and> live_key now st k \<noteq> None} \<and>
         (\<forall>t k. now \<le> t \<longrightarrow> live_key t st' k = live_key t st k)"
    and expired: "server_ok st \<Longrightarrow> live_key now st k = None \<Longrightarrow> now \<le> t \<Longrightarrow> live_key t st k = None"

section \<open>The client handler\<close>

definition client_ns :: "string \<Rightarrow> bool" where
  "client_ns ns \<longleftrightarrow> plain_ns ns \<and> literal ns"

definition client_live ::
  "'st RedisClientHandler \<Rightarrow> (Instant \<Rightarrow> 'st \<Rightarrow> string \<Rightarrow> string option) \<Rightarrow> Instant \<Rightarrow> 'st \<Rightarrow> string \<Rightarrow> string \<Rightarrow> string option" where
  "client_live h live_key t st ns k = live_key t st (full_key h ns k)"

lemma client_ns_used: "client_ns NAMESPACE_EVENTS" "client_ns NAMESPACE_METRICS"
proof -
  have "literal NAMESPACE_EVENTS" "literal NAMESPACE_METRICS"
    by (simp_all add: literal_def wildcard_def NAMESPACE_EVENTS_def NAMESPACE_METRICS_def)
  then show "client_ns NAMESPACE_EVENTS" "client_ns NAMESPACE_METRICS" by (simp_all add: client_ns_def)
qed

lemma full_key_inject:
  assumes "client_ns ns" "client_ns ns'"
  shows "full_key h ns k = full_key h ns' k' \<longleftrightarrow> ns = ns' \<and> k = k'"
proof -
  have "plain_ns ns" "plain_ns ns'" using assms by (simp_all add: client_ns_def)
  from namespaced_key_inject [OF this, of k k'] show ?thesis by (simp only: full_key_def namespaced_key_def same_append_eq)
qed

lemma full_key_in_map:
  assumes "client_ns ns" "client_ns ns'"
  shows "full_key h ns' k \<in> set (map (full_key h ns) ks) \<longleftrightarrow> ns' = ns \<and> k \<in> set ks"
proof
  assume "full_key h ns' k \<in> set (map (full_key h ns) ks)"
  then obtain k' where "k' \<in> set ks" "full_key h ns' k = full_key h ns k'" by auto
  then show "ns' = ns \<and> k \<in> set ks" unfolding full_key_inject [OF assms(2,1)] by simp
qed simp

lemma literal_append [simp]: "literal (a @ b) \<longleftrightarrow> literal a \<and> literal b"
  by (simp add: literal_def)

lemma literal_Cons [simp]: "literal (CHR '':'' # s) \<longleftrightarrow> literal s" "literal []"
  by (simp_all add: literal_def wildcard_def)

locale redis_client = redis_server "connection h" live_key server_ok
  for h :: "'st RedisClientHandler" and live_key :: "Instant \<Rightarrow> 'st \<Rightarrow> string \<Rightarrow> string option" and server_ok :: "'st \<Rightarrow> bool" +
  assumes prefix_literal: "literal (client_key_prefix h)"
begin

lemma client_set_law:
  assumes "server_ok st" "client_ns ns" "0 < ttl"
  shows "\<exists>st'. client_set_key h ns k v ttl now st = (Inr (), st') \<and> server_ok st' \<and>
    (\<forall>t ns' k'. client_ns ns' \<longrightarrow> client_live h live_key t st' ns' k' =
       (if ns' = ns \<and> k' = k then (if t < now + from_secs ttl then Some v else None) else client_live h live_key t st ns' k'))"
proof -
  obtain st' where st': "conn_set (connection h) (command_timeout h) (full_key h ns k) v ttl now st = (Inr (), st')" "server_ok st'"
      "\<And>t k'. live_key t st' k' =
        (if k' = full_key h ns k then (if t < now + from_secs ttl then Some v else None) else live_key t st k')"
    using set_cmd [OF assms(1,3), of "command_timeout h" "full_key h ns k" v now] by blast
  moreover have "full_key h ns' k' = full_key h ns k \<longleftrightarrow> ns' = ns \<and> k' = k" if "client_ns ns'" for ns' k'
    by (rule full_key_inject [OF that assms(2)])
  ultimately show ?thesis by (simp add: client_set_key_def client_live_def)
qed

lemma client_get_law:
  assumes "server_ok st"
  shows "\<exists>st'. client_get_key h ns k now st = (Inr (client_live h live_key now st ns k), st') \<and> server_ok st' \<and>
    (\<forall>t ns' k'. now \<le> t \<and> client_ns ns' \<longrightarrow> client_live h live_key t st' ns' k' = client_live h live_key t st ns' k')"
proof -
  obtain st' where "conn_get (connection h) (command_timeout h) (full_key h ns k) now st = (Inr (live_key now st (full_key h ns k)), st')"
      "server_ok st'" "\<And>t k. now \<le> t \<Longrightarrow> live_key t st' k = live_key t st k"
    using get_cmd [OF assms, of "command_timeout h" "full_key h ns k" now] by blast
  then show ?thesis by (simp add: client_get_key_def client_live_def)
qed

lemma client_delete_law:
  assumes "server_ok st" "client_ns ns"
  shows "\<exists>st'. client_delete_keys h ns ks now st = (Inr (), st') \<and> server_ok st' \<and>
    (\<forall>t ns' k'. client_ns ns' \<longrightarrow> client_live h live_key t st' ns' k' =
       (if ns' = ns \<and> k' \<in> set ks then None else client_live h live_key t st ns' k'))"
proof (cases "ks = []")
  case True
  then show ?thesis using assms by (simp add: client_delete_keys_def)
next
  case False
  obtain st' where f: "conn_del (connection h) (command_timeout h) (map (full_key h ns) ks) now st = (Inr (), st')" "server_ok st'"
    and "\<And>t k. live_key t st' k = (if k \<in> set (map (full_key h ns) ks) then None else live_key t st k)"
    using del_cmd [OF assms(1), of "command_timeout h" "map (full_key h ns) ks" now] by blast
  moreover have "full_key h ns' k' \<in> set (map (full_key h ns) ks) \<longleftrightarrow> ns' = ns \<and> k' \<in> set ks" if "client_ns ns'" for ns' k'
    by (rule full_key_in_map [OF assms(2) that])
  ultimately have "client_live h live_key t st' ns' k' = (if ns' = ns \<and> k' \<in> set ks then None else client_live h live_key t st ns' k')"
    if "client_ns ns'" for t ns' k' using that by (simp only: client_live_def)
  then show ?thesis using False f by (simp add: client_delete_keys_def)
qed

lemma client_list_law:
  assumes "server_ok st" "client_ns ns"
  shows "\<exists>ks st'. client_list_keys h ns now st = (Inr ks, st') \<and> server_ok st' \<and> sorted ks \<and> distinct ks \<and>
    set ks = {k. client_live h live_key now st ns k \<noteq> None} \<and>
    (\<forall>t ns' k'. now \<le> t \<and> client_ns ns' \<longrightarrow> client_live h live_key t st' ns' k' = client_live h live_key t st ns' k')"
proof -
  let ?pre = "client_key_prefix h @ '':'' @ ns @ '':''"
  have "literal ?pre" using assms(2) prefix_literal by (simp add: client_ns_def)
  then obtain full st' where f: "conn_keys (connection h) (command_timeout h) (?pre @ ''*'') now st = (Inr full, st')" "server_ok st'"
      "distinct full" "set full = {k. prefix ?pre k \<and> live_key now st k \<noteq> None}"
      "\<And>t k. now \<le> t \<Longrightarrow> live_key t st' k = live_key t st k"
    using keys_cmd [OF assms(1), of ?pre "command_timeout h" now] by blast
  have "set (short_keys ?pre full) = {k. client_live h live_key now st ns k \<noteq> None}"
    using f(4) by (simp add: set_short_keys client_live_def full_key_def)
  moreover have "client_list_keys h ns now st = (Inr (short_keys ?pre full), st')"
    using f(1) by (simp add: client_list_keys_def)
  ultimately show ?thesis using f by (auto simp: sorted_short_keys distinct_short_keys client_live_def)
qed

lemma client_clear_law:
  assumes "server_ok st" "client_ns ns"
  shows "\<exists>st'. client_clear_namespace h ns now st = (Inr (), st') \<and> server_ok st' \<and>
    (\<forall>t ns' k'. now \<le> t \<and> client_ns ns' \<longrightarrow> client_live h live_key t st' ns' k' =
       (if ns' = ns then None else client_live h live_key t st ns' k'))"
proof -
  obtain ks st1 where l: "client_list_keys h ns now st = (Inr ks, st1)" "server_ok st1"
      "set ks = {k. client_live h live_key now st ns k \<noteq> None}"
      "\<And>t ns' k'. now \<le> t \<Longrightarrow> client_ns ns' \<Longrightarrow> client_live h live_key t st1 ns' k' = client_live h live_key t st ns' k'"
    using client_list_law [OF assms, of now] by blast
  obtain st2 where d: "client_delete_keys h ns ks now st1 = (Inr (), st2)" "server_ok st2"
      "\<And>t ns' k'. client_ns ns' \<Longrightarrow> client_live h live_key t st2 ns' k' =
       (if ns' = ns \<and> k' \<in> set ks then None else client_live h live_key t st1 ns' k')"
    using client_delete_law [OF l(2) assms(2), of ks now] by blast
  have gone: "client_live h live_key t st ns k' = None" if "now \<le> t" "k' \<notin> set ks" for t k'
    using expired [OF assms(1) _ that(1), of "full_key h ns k'"] that(2) l(3) by (simp add: client_live_def)
  have "client_live h live_key t st2 ns' k' = (if ns' = ns then None else client_live h live_key t st ns' k')"
    if "now \<le> t" "client_ns ns'" for t ns' k'
    using d(3) [OF that(2)] l(4) [OF that] gone [OF that(1)] by auto
  then show ?thesis using l(1) d(1,2) by (simp add: client_clear_namespace_def)
qed

end

sublocale redis_client \<subseteq> durable_store "client_handler h" "client_live h live_key" server_ok client_ns
proof (unfold_locales, goal_cases)
  case (1 st ns ttl k v now)
  then show ?case using client_set_law [of st ns ttl k v now] by (simp add: client_handler_def)
next
  case (2 st ns k now)
  then show ?case using client_get_law [of st ns k now] by (simp add: client_handler_def)
next
  case (3 st ns ks now)
  then show ?case using client_delete_law [of st ns ks now] by (simp add: client_handler_def)
next
  case (4 st ns now)
  then show ?case using client_list_law [of st ns now] by (simp add: client_handler_def)
next
  case (5 st ns now)
  then show ?case using client_clear_law [of st ns now] by (simp add: client_handler_def)
qed

sublocale redis_client \<subseteq> agent_store "client_handler h" "client_live h live_key" server_ok client_ns
  by unfold_locales (rule client_ns_used)+

context redis_client
begin

text \<open>The contract as a fact about the handler.\<close>

lemma handler_agent_store: "agent_store (client_handler h) (client_live h live_key) server_ok client_ns"
  by (rule agent_store_axioms)

end

section \<open>A reference server\<close>

text \<open>A key space with an expiry per key. Patterns have stars and question marks, as far as the handler uses
  them; a command never fails, and the time of a command is the one it is given.\<close>

fun glob_match :: "string \<Rightarrow> string \<Rightarrow> bool" where
  "glob_match [] s = (s = [])"
| "glob_match (c # p) [] = (c = CHR ''*'' \<and> glob_match p [])"
| "glob_match (c # p) (d # s) =
     (if c = CHR ''*'' then glob_match p (d # s) \<or> glob_match (c # p) s
      else (c = CHR ''?'' \<or> c = d) \<and> glob_match p s)"

definition reference_connection :: "InMemoryRedisStore RedisConnection" where
  "reference_connection =
     \<lparr> conn_set = (\<lambda>d key value ttl now st.
         (Inr (), AList.update key \<lparr> entry_value = value, expires_at = Some (now + from_secs ttl) \<rparr> st)),
       conn_get = (\<lambda>d key now st. (Inr (map_option entry_value (map_of (retain_live now st) key)), retain_live now st)),
       conn_del = (\<lambda>d ks now st. (Inr (), fold (\<lambda>k s. AList.delete k s) ks st)),
       conn_keys = (\<lambda>d pattern now st. (Inr (filter (glob_match pattern) (map fst (retain_live now st))), retain_live now st)) \<rparr>"

definition reference_live :: "Instant \<Rightarrow> InMemoryRedisStore \<Rightarrow> string \<Rightarrow> string option" where
  "reference_live t st k =
     (case map_of st k of Some e \<Rightarrow> if is_expired e t then None else Some (entry_value e) | None \<Rightarrow> None)"

lemma glob_match_star: "glob_match ''*'' s"
  by (induction s) simp_all

lemma wildcard_star: "wildcard (CHR ''*'')" "wildcard (CHR ''?'')"
  by (simp_all add: wildcard_def)

lemma glob_match_prefix: "literal pre \<Longrightarrow> glob_match (pre @ ''*'') s \<longleftrightarrow> prefix pre s"
proof (induction pre arbitrary: s)
  case Nil
  then show ?case using glob_match_star by simp
next
  case (Cons c pre)
  then have "literal pre" "c \<noteq> CHR ''*''" "c \<noteq> CHR ''?''" using wildcard_star by (auto simp: literal_def)
  then show ?case using Cons.IH by (cases s) auto
qed

lemma reference_live_retain:
  "store_inv st \<Longrightarrow> map_option entry_value (map_of (retain_live now st) k) = reference_live now st k"
  by (auto simp: reference_live_def map_of_retain_live split: option.splits)

lemma reference_live_later:
  "store_inv st \<Longrightarrow> now \<le> t \<Longrightarrow> reference_live t (retain_live now st) k = reference_live t st k"
  by (auto simp: reference_live_def map_of_retain_live split: option.splits dest: is_expired_mono)

lemma reference_keys:
  assumes "store_inv st"
  shows "k \<in> set (map fst (retain_live now st)) \<longleftrightarrow> reference_live now st k \<noteq> None"
proof -
  have "k \<in> set (map fst (retain_live now st)) \<longleftrightarrow> map_of (retain_live now st) k \<noteq> None" by (simp add: map_of_eq_None_iff)
  moreover have "map_of (retain_live now st) k \<noteq> None \<longleftrightarrow> reference_live now st k \<noteq> None"
    using reference_live_retain [OF assms, of now k] by (metis map_option_is_None)
  ultimately show ?thesis by blast
qed

interpretation reference: redis_server reference_connection reference_live store_inv
proof (unfold_locales, goal_cases)
  case (1 st ttl d key v now)
  then show ?case
    by (simp add: reference_connection_def store_inv_def AList.distinct_update reference_live_def AList.update_conv is_expired_def)
next
  case (2 st d key now)
  then show ?case
    by (simp add: reference_connection_def reference_live_retain store_inv_retain_live reference_live_later)
next
  case (3 st d ks now)
  then show ?case using store_inv_fold_delete [OF 3, of "\<lambda>k. k" ks] map_of_fold_delete [of "\<lambda>k. k" ks st]
    by (simp add: reference_connection_def reference_live_def)
next
  case (4 st pre d now)
  then have "set (filter (glob_match (pre @ ''*'')) (map fst (retain_live now st))) = {k. prefix pre k \<and> reference_live now st k \<noteq> None}"
    using glob_match_prefix reference_keys by auto
  moreover have "distinct (filter (glob_match (pre @ ''*'')) (map fst (retain_live now st)))"
    using store_inv_retain_live [OF 4(1), of now] by (simp add: store_inv_def)
  ultimately show ?case using 4 by (simp add: reference_connection_def store_inv_retain_live reference_live_later del: filter_map)
next
  case (5 st now k t)
  then show ?case by (auto simp: reference_live_def split: option.splits if_splits dest: is_expired_mono)
qed

definition reference_client :: "InMemoryRedisStore RedisClientHandler" where
  "reference_client = \<lparr> connection = reference_connection, client_key_prefix = ''guard_agent'', command_timeout = from_millis 5000 \<rparr>"

interpretation reference_client: redis_client reference_client reference_live store_inv
proof -
  have "redis_server (connection reference_client) reference_live store_inv"
    using reference.redis_server_axioms by (simp add: reference_client_def)
  moreover have "literal (client_key_prefix reference_client)" by (simp add: reference_client_def literal_def wildcard_def)
  ultimately show "redis_client reference_client reference_live store_inv"
    by (simp add: redis_client_def redis_client_axioms_def)
qed

lemma finite_reference_live: "finite {k. client_live reference_client reference_live t st ns k \<noteq> None}"
proof -
  have "{k. client_live reference_client reference_live t st ns k \<noteq> None} \<subseteq> full_key reference_client ns -` (fst ` set st)"
  proof
    fix k assume "k \<in> {k. client_live reference_client reference_live t st ns k \<noteq> None}"
    then have "map_of st (full_key reference_client ns k) \<noteq> None"
      by (auto simp: client_live_def reference_live_def split: option.splits)
    then show "k \<in> full_key reference_client ns -` (fst ` set st)" by (simp add: map_of_eq_None_iff)
  qed
  moreover have "finite (full_key reference_client ns -` (fst ` set st))"
    by (rule finite_vimageI) (auto simp: inj_def full_key_def)
  ultimately show ?thesis by (rule finite_subset)
qed

end
