(* ===== verification/Agent_Transparency.thy ===== *)
theory Agent_Transparency
  imports Agent_Buffer
begin

text \<open>
  The durable store seen from the producers. \<open>without_store\<close> is an agent as it would be without a store:
  no handler, no record keys, no persist failures, and the draws of record keys not made. Enqueueing and
  clearing commute with it, whatever the store answers.
\<close>

section \<open>The agent without its store\<close>

definition without_key :: "'a BufferedItem \<Rightarrow> 'a BufferedItem" where
  "without_key b = \<lparr> item = item b, redis_key = None \<rparr>"

definition core_without_store :: "'st CoreState \<Rightarrow> unit CoreState" where
  "core_without_store c =
     \<lparr> events = map without_key (events c), metrics = map without_key (metrics c), redis_handler = None,
       events_flushed = events_flushed c, metrics_flushed = metrics_flushed c,
       events_dropped = events_dropped c, metrics_dropped = metrics_dropped c,
       events_sent = events_sent c, metrics_sent = metrics_sent c,
       events_failed = events_failed c, metrics_failed = metrics_failed c, redis_persist_failures = 0,
       events_failure_streak = events_failure_streak c, metrics_failure_streak = metrics_failure_streak c,
       events_retry_after = events_retry_after c, metrics_retry_after = metrics_retry_after c,
       last_flush_instant = last_flush_instant c, last_flush = last_flush c,
       loop_failures = loop_failures c, status_consecutive_failures = status_consecutive_failures c,
       last_status_push_ok = last_status_push_ok c, cached_rules = cached_rules c,
       rules_last_update = rules_last_update c, rules_fetched = rules_fetched c \<rparr>"

definition shared_without_store :: "'st Shared \<Rightarrow> unit Shared" where
  "shared_without_store sh =
     \<lparr> config = config sh, sh_install_id = sh_install_id sh, transport = transport sh, redactor = redactor sh,
       core = core_without_store (core sh), flush_permits = flush_permits sh, inflight = inflight sh,
       started_at = started_at sh, running = running sh \<rparr>"

definition world_without_store :: "'st World \<Rightarrow> unit World" where
  "world_without_store w =
     \<lparr> clock = clock w, draws = 0, wire = wire w, sent_at = sent_at w, hook_calls = hook_calls w, store = (),
       panicked = panicked w \<rparr>"

definition without_store :: "'st astate \<Rightarrow> unit astate" where
  "without_store s = (shared_without_store (fst s), world_without_store (snd s))"

fun pass_without_store :: "'st enq \<Rightarrow> unit enq" where
  "pass_without_store (EnqDone r s) = EnqDone r (without_store s)"
| "pass_without_store (EnqRetry s) = EnqRetry (without_store s)"
| "pass_without_store (EnqWait s) = EnqWait (without_store s)"
| "pass_without_store EnqPanic = EnqPanic"

lemmas without_store_defs = without_store_def shared_without_store_def core_without_store_def world_without_store_def

section \<open>Operations commute with it\<close>

lemma without_key_item [simp]: "item (without_key b) = item b" "redis_key (without_key b) = None"
  by (simp_all add: without_key_def)

lemma core_without_store_simps [simp]:
  "events (core_without_store c) = map without_key (events c)"
  "metrics (core_without_store c) = map without_key (metrics c)"
  "redis_handler (core_without_store c) = None"
  "events_dropped (core_without_store c) = events_dropped c"
  "metrics_dropped (core_without_store c) = metrics_dropped c"
  "core_without_store (c\<lparr>events := es\<rparr>) = (core_without_store c)\<lparr>events := map without_key es\<rparr>"
  "core_without_store (c\<lparr>metrics := ms\<rparr>) = (core_without_store c)\<lparr>metrics := map without_key ms\<rparr>"
  "core_without_store (c\<lparr>events_dropped := n\<rparr>) = (core_without_store c)\<lparr>events_dropped := n\<rparr>"
  "core_without_store (c\<lparr>metrics_dropped := n\<rparr>) = (core_without_store c)\<lparr>metrics_dropped := n\<rparr>"
  "core_without_store (c\<lparr>redis_persist_failures := n\<rparr>) = core_without_store c"
  by (simp_all add: core_without_store_def)

lemma shared_without_store_simps [simp]:
  "config (shared_without_store sh) = config sh" "redactor (shared_without_store sh) = redactor sh"
  "running (shared_without_store sh) = running sh" "core (shared_without_store sh) = core_without_store (core sh)"
  "shared_without_store (sh\<lparr>core := c\<rparr>) = (shared_without_store sh)\<lparr>core := core_without_store c\<rparr>"
  "shared_without_store (spawn_gated_flush sh) = spawn_gated_flush (shared_without_store sh)"
  by (simp_all add: shared_without_store_def spawn_gated_flush_def)

lemma without_store_Pair [simp]: "without_store (sh, w) = (shared_without_store sh, world_without_store w)"
  by (simp add: without_store_def)

lemma persist_without_store:
  assumes "persist_item ext ns pre v c w = (key, c', w')"
  shows "core_without_store c' = core_without_store c" "world_without_store w' = world_without_store w"
    "events c' = events c" "metrics c' = metrics c"
proof -
  show "core_without_store c' = core_without_store c" "events c' = events c" "metrics c' = metrics c"
    using persist_item_frame(1) [OF assms] by auto
  show "world_without_store w' = world_without_store w"
    using assms by (auto simp: persist_item_def draw_uuid_def world_without_store_def Let_def
        split: option.splits sum.splits prod.splits)
qed

lemma persist_no_store: "redis_handler c = None \<Longrightarrow> persist_item ext ns pre v c w = (None, c, w)"
  by (simp add: persist_item_def)

lemma forget_without_store [simp]:
  "world_without_store (forget_key c ns k w) = world_without_store w" "forget_key c ns None w = w"
  by (simp_all add: forget_key_def delete_live_def world_without_store_def split: option.splits)

lemma event_pass_without_store:
  "pass_without_store (enqueue_event_pass ext e (sh, w)) = enqueue_event_pass ext e (without_store (sh, w))"
proof -
  obtain key c1 w1 where p: "persist_item ext NAMESPACE_EVENTS ''event'' (event_to_string ext e) (core sh) w = (key, c1, w1)"
    using prod_cases3 by blast
  show ?thesis
    by (cases "buffer_overflow_policy (config sh)"; cases "events (core sh)")
      (simp_all add: enqueue_event_pass_def Let_def p persist_without_store [OF p] persist_no_store without_key_def)
qed

lemma metric_pass_without_store:
  "pass_without_store (enqueue_metric_pass ext m (sh, w)) = enqueue_metric_pass ext m (without_store (sh, w))"
proof -
  obtain key c1 w1 where p: "persist_item ext NAMESPACE_METRICS ''metric'' (metric_to_string ext m) (core sh) w = (key, c1, w1)"
    using prod_cases3 by blast
  show ?thesis
    by (cases "buffer_overflow_policy (config sh)"; cases "metrics (core sh)")
      (simp_all add: enqueue_metric_pass_def Let_def p persist_without_store [OF p] persist_no_store without_key_def)
qed

lemma enqueue_event_without_store:
  assumes "\<And>k s. without_store (other k s) = other' k (without_store s)"
  shows "map_option (map_prod id without_store) (enqueue_event ext other n e s) = enqueue_event ext other' n e (without_store s)"
proof (induction n arbitrary: s)
  case (Suc n)
  have "enqueue_event_pass ext e (without_store s) = pass_without_store (enqueue_event_pass ext e s)"
    by (cases s) (simp only: event_pass_without_store)
  then show ?case using Suc.IH by (cases "enqueue_event_pass ext e s") (simp_all add: assms del: without_store_Pair)
qed simp

lemma enqueue_metric_without_store:
  assumes "\<And>k s. without_store (other k s) = other' k (without_store s)"
  shows "map_option (map_prod id without_store) (enqueue_metric ext other n m s) = enqueue_metric ext other' n m (without_store s)"
proof (induction n arbitrary: s)
  case (Suc n)
  have "enqueue_metric_pass ext m (without_store s) = pass_without_store (enqueue_metric_pass ext m s)"
    by (cases s) (simp only: metric_pass_without_store)
  then show ?case using Suc.IH by (cases "enqueue_metric_pass ext m s") (simp_all add: assms del: without_store_Pair)
qed simp

lemma hook_without_store [simp]: "world_without_store (fire_hook cfg st err w) = fire_hook cfg st err (world_without_store w)"
  by (simp add: fire_hook_def world_without_store_def split: option.splits)

lemma send_event_without_store:
  assumes "\<And>k s. without_store (other k s) = other' k (without_store s)"
  shows "map_option without_store (send_event ext other n e s) = send_event ext other' n e (without_store s)"
proof -
  have "try_send_event ext other' n e (without_store s) = map_option (map_prod id without_store) (try_send_event ext other n e s)"
    using enqueue_event_without_store [of other other', OF assms] by (cases s) (simp add: try_send_event_def)
  then show ?thesis
    by (auto simp: send_event_def split: option.splits sum.splits)
qed

lemma send_metric_without_store:
  assumes "\<And>k s. without_store (other k s) = other' k (without_store s)"
  shows "map_option without_store (send_metric ext other n m s) = send_metric ext other' n m (without_store s)"
proof -
  have "try_send_metric ext other' n m (without_store s) = map_option (map_prod id without_store) (try_send_metric ext other n m s)"
    using enqueue_metric_without_store [of other other', OF assms] by (cases s) (simp add: try_send_metric_def)
  then show ?thesis
    by (auto simp: send_metric_def split: option.splits sum.splits)
qed

lemma clear_without_store: "without_store (clear_buffer s) = clear_buffer (without_store s)"
  by (cases s) (simp add: clear_buffer_def Let_def world_without_store_def split: option.splits prod.splits)

end
