(* ===== verification/Debug_Output.thy ===== *)
theory Debug_Output
  imports Agent_Lifecycle
begin

text \<open>
  The \<^verbatim>\<open>Debug\<close> implementations of \<^verbatim>\<open>config.rs\<close>, \<^verbatim>\<open>encryption.rs\<close>, \<^verbatim>\<open>transport.rs\<close> and \<^verbatim>\<open>agent.rs\<close> in the one-line format
  \<^verbatim>\<open>{:?}\<close>, and what they show of the secrets of a configuration. The rendering of a float is the
  parameter \<open>float\<close>.
\<close>

section \<open>The standard formatters\<close>

definition debug_str :: "string \<Rightarrow> string" where
  "debug_str s = [CHR 0x22] @ concat (map debug_char s) @ [CHR 0x22]"

definition debug_bool :: "bool \<Rightarrow> string" where
  "debug_bool b = (if b then ''true'' else ''false'')"

definition debug_option :: "('a \<Rightarrow> string) \<Rightarrow> 'a option \<Rightarrow> string" where
  "debug_option show x = (case x of None \<Rightarrow> ''None'' | Some v \<Rightarrow> ''Some('' @ show v @ '')'')"

text \<open>\<^verbatim>\<open>debug_struct\<close> with its fields, closed by \<^verbatim>\<open>finish\<close> or by \<^verbatim>\<open>finish_non_exhaustive\<close>.\<close>

definition debug_fields :: "(string \<times> string) list \<Rightarrow> string" where
  "debug_fields fs = join '', '' (map (\<lambda>(name, text). name @ '': '' @ text) fs)"

definition debug_struct :: "string \<Rightarrow> (string \<times> string) list \<Rightarrow> string" where
  "debug_struct name fs = name @ '' { '' @ debug_fields fs @ '' }''"

definition debug_struct_open :: "string \<Rightarrow> (string \<times> string) list \<Rightarrow> string" where
  "debug_struct_open name fs = name @ '' { '' @ (if fs = [] then [] else debug_fields fs @ '', '') @ ''.. }''"

section \<open>The implementations\<close>

fun debug_policy :: "BufferOverflowPolicy \<Rightarrow> string" where
  "debug_policy Drop = ''Drop''"
| "debug_policy Block = ''Block''"
| "debug_policy Raise = ''Raise''"

fun debug_breaker_state :: "CircuitBreakerState \<Rightarrow> string" where
  "debug_breaker_state Closed = ''Closed''"
| "debug_breaker_state Open = ''Open''"
| "debug_breaker_state HalfOpen = ''HalfOpen''"

text \<open>The derived implementation of \<^verbatim>\<open>RedisConfig\<close>.\<close>

definition debug_redis_config :: "RedisConfig \<Rightarrow> string" where
  "debug_redis_config r =
     debug_struct ''RedisConfig''
       [(''url'', debug_str (redis_url r)), (''key_prefix'', debug_str (key_prefix r)),
        (''command_timeout_ms'', show_nat (command_timeout_ms r))]"

definition debug_config_head :: "(f64 \<Rightarrow> string) \<Rightarrow> AgentConfig \<Rightarrow> (string \<times> string) list" where
  "debug_config_head float c =
     [(''endpoint'', debug_str (endpoint c)), (''project_id'', debug_option debug_str (project_id c)),
      (''api_key'', debug_str ''<redacted>''), (''buffer_size'', show_nat (buffer_size c)),
      (''flush_interval'', show_nat (flush_interval c)), (''status_interval'', show_nat (status_interval c)),
      (''dynamic_rule_interval'', show_nat (dynamic_rule_interval c)),
      (''high_watermark_ratio'', float (high_watermark_ratio c)),
      (''max_concurrent_flushes'', show_nat (max_concurrent_flushes c)),
      (''buffer_overflow_policy'', debug_policy (buffer_overflow_policy c)),
      (''enable_events'', debug_bool (enable_events c)), (''enable_metrics'', debug_bool (enable_metrics c)),
      (''retry_attempts'', show_nat (unat (retry_attempts c))), (''timeout'', show_nat (timeout c)),
      (''backoff_factor'', float (backoff_factor c)), (''sensitive_headers'', debug_strings (sensitive_headers c)),
      (''max_payload_size'', show_nat (max_payload_size c)), (''guard_version'', debug_option debug_str (guard_version c)),
      (''guard_core_version'', debug_option debug_str (guard_core_version c)),
      (''compression_enabled'', debug_bool (compression_enabled c)),
      (''compression_threshold'', show_nat (compression_threshold c)),
      (''install_id'', debug_option debug_str (install_id_override c)),
      (''payload_signing_secret'', debug_option debug_str (map_option (\<lambda>_. ''<redacted>'') (payload_signing_secret c))),
      (''project_encryption_key'', debug_option debug_str (map_option (\<lambda>_. ''<redacted>'') (project_encryption_key c))),
      (''on_error'', debug_option debug_str (map_option (\<lambda>_. ''<hook>'') (on_error c)))]"

definition debug_config :: "(f64 \<Rightarrow> string) \<Rightarrow> AgentConfig \<Rightarrow> string" where
  "debug_config float c =
     debug_struct ''AgentConfig'' (debug_config_head float c @ [(''redis'', debug_option debug_redis_config (redis c))])"

definition debug_transport :: "Instant \<Rightarrow> HttpTransport \<Rightarrow> string" where
  "debug_transport now t =
     debug_struct_open ''HttpTransport''
       [(''breaker'', debug_breaker_state (transport_breaker_state now t)), (''requests_sent'', show_nat (unat (requests_sent t))),
        (''requests_failed'', show_nat (unat (requests_failed t))), (''bytes_sent'', show_nat (unat (bytes_sent t)))]"

definition debug_agent :: "'st Shared \<Rightarrow> string" where
  "debug_agent sh =
     debug_struct_open ''GuardAgent''
       [(''install_id'', debug_str (sh_install_id sh)), (''running'', debug_bool (running sh)),
        (''endpoint'', debug_str (endpoint (config sh)))]"

text \<open>The encryptor shows nothing of its key.\<close>

definition debug_encryptor :: "PayloadEncryptor \<Rightarrow> string" where
  "debug_encryptor e = debug_struct_open ''PayloadEncryptor'' []"

section \<open>What they show\<close>

text \<open>Two configurations that an observer without the secrets cannot tell apart.\<close>

definition same_but_secrets :: "AgentConfig \<Rightarrow> AgentConfig \<Rightarrow> bool" where
  "same_but_secrets c d \<longleftrightarrow>
     (\<exists>k s e. d = c\<lparr>api_key := k, payload_signing_secret := map_option (\<lambda>_. s) (payload_signing_secret c),
        project_encryption_key := map_option (\<lambda>_. e) (project_encryption_key c)\<rparr>)"

lemma debug_config_secrets: "same_but_secrets c d \<Longrightarrow> debug_config float d = debug_config float c"
  by (auto simp: same_but_secrets_def debug_config_def debug_config_head_def option.map_comp comp_def)

text \<open>The text of the last field of a structure stands in the text of the structure.\<close>

lemma join_last: "join sep (xs @ [x]) = concat (map (\<lambda>y. y @ sep) xs) @ x"
  by (induction sep xs rule: join.induct) auto

lemma debug_struct_last: "sublist t (debug_struct name (fs @ [(f, t)]))"
proof -
  have "debug_struct name (fs @ [(f, t)]) =
      (name @ '' { '' @ concat (map (\<lambda>y. y @ '', '') (map (\<lambda>(n, u). n @ '': '' @ u) fs)) @ f @ '': '') @ t @ '' }''"
    by (simp add: debug_struct_def debug_fields_def join_last)
  then show ?thesis unfolding sublist_def by blast
qed

lemma debug_redis_url: "sublist (debug_str (redis_url r)) (debug_redis_config r)"
proof -
  have "debug_redis_config r = ''RedisConfig { url: '' @ debug_str (redis_url r) @
      '', key_prefix: '' @ debug_str (key_prefix r) @ '', command_timeout_ms: '' @ show_nat (command_timeout_ms r) @ '' }''"
    by (simp add: debug_redis_config_def debug_struct_def debug_fields_def)
  then show ?thesis unfolding sublist_def by blast
qed

lemma debug_config_redis:
  assumes "redis c = Some r"
  shows "sublist (debug_str (redis_url r)) (debug_config float c)"
proof -
  have "debug_option debug_redis_config (redis c) = ''Some('' @ debug_redis_config r @ '')''"
    using assms by (simp add: debug_option_def)
  then have "sublist (debug_redis_config r) (debug_option debug_redis_config (redis c))" unfolding sublist_def by blast
  moreover have "sublist (debug_option debug_redis_config (redis c)) (debug_config float c)"
    unfolding debug_config_def by (rule debug_struct_last)
  ultimately show ?thesis using debug_redis_url [of r] by (meson sublist_order.order_trans)
qed

end
