(* ===== verification/Agent_Theorems.thy ===== *)
theory Agent_Theorems
  imports Component_Theorems Agent_Redaction Redis_Client Agent_Transparency Debug_Output
begin

text \<open>
  The properties of the agent: the account of every event and metric under interleaving, what a failed
  and a confirmed flush leave behind, the overflow policies as operations on a bounded queue, durability
  across a restart, the rules cache, the watermark, and the invariant of all operations.
\<close>

section \<open>Nothing is lost silently\<close>

text \<open>Under any interleaving of producers and flushes, every event handed over is in the buffer, in a
  batch in flight, in a batch that was confirmed, or counted by \<^verbatim>\<open>events_dropped\<close>; and the buffer never
  exceeds its capacity.\<close>

theorem event_account:
  assumes "ledger_run ext event_ops s0 L" and "0 < buffer_size (config (fst s0))"
    and "length (events (core (fst s0))) \<le> buffer_size (config (fst s0))"
  shows "\<exists>lost. l_taken L = mset (map item (events (l_core L))) + in_flight L + l_settled L + lost \<and>
           events_dropped (l_core L) = events_dropped (core (fst s0)) + of_nat (size lost) \<and>
           length (events (l_core L)) \<le> buffer_size (l_config L)"
  using ev.ledger_run_inv [OF assms(1,2)] assms(3) by (auto simp: ledger_inv_def event_ops_def)

lemma sample_accept:
  "\<exists>L. ledger_run sample_ext event_ops (sample_shared, sample_world ()) L \<and> l_taken L = {#sample_event, sample_event#}"
proof -
  let ?s0 = "(sample_shared, sample_world ())"
  have "length (events (core (sample_shared :: unit Shared))) < buffer_size (config (sample_shared :: unit Shared))"
    by (simp add: sample_shared_def sample_core_def sample_config_def config_new_def)
  then obtain s' where "enqueue_event_pass sample_ext sample_event ?s0 = EnqDone (Inr ()) s'"
    using event_pass_room [of sample_shared sample_ext sample_event "sample_world ()"] by blast
  then have "k_pass event_ops sample_ext sample_event (l_state (ledger_init event_ops ?s0)) = EnqDone (Inr ()) s'"
    by (simp add: event_ops_def ledger_init_def)
  from ledger_run.step [OF ledger_run.start ledger_step.accept [OF this]] show ?thesis
    by (intro exI conjI) (assumption, simp add: ledger_init_def event_ops_def sample_shared_def sample_core_def)
qed

theorem event_account_witness:
  "\<exists>L lost. l_taken L = {#sample_event, sample_event#} \<and>
     l_taken L = mset (map item (events (l_core (L :: (SecurityEvent, unit) ledger)))) + in_flight L + l_settled L + lost"
proof -
  obtain L where L: "ledger_run sample_ext event_ops (sample_shared, sample_world ()) L" "l_taken L = {#sample_event, sample_event#}"
    using sample_accept by blast
  from event_account [OF L(1)] L(2) show ?thesis
    by (auto simp: sample_shared_def sample_core_def sample_config_def config_new_def)
qed

text \<open>The same account for metrics.\<close>

theorem metric_account:
  assumes "ledger_run ext metric_ops s0 L" and "0 < buffer_size (config (fst s0))"
    and "length (metrics (core (fst s0))) \<le> buffer_size (config (fst s0))"
  shows "\<exists>lost. l_taken L = mset (map item (metrics (l_core L))) + in_flight L + l_settled L + lost \<and>
           metrics_dropped (l_core L) = metrics_dropped (core (fst s0)) + of_nat (size lost) \<and>
           length (metrics (l_core L)) \<le> buffer_size (l_config L)"
  using mt.ledger_run_inv [OF assms(1,2)] assms(3) by (auto simp: ledger_inv_def metric_ops_def)

theorem metric_account_witness:
  "let L = ledger_init metric_ops (sample_shared, sample_world ())
   in \<exists>lost. l_taken L = {#sample_metric#} + in_flight L + l_settled L + lost"
  using metric_account [OF ledger_run.start, of "(sample_shared, sample_world ())"]
  by (simp add: l_core_def ledger_init_def metric_ops_def sample_shared_def sample_core_def sample_config_def config_new_def)

section \<open>Flushing\<close>

text \<open>C8: A failed flush of events puts the buffer back exactly as it was, drops nothing, deletes no persisted
  record, reports the error to the hook once, extends the failure streak and closes the gate for the
  capped doubling of the flush interval.\<close>

theorem failed_flush_restores_buffer:
  assumes "\<not> gate_closed (clock w) (events_retry_after (core sh))" and "events (core sh) \<noteq> []"
    and "length (events (core sh)) \<le> buffer_size (config sh)"
    and "0 < flush_interval (config sh)" and "flush_interval (config sh) < 2 ^ 53"
    and "send_batch ext (Events (map item (events (core sh)))) (transport sh, w) = (Failed e, t, w1)"
  shows "\<exists>sh' w'. flush_events ext (sh, w) = (sh', w') \<and> events (core sh') = events (core sh) \<and>
           events_dropped (core sh') = events_dropped (core sh) \<and> store w' = store w \<and>
           w' = fire_hook (config sh) FlushEvents e w1 \<and>
           events_failure_streak (core sh') = saturating_add (events_failure_streak (core sh)) 1 \<and>
           events_retry_after (core sh') =
             Some (clock w1 + from_secs (min (flush_interval (config sh) *
                                               2 ^ (unat (events_failure_streak (core sh')) - 1)) 300))"
proof -
  obtain sh' w' where f: "flush_events ext (sh, w) = (sh', w')" "events (core sh') = events (core sh)"
      "events_dropped (core sh') = events_dropped (core sh)" "store w' = store w" "w' = fire_hook (config sh) FlushEvents e w1"
      "events_failure_streak (core sh') = saturating_add (events_failure_streak (core sh)) 1"
      "events_retry_after (core sh') = gate_until (config sh) (events_failure_streak (core sh')) (clock w1)"
    using ev.flush_failed [of w sh ext e t w1] assms(1,2,3,6) by (auto simp: event_ops_def)
  moreover have "0 < unat (events_failure_streak (core sh'))" using f(6) by simp
  ultimately show ?thesis using gate_until_exact [OF assms(4,5)] by (intro exI [of _ sh'] exI [of _ w']) simp
qed

lemma sample_send_failed: "\<exists>e t w1. send_batch failing_ext (Events [sample_event]) (sample_transport, sample_world ()) = (Failed e, t, w1)"
proof -
  obtain w1 where w1: "build_batch_body failing_ext sample_config (Events [sample_event]) (sample_world ()) = (Inr [1, 2, 3], w1)"
      "w1 = (sample_world ())\<lparr>draws := 1\<rparr>"
    by (simp add: build_batch_body_def failing_ext_def sample_ext_def draw_uuid_def split_kinds_def sample_world_def)
  have "may_send (sample_transport, w1)" using sample_may_send [of "()"] w1(2) by (simp add: may_send_def)
  then have "\<exists>e. fst (send_with_retry failing_ext ''events'' [1, 2, 3] (sample_transport, w1)) = Inr (Failed e)"
    by (simp add: send_with_retry_def sample_transport_def Let_def send_body_may_send after_post_def attempt_post_def
        http_send_def gated_def case_prod_beta)
       (simp add: failing_ext_def sample_ext_def classify_attempt_def classify_response_def error_response_def give_up_def
          NON_RETRYABLE_STATUS_CODES_def word_le_nat_alt Let_def)
  then have "\<exists>e s'. send_plain failing_ext (Events [sample_event]) (sample_transport, sample_world ()) = (Inr (Inr (Failed e)), s')"
    using w1(1) by (auto simp: send_plain_def sample_transport_def case_prod_beta)
  then obtain e s' where "send_plain failing_ext (Events [sample_event]) (sample_transport, sample_world ()) = (Inr (Inr (Failed e)), s')"
    by blast
  then have "send_batch failing_ext (Events [sample_event]) (sample_transport, sample_world ()) = report_outcome (Failed e) s'"
    by (intro send_batch_eqs(3)) (simp_all add: sample_transport_def)
  then show ?thesis by (cases s') (simp add: report_outcome_def)
qed

theorem failed_flush_restores_buffer_witness:
  "events (core (fst (flush_events failing_ext (sample_shared, sample_world ())))) =
     [\<lparr> item = sample_event, redis_key = None \<rparr>]"
proof -
  let ?sh = "sample_shared :: unit Shared"
  obtain e t w1 where "send_batch failing_ext (Events [sample_event]) (sample_transport, sample_world ()) = (Failed e, t, w1)"
    using sample_send_failed by blast
  then have s: "send_batch failing_ext (Events (map item (events (core ?sh)))) (transport ?sh, sample_world ()) = (Failed e, t, w1)"
    by (simp add: sample_shared_def sample_core_def)
  from failed_flush_restores_buffer [OF _ _ _ _ _ s] show ?thesis
    by (auto simp: sample_shared_def sample_core_def core_new_def sample_config_def config_new_def gate_closed_def const_defs)
qed

text \<open>C23: When a flush is confirmed, accepted or permanently rejected, the event buffer is empty, and in a store
  that keeps the contract \<^const>\<open>agent_store\<close>, in which deletions succeed, none of the flushed records can be
  read any more. Whatever the store, its new state is that of one deletion of all the flushed keys,
  whose error is ignored: where it fails the records stay.\<close>

theorem confirmed_flush_forgets_records:
  assumes "\<not> gate_closed (clock w) (events_retry_after (core sh))" and "events (core sh) \<noteq> []"
    and "send_batch ext (Events (map item (events (core sh)))) (transport sh, w) = (out, t, w1)" and "is_confirmed out"
    and "redis_handler (core sh) = Some h" and "Some k \<in> redis_key ` set (events (core sh))" and "k \<noteq> []"
  shows "events (core (fst (flush_events ext (sh, w)))) = [] \<and>
         store (snd (flush_events ext (sh, w))) =
           snd (delete_keys h NAMESPACE_EVENTS (live_keys (map redis_key (events (core sh)))) (clock w1) (store w)) \<and>
         (if agent_store h live st_inv ns_ok \<and> st_inv (store w)
          then live now (store (snd (flush_events ext (sh, w)))) NAMESPACE_EVENTS k = None else True)"
proof -
  let ?keys = "map redis_key (events (core sh))"
  obtain sh' where f: "flush_events ext (sh, w) = (sh', confirm_keys (core sh) NAMESPACE_EVENTS ?keys w1)" "events (core sh') = []"
    using ev.flush_confirmed [of w sh ext out t w1] assms(1-4) by (auto simp: event_ops_def)
  have st: "store w1 = store w"
    using send_batch_bounded(1) [of "Events (map item (events (core sh)))" "(transport sh, w)" ext] assms(3)
    by (simp add: bounded_step_def advances_def)
  have k: "k \<in> set (live_keys ?keys)" using assms(6,7) by (force simp: live_keys_def set_map_filter)
  then have ne: "live_keys ?keys \<noteq> []" by auto
  have new: "store (snd (flush_events ext (sh, w))) = snd (delete_keys h NAMESPACE_EVENTS (live_keys ?keys) (clock w1) (store w))"
    using f(1) ne st assms(5) by (simp add: confirm_keys_def delete_live_def case_prod_beta)
  moreover have "live now (snd (delete_keys h NAMESPACE_EVENTS (live_keys ?keys) (clock w1) (store w))) NAMESPACE_EVENTS k = None"
    if "agent_store h live st_inv ns_ok" "st_inv (store w)"
    using durable_store.delete_keys_law [OF agent_store.axioms(1) [OF that(1)] that(2) agent_store.events_ns [OF that(1)],
        of "live_keys ?keys" "clock w1"] k agent_store.events_ns [OF that(1)] by auto
  ultimately show ?thesis using f by simp
qed

theorem confirmed_flush_forgets_records_witness:
  "let c = sample_core\<lparr>redis_handler := Some in_memory_handler, events := [\<lparr> item = sample_event, redis_key = Some ''k'' \<rparr>]\<rparr>
   in store_live 0 (store (snd (flush_events sample_ext (sample_shared\<lparr>core := c\<rparr>,
        sample_world [(''agent_events:k'', \<lparr> entry_value = ''v'', expires_at = None \<rparr>)])))) NAMESPACE_EVENTS ''k'' = None"
proof -
  let ?st = "[(''agent_events:k'', \<lparr> entry_value = ''v'', expires_at = None \<rparr>)] :: InMemoryRedisStore"
  let ?sh = "sample_shared\<lparr>core := sample_core\<lparr>redis_handler := Some in_memory_handler,
                events := [\<lparr> item = sample_event, redis_key = Some ''k'' \<rparr>]\<rparr>\<rparr>"
  obtain out t w1 where s: "send_batch sample_ext (Events [sample_event]) (sample_transport, sample_world ?st) = (out, t, w1)"
    by (metis prod_cases3)
  have "is_confirmed out" using sample_send_batch_accepted [of ?st] s by simp
  moreover have "\<not> gate_closed (clock (sample_world ?st)) (events_retry_after (core ?sh))" "events (core ?sh) \<noteq> []"
      "send_batch sample_ext (Events (map item (events (core ?sh)))) (transport ?sh, sample_world ?st) = (out, t, w1)"
      "redis_handler (core ?sh) = Some in_memory_handler" "Some ''k'' \<in> redis_key ` set (events (core ?sh))" "''k'' \<noteq> []"
    using s by (simp_all add: sample_shared_def sample_core_def core_new_def gate_closed_def)
  ultimately have "if agent_store in_memory_handler store_live store_inv plain_ns \<and> store_inv (store (sample_world ?st))
      then store_live 0 (store (snd (flush_events sample_ext (?sh, sample_world ?st)))) NAMESPACE_EVENTS ''k'' = None else True"
    using confirmed_flush_forgets_records [of "sample_world ?st" ?sh sample_ext out t w1 in_memory_handler "''k''" store_live store_inv plain_ns 0]
    by blast
  moreover have "store_inv (store (sample_world ?st))" by (simp add: sample_world_def store_inv_def)
  ultimately show ?thesis using mem_agent.agent_store_axioms by (simp add: Let_def)
qed

text \<open>A kind whose retry gate is closed is left alone by a flush, and flushing one kind never touches the
  buffer, the counters, the streak or the gate of the other.\<close>

theorem kinds_are_isolated:
  "same_metrics (core (fst s)) (core (fst (flush_events ext s))) \<and> same_events (core (fst s)) (core (fst (flush_metrics ext s))) \<and>
   (if gate_closed (clock (snd s)) (events_retry_after (core (fst s))) then flush_events ext s = s else True) \<and>
   (if gate_closed (clock (snd s)) (metrics_retry_after (core (fst s))) then flush_metrics ext s = s else True)"
  using flush_isolated [of s ext] by (cases s) (simp add: flush_events_def flush_metrics_def)

section \<open>Overflow policies\<close>

text \<open>The specification of the buffer is a bounded queue: pushing onto a full one loses its oldest
  element.\<close>

definition push_bounded :: "nat \<Rightarrow> 'a \<Rightarrow> 'a list \<Rightarrow> 'a list" where
  "push_bounded cap x q = (if length q < cap then q else tl q) @ [x]"

text \<open>C15: Under the drop policy an event is always enqueued, in at most two passes and without waiting, and
  the buffer refines the bounded queue; the drop counter moves exactly when an element is lost.\<close>

theorem drop_policy_refines_queue:
  assumes "buffer_overflow_policy (config sh) = Drop" and "0 < buffer_size (config sh)"
    and "length (events (core sh)) \<le> buffer_size (config sh)" and "2 \<le> n"
  shows "\<exists>s'. enqueue_event ext other n x (sh, w) = Some (Inr (), s') \<and>
           map item (events (core (fst s'))) = push_bounded (buffer_size (config sh)) x (map item (events (core sh))) \<and>
           events_dropped (core (fst s')) =
             events_dropped (core sh) + (if length (events (core sh)) < buffer_size (config sh) then 0 else 1)"
proof (cases "length (events (core sh)) < buffer_size (config sh)")
  case True
  then show ?thesis using ev.enqueue_room [of sh w n ext other x] assms(4)
    by (auto simp: event_ops_def has_room_def push_bounded_def buffered_def)
next
  case False
  then have "length (events (core sh)) = buffer_size (config sh)" using assms(3) by simp
  then show ?thesis using ev.enqueue_drop [of sh n ext other x w] assms False
    by (auto simp: event_ops_def push_bounded_def buffered_def map_tl)
qed

theorem drop_policy_refines_queue_witness:
  "\<exists>s'. enqueue_event sample_ext (\<lambda>_ s. s) 2 sample_event (sample_shared\<lparr>config := sample_config\<lparr>buffer_size := 1\<rparr>\<rparr>, sample_world ()) =
       Some (Inr (), s') \<and> map item (events (core (fst s'))) = [sample_event]"
  using drop_policy_refines_queue [of "sample_shared\<lparr>config := sample_config\<lparr>buffer_size := 1\<rparr>\<rparr>" 2 sample_ext "\<lambda>_ s. s" sample_event
      "sample_world ()"]
  by (auto simp: push_bounded_def sample_shared_def sample_core_def core_new_def sample_config_def config_new_def)

text \<open>Under the raise policy a full buffer rejects the event with the capacity in the error and nothing
  changes; \<^verbatim>\<open>send_event\<close> turns the rejection into one call of the hook.\<close>

theorem raise_policy_rejects:
  assumes "buffer_overflow_policy (config sh) = Raise" and "enable_events (config sh)"
    and "buffer_size (config sh) \<le> length (events (core sh))" and "0 < n"
  shows "try_send_event ext other n x (sh, w) = Some (Inl (BufferFull (buffer_size (config sh))), (sh, w)) \<and>
         send_event ext other n x (sh, w) =
           Some (sh, fire_hook (config sh) FlushEvents (BufferFull (buffer_size (config sh))) w)"
  using ev.enqueue_raise [of sh w n ext other "redact_event (redactor sh) x"] assms
  by (simp add: try_send_event_def send_event_def event_ops_def has_room_def)

theorem raise_policy_rejects_witness:
  "let sh = sample_shared\<lparr>config := sample_config\<lparr>buffer_size := 1, buffer_overflow_policy := Raise\<rparr>\<rparr>
   in try_send_event sample_ext (\<lambda>_ s. s) 1 sample_event (sh, sample_world ()) = Some (Inl (BufferFull 1), (sh, sample_world ()))"
  using raise_policy_rejects [of "sample_shared\<lparr>config := sample_config\<lparr>buffer_size := 1, buffer_overflow_policy := Raise\<rparr>\<rparr>" 1
      sample_ext "\<lambda>_ s. s" sample_event "sample_world ()"]
  by (simp add: sample_shared_def sample_core_def core_new_def sample_config_def config_new_def)

text \<open>C29: Under the block policy a producer returns as soon as some wait ends with room in the buffer: if the
  rest of the program has made room after \<open>j\<close> waits, \<open>j + 1\<close> passes are enough.\<close>

theorem block_policy_returns:
  assumes "\<And>k s. config (fst (other k s)) = config (fst s)" and "buffer_overflow_policy (config (fst s)) = Block"
    and "j < n" and "length (events (core (fst (waited other n j s)))) < buffer_size (config (fst (waited other n j s)))"
  shows "\<exists>s'. enqueue_event ext other n x s = Some (Inr (), s')"
  using ev.enqueue_block [of other s j n ext x] assms by (simp add: event_ops_def has_room_def)

theorem block_policy_returns_witness:
  "let s = (sample_shared\<lparr>config := sample_config\<lparr>buffer_size := 1, buffer_overflow_policy := Block\<rparr>\<rparr>, sample_world ())
   in \<exists>s'. enqueue_event sample_ext (\<lambda>_ s. clear_buffer s) 2 sample_event s = Some (Inr (), s')"
proof -
  let ?s = "(sample_shared\<lparr>config := sample_config\<lparr>buffer_size := 1, buffer_overflow_policy := Block\<rparr>\<rparr>, sample_world ())"
  have "config (fst (clear_buffer s)) = config (fst s)" for s :: "unit astate"
    by (cases s) (simp add: clear_buffer_def Let_def split: option.splits prod.splits)
  moreover have "waited (\<lambda>_ s. clear_buffer s) 2 1 ?s = clear_buffer ?s" by simp
  moreover have "events (core (fst (clear_buffer ?s))) = []"
    by (simp add: clear_buffer_def sample_shared_def sample_core_def core_new_def)
  ultimately show ?thesis using block_policy_returns [of "\<lambda>_ s. clear_buffer s" ?s 1 2 sample_ext sample_event] by simp
qed

text \<open>C18: Without the block policy a producer's call always returns: two passes of the enqueue loop are
  enough for events and for metrics, whatever the rest of the program does, and no larger bound changes
  the result.\<close>

theorem enqueue_terminates:
  assumes "buffer_overflow_policy (config (fst s)) \<noteq> Block" and "0 < buffer_size (config (fst s))"
    and "length (events (core (fst s))) \<le> buffer_size (config (fst s))" and "length (metrics (core (fst s))) \<le> buffer_size (config (fst s))"
    and "2 \<le> n"
  shows "enqueue_event ext other n x s = enqueue_event ext other 2 x s \<and> enqueue_event ext other 2 x s \<noteq> None \<and>
         enqueue_metric ext other n m s = enqueue_metric ext other 2 m s \<and> enqueue_metric ext other 2 m s \<noteq> None"
  using ev.enqueue_two_passes [of s n ext other x] mt.enqueue_two_passes [of s n ext other m] assms
  by (simp add: event_ops_def metric_ops_def)

theorem enqueue_terminates_witness:
  "enqueue_event sample_ext (\<lambda>_ s. s) 9 sample_event (sample_shared, sample_world ()) =
     enqueue_event sample_ext (\<lambda>_ s. s) 2 sample_event (sample_shared, sample_world ()) \<and>
   enqueue_event sample_ext (\<lambda>_ s. s) 2 sample_event (sample_shared :: unit Shared, sample_world ()) \<noteq> None"
  using enqueue_terminates [of "(sample_shared, sample_world ())" 9 sample_ext "\<lambda>_ s. s" sample_event sample_metric]
  by (simp add: sample_shared_def sample_core_def core_new_def sample_config_def config_new_def)

section \<open>Redaction\<close>

text \<open>C17: An event is redacted before it is buffered: as long as the rest of the program keeps the buffer
  redacted, a producer's call keeps it so, whatever the policy and the outcome, and so does the flush
  that follows; no sensitive value within the ten redacted levels reaches a batch.\<close>

theorem only_redacted_events_buffered:
  assumes "\<And>k s. buffer_redacted s \<Longrightarrow> buffer_redacted (other k s) \<and> redactor (fst (other k s)) = redactor (fst s)"
    and "try_send_event ext other n x s = Some (r, s')" and "buffer_redacted s"
  shows "buffer_redacted s' \<and> buffer_redacted (flush_events ext s')"
proof -
  have "redacted_upto (redactor (fst s)) MAX_REDACT_DEPTH (ev_metadata (redact_event (redactor (fst s)) x))"
    using redact_inner_redacted [of "redactor (fst s)" 0 "ev_metadata x"] by (simp add: redact_event_def redact_value_def)
  then have "buffer_redacted s'"
    using assms(2,3) enqueue_redacted [OF assms(1)] by (auto simp: try_send_event_def split: if_splits)
  then show ?thesis using flush_events_redacted by blast
qed

theorem only_redacted_events_buffered_witness:
  "\<exists>s'. try_send_event sample_ext (\<lambda>_ s. s) 1 (sample_event\<lparr>ev_metadata := Object [(''token'', String ''x'')]\<rparr>)
      (sample_shared\<lparr>core := core_new, redactor := redactor_new [''token'']\<rparr>, sample_world ()) = Some (Inr (), s') \<and> buffer_redacted s'"
proof -
  let ?sh = "sample_shared\<lparr>core := core_new, redactor := redactor_new [''token'']\<rparr> :: unit Shared"
  let ?x = "sample_event\<lparr>ev_metadata := Object [(''token'', String ''x'')]\<rparr>"
  have "length (events (core ?sh)) < buffer_size (config ?sh)"
    by (simp add: sample_shared_def core_new_def sample_config_def config_new_def)
  then obtain sh' w' where "enqueue_event_pass sample_ext (redact_event (redactor ?sh) ?x) (?sh, sample_world ()) = EnqDone (Inr ()) (sh', w')"
    using event_pass_room [of ?sh] by blast
  then have t: "try_send_event sample_ext (\<lambda>_ s. s) 1 ?x (?sh, sample_world ()) = Some (Inr (), (sh', w'))"
    by (simp add: try_send_event_def sample_shared_def sample_config_def config_new_def)
  have "buffer_redacted (?sh, sample_world ())" by (simp add: buffer_redacted_def core_new_def)
  with only_redacted_events_buffered [of "\<lambda>_ s. s", OF _ t] t show ?thesis by blast
qed

section \<open>Durability\<close>

text \<open>C6: For a store that keeps the contract \<^const>\<open>agent_store\<close> (the in-memory store does, shared by agents of one
  process; so does the Redis client, on a server that does what its commands promise): an event that
  was enqueued is in the buffer of a later agent with the same handler that reloads before the record's
  lifetime is over, provided that nobody touched the store in between, that the serializer reads back
  what it wrote, and that the live records fit the buffers. When they do not fit, the reload evicts the
  oldest entries and deletes their records.\<close>

theorem enqueued_event_survives_restart:
  assumes "agent_store h live st_inv ns_ok" and "redis_handler (core sh) = Some h" and "st_inv (store w)"
    and "event_to_string ext x = Inr v" and "event_from_str ext v = Inr x"
    and "enqueue_event_pass ext x (sh, w) = EnqDone (Inr ()) (sh1, w1)"
    and "redis_handler (core sh2) = Some h" and "store w2 = store w1" and "clock w2 < clock w + from_secs PERSIST_TTL_SECONDS"
    and "records_fit live (length (events (core sh2))) (clock w2) (store w2) NAMESPACE_EVENTS (buffer_size (config sh2))"
    and "records_fit live (length (metrics (core sh2))) (clock w2) (store w2) NAMESPACE_METRICS (buffer_size (config sh2))"
  shows "x \<in> item ` set (events (core (fst (reload_from_redis ext (sh2, w2)))))"
proof -
  obtain k where k: "st_inv (store w1)" "live (clock w2) (store w1) NAMESPACE_EVENTS k = Some v"
    using agent_store.event_pass_persists [OF assms(1,2,3,4,6)] agent_store.events_ns [OF assms(1)] assms(9)
    by (metis (no_types, lifting))
  then show ?thesis
    using agent_store.reload_restores(1) [OF assms(1,7) _ assms(10,11), of k v ext x] assms(5,8) by simp
qed

theorem enqueued_event_survives_restart_witness:
  "let sh = sample_shared\<lparr>core := core_new\<lparr>redis_handler := Some in_memory_handler\<rparr>\<rparr>
   in \<exists>sh1 w1. enqueue_event_pass sample_ext sample_event (sh, sample_world []) = EnqDone (Inr ()) (sh1, w1) \<and>
        sample_event \<in> item ` set (events (core (fst (reload_from_redis sample_ext (sh, w1)))))"
proof -
  let ?sh = "sample_shared\<lparr>core := core_new\<lparr>redis_handler := Some in_memory_handler\<rparr>\<rparr>"
  let ?w = "sample_world [] :: InMemoryRedisStore World"
  have cap: "buffer_size (config ?sh) = 2" "events (core ?sh) = []" "metrics (core ?sh) = []"
      "redis_handler (core ?sh) = Some in_memory_handler"
    by (simp_all add: sample_shared_def core_new_def sample_config_def config_new_def)
  obtain sh1 w1 where e: "enqueue_event_pass sample_ext sample_event (?sh, ?w) = EnqDone (Inr ()) (sh1, w1)" "clock w1 = clock ?w"
    using event_pass_room [of ?sh sample_ext sample_event ?w] cap by auto
  have pre: "st_ok = store_inv \<Longrightarrow> st_ok (store ?w)" "event_to_string sample_ext sample_event = Inr (ev_event_type sample_event)"
      "event_from_str sample_ext (ev_event_type sample_event) = Inr sample_event" for st_ok
    by (simp_all add: sample_ext_def sample_event_def event_new_def sample_world_def store_inv_def)
  have empty: "store_live t (store ?w) n k = None" for t n k by (simp add: sample_world_def store_live_def)
  obtain k where "\<forall>t n k'. plain_ns n \<longrightarrow> store_live t (store w1) n k' =
      (if n = NAMESPACE_EVENTS \<and> k' = k then if t < clock ?w + from_secs PERSIST_TTL_SECONDS then Some (ev_event_type sample_event) else None
       else store_live t (store ?w) n k')"
    using mem_agent.event_pass_persists [OF cap(4) pre(1) [OF refl] pre(2) e(1)] by blast
  then have live: "k' = k" if "plain_ns n" "store_live t (store w1) n k' \<noteq> None" for t n k'
    using that empty by metis
  have fit: "records_fit store_live 0 t (store w1) NAMESPACE_EVENTS 2" "records_fit store_live 0 t (store w1) NAMESPACE_METRICS 2" for t
    by (rule mem_agent.records_fit_single [of _ _ _ k], erule live [OF plain_ns_used(1)], simp)
      (rule mem_agent.records_fit_single [of _ _ _ k], erule live [OF plain_ns_used(2)], simp)
  have "sample_event \<in> item ` set (events (core (fst (reload_from_redis sample_ext (?sh, w1)))))"
    by (rule enqueued_event_survives_restart [OF mem_agent.agent_store_axioms cap(4) pre(1) [OF refl] pre(2,3) e(1) cap(4) refl])
       (use fit cap e(2) in \<open>simp_all add: PERSIST_TTL_SECONDS_def from_secs_def\<close>)
  with e show ?thesis by (auto simp: Let_def)
qed

text \<open>C7: The same for the Redis client and both kinds: on a server that does what its commands promise, under a
  key prefix without wildcards (both are in \<^const>\<open>redis_client\<close>), an event and a metric that were enqueued
  are back in the buffers of a later agent with the same handler that reloads before their records
  expire, provided that nobody touched the store in between, that the serializers read back what they
  wrote, and that the live records of each kind fit its buffer.\<close>

theorem redis_telemetry_survives_restart:
  assumes "redis_client h live_key server_ok" and "redis_handler (core sh) = Some (client_handler h)" and "server_ok (store w)"
    and "event_to_string ext x = Inr v" and "event_from_str ext v = Inr x" and "metric_to_string ext m = Inr u" and "metric_from_str ext u = Inr m"
    and "enqueue_event_pass ext x (sh, w) = EnqDone (Inr ()) (sh1, w1)" and "enqueue_metric_pass ext m (sh1, w1) = EnqDone (Inr ()) (sh2, w2)"
    and "redis_handler (core sh3) = Some (client_handler h)" and "store w3 = store w2"
    and "clock w3 < clock w + from_secs PERSIST_TTL_SECONDS"
    and "records_fit (client_live h live_key) (length (events (core sh3))) (clock w3) (store w3) NAMESPACE_EVENTS (buffer_size (config sh3))"
    and "records_fit (client_live h live_key) (length (metrics (core sh3))) (clock w3) (store w3) NAMESPACE_METRICS (buffer_size (config sh3))"
  shows "x \<in> item ` set (events (core (fst (reload_from_redis ext (sh3, w3))))) \<and>
         m \<in> item ` set (metrics (core (fst (reload_from_redis ext (sh3, w3)))))"
  by (rule agent_store.telemetry_survives [OF redis_client.handler_agent_store [OF assms(1)] assms(2-14)])

lemma event_pass_other:
  assumes "enqueue_event_pass ext x (sh, w) = EnqDone r (sh', w')"
  shows "metrics (core sh') = metrics (core sh)"
proof -
  obtain key c1 w1 where p: "persist_item ext NAMESPACE_EVENTS ''event'' (event_to_string ext x) (core sh) w = (key, c1, w1)"
    by (metis prod_cases3)
  obtain n where c1: "c1 = (core sh)\<lparr>redis_persist_failures := n\<rparr>" using persist_item_frame(1) [OF p] by blast
  show ?thesis
  proof (cases "length (events (core sh)) < buffer_size (config sh)")
    case True
    then show ?thesis using assms p c1 by (auto simp: enqueue_event_pass_def Let_def spawn_gated_flush_def split: if_splits)
  next
    case False
    then show ?thesis using assms
      by (cases "buffer_overflow_policy (config sh)"; cases "events (core sh)") (auto simp: enqueue_event_pass_def Let_def)
  qed
qed

theorem redis_telemetry_survives_restart_witness:
  "let h = client_handler reference_client; sh = sample_shared\<lparr>core := core_new\<lparr>redis_handler := Some h\<rparr>\<rparr>
   in \<exists>s1 sh2 w2. enqueue_event_pass sample_ext sample_event (sh, sample_world []) = EnqDone (Inr ()) s1 \<and>
        enqueue_metric_pass sample_ext sample_metric s1 = EnqDone (Inr ()) (sh2, w2) \<and>
        sample_event \<in> item ` set (events (core (fst (reload_from_redis sample_ext (sh, w2))))) \<and>
        sample_metric \<in> item ` set (metrics (core (fst (reload_from_redis sample_ext (sh, w2)))))"
proof -
  let ?h = "client_handler reference_client"
  let ?sh = "sample_shared\<lparr>core := core_new\<lparr>redis_handler := Some ?h\<rparr>\<rparr>"
  let ?w = "sample_world [] :: InMemoryRedisStore World"
  have cap: "buffer_size (config ?sh) = 2" "events (core ?sh) = []" "metrics (core ?sh) = []" "redis_handler (core ?sh) = Some ?h"
    by (simp_all add: sample_shared_def core_new_def sample_config_def config_new_def)
  obtain sh1 w1 where e: "enqueue_event_pass sample_ext sample_event (?sh, ?w) = EnqDone (Inr ()) (sh1, w1)"
      "same_agent ?sh sh1"
    using event_pass_room [of ?sh sample_ext sample_event ?w] cap by auto
  have "config sh1 = config ?sh" "metrics (core sh1) = []"
    using e cap event_pass_other [OF e(1)] by (simp_all add: same_agent_def)
  then obtain sh2 w2 where m: "enqueue_metric_pass sample_ext sample_metric (sh1, w1) = EnqDone (Inr ()) (sh2, w2)"
    using metric_pass_room [of sh1 sample_ext sample_metric w1] cap by auto
  have pre: "store_inv (store ?w)" "event_to_string sample_ext sample_event = Inr (ev_event_type sample_event)"
      "event_from_str sample_ext (ev_event_type sample_event) = Inr sample_event"
      "metric_to_string sample_ext sample_metric = Inr ''m''" "metric_from_str sample_ext ''m'' = Inr sample_metric"
    by (simp_all add: sample_ext_def sample_event_def sample_metric_def event_new_def sample_world_def store_inv_def)
  have empty: "client_live reference_client reference_live (clock ?w) (store ?w) n k = None" for n k
    by (simp add: client_live_def reference_live_def sample_world_def)
  note fit = reference_client.first_records_fit [OF cap(4) pre(1,2,4) e(1) m empty, of 2]
  have "sample_event \<in> item ` set (events (core (fst (reload_from_redis sample_ext (?sh, w2))))) \<and>
      sample_metric \<in> item ` set (metrics (core (fst (reload_from_redis sample_ext (?sh, w2)))))"
    by (rule redis_telemetry_survives_restart [OF reference_client.redis_client_axioms cap(4) pre e(1) m cap(4) refl])
       (use fit cap in \<open>simp_all add: PERSIST_TTL_SECONDS_def from_secs_def\<close>)
  with e m show ?thesis by (auto simp: Let_def)
qed

section \<open>Invariant of the agent\<close>

text \<open>C10: In every state an agent reaches after a successful construction, by enqueueing, flushing, pushing
  status, fetching rules, reloading, clearing, attaching a store or letting time pass, nothing has
  panicked, neither buffer exceeds its capacity, and enqueueing cannot panic.\<close>

theorem agent_never_panics:
  assumes "agent_new ext fso home cfg fs w = (Inr sh, fs', w0)" and "\<not> panicked w" and "agent_reachable ext (sh, w0) (sh', w')"
  shows "\<not> panicked w' \<and> length (events (core sh')) \<le> buffer_size (config sh') \<and>
         length (metrics (core sh')) \<le> buffer_size (config sh') \<and>
         enqueue_event_pass ext e (sh', w') \<noteq> EnqPanic \<and> enqueue_metric_pass ext m (sh', w') \<noteq> EnqPanic"
proof -
  have ok: "agent_ok (sh', w')" using agent_ok_reachable [OF assms(3) agent_new_ok(1) [OF assms(1,2)]] .
  then show ?thesis using event_pass_frame(1) [of sh' ext e w'] metric_pass_frame(1) [of sh' ext m w']
    by (simp add: agent_ok_def transport_ok_def)
qed

lemma sample_agent_new:
  "\<exists>sh fs' w0. agent_new sample_ext sample_fs None (sample_config\<lparr>endpoint := ''https://a.b/api/v1/'', high_watermark_ratio := Fin 1\<rparr>)
     None (sample_world ()) = (Inr sh, fs', w0)"
proof -
  let ?c = "sample_config\<lparr>endpoint := ''https://a.b'', high_watermark_ratio := Fin 1\<rparr>"
  have "init_encryptor sample_ext ?c nonce = Inr None" for nonce
    by (simp add: init_encryptor_def sample_config_def config_new_def)
  moreover have "list_all (\<lambda>(n, v). n = ''content-type'' \<or> header_value_ok sample_ext v) hs"
    "client_build sample_ext n hs = Inr ()" for hs n
    by (simp_all add: sample_ext_def list_all_iff)
  ultimately have "\<exists>t. transport_new sample_ext ?c iid nonce = Inr t" for iid nonce by (simp add: transport_new_def Let_def)
  then have "\<exists>t. transport_new sample_ext ?c (fst i) nonce = Inr t" for i :: "string \<times> string option" and nonce by blast
  then show ?thesis using sample_validates [of "Fin 1"]
    by (auto simp: agent_new_def case_prod_beta Let_def split: sum.splits) (metis Inl_Inr_False)
qed

theorem agent_never_panics_witness:
  "\<exists>sh w0. agent_reachable sample_ext (sh, w0) (do_flush sample_ext (sh, w0)) \<and>
     \<not> panicked (snd (do_flush sample_ext (sh :: unit Shared, w0)))"
proof -
  obtain sh fs' w0 where n: "agent_new sample_ext sample_fs None (sample_config\<lparr>endpoint := ''https://a.b/api/v1/'', high_watermark_ratio := Fin 1\<rparr>)
     None (sample_world ()) = (Inr sh, fs', w0)"
    using sample_agent_new by blast
  have r: "agent_reachable sample_ext (sh, w0) (do_flush sample_ext (sh, w0))"
    by (rule agent_reachable.further [OF agent_reachable.initial agent_step.flush])
  obtain sh' w' where d: "do_flush sample_ext (sh, w0) = (sh', w')" by (metis prod.exhaust)
  have "\<not> panicked w'"
    using agent_never_panics [OF n _ r [unfolded d], of sample_event sample_metric] by (simp add: sample_world_def)
  with r d show ?thesis by (intro exI [of _ sh] exI [of _ w0]) simp
qed

section \<open>Starting and stopping\<close>

lemma flush_running [simp]:
  "running (fst (flush_events ext s)) = running (fst s)" "running (fst (flush_metrics ext s)) = running (fst s)"
  by (cases s; simp add: flush_events_def flush_metrics_def finish_events_def finish_metrics_def Let_def case_prod_beta split: SendOutcome.split)+

lemma flush_buffer_running:
  "(\<And>s. \<not> running (fst s) \<Longrightarrow> \<not> running (fst (other s))) \<Longrightarrow> \<not> running (fst s) \<Longrightarrow> \<not> running (fst (flush_buffer ext other s))"
  by (simp add: flush_buffer_def with_permit_def do_flush_def Let_def case_prod_beta)

lemma ticks_end:
  "\<not> running (fst s) \<Longrightarrow> flush_tick ext s = None \<and> status_tick ext s = None \<and> rules_tick ext s = None"
  by (simp add: flush_tick_def status_tick_def rules_tick_def Let_def case_prod_beta)

lemma start_running: "start ext connect a w = (a', w') \<Longrightarrow> running (shared a')"
  by (auto simp: start_def reload_from_redis_def attach_redis_handler_def Let_def case_prod_beta split: if_splits option.splits sum.splits)

text \<open>C20: After \<^verbatim>\<open>stop\<close> the agent does not run, every background loop ends at its next tick, and the last
  thing done was a flush of both buffers under a permit. \<^verbatim>\<open>start\<close> makes it run again, and starting a
  running agent changes nothing.\<close>

theorem stop_then_start:
  assumes "\<And>s. \<not> running (fst s) \<Longrightarrow> \<not> running (fst (other s))" and "stop ext other a w = (a', w')"
    and "start ext connect a' w1 = (a2, w2)"
  shows "\<not> running (shared a') \<and> \<not> loops a' \<and>
    flush_tick ext (shared a', w') = None \<and> status_tick ext (shared a', w') = None \<and> rules_tick ext (shared a', w') = None \<and>
    (\<exists>s. \<not> running (fst s) \<and> (shared a', w') = with_permit (do_flush ext) s) \<and>
    running (shared a2) \<and> loops a2 \<and> start ext connect a2 w2 = (a2, w2)"
proof -
  define s1 where "s1 = ((shared a)\<lparr>running := False\<rparr>, w)"
  define s2 where "s2 = await_inflight other (if loops a then other s1 else s1)"
  have "\<not> running (fst s1)" by (simp add: s1_def)
  then have "\<not> running (fst (if loops a then other s1 else s1))" using assms(1) by simp
  then have s2: "\<not> running (fst s2)"
    using assms(1) by (simp add: s2_def await_inflight_def case_prod_beta)
  have f: "(shared a', w') = flush_buffer ext other s2" "\<not> loops a'"
    using assms(2) by (auto simp: stop_def s1_def s2_def Let_def case_prod_beta)
  then have "\<not> running (shared a')" using flush_buffer_running [of other s2 ext, OF assms(1) s2] by (metis fst_conv)
  moreover have "\<exists>s. \<not> running (fst s) \<and> (shared a', w') = with_permit (do_flush ext) s"
  proof (intro exI conjI)
    show "\<not> running (fst (if flush_permits (fst s2) = 0 then other s2 else s2))" using s2 assms(1) by simp
    show "(shared a', w') = with_permit (do_flush ext) (if flush_permits (fst s2) = 0 then other s2 else s2)"
      using f(1) by (simp only: flush_buffer_def)
  qed
  moreover from calculation(1) have "loops a2" using assms(3) by (auto simp: start_def Let_def case_prod_beta)
  moreover have "running (shared a2)" by (rule start_running [OF assms(3)])
  ultimately show ?thesis using f(2) ticks_end [of "(shared a', w')" ext] by (simp add: start_def Let_def)
qed

theorem stop_then_start_witness:
  "\<exists>a' w'. stop sample_ext (\<lambda>s. s) \<lparr>shared = sample_shared, loops = True\<rparr> (sample_world () :: unit World) = (a', w') \<and>
     flush_tick sample_ext (shared a', w') = None \<and>
     running (shared (fst (start sample_ext (\<lambda>_. Inl (Redis ''none'')) a' w')))"
proof -
  obtain a' w' where st: "stop sample_ext (\<lambda>s. s) \<lparr>shared = sample_shared, loops = True\<rparr> (sample_world () :: unit World) = (a', w')"
    by (metis prod.exhaust)
  obtain a2 w2 where sa: "start sample_ext (\<lambda>_. Inl (Redis ''none'')) a' w' = (a2, w2)" by (metis prod.exhaust)
  from stop_then_start [OF _ st sa] st sa show ?thesis by simp
qed

section \<open>Rules and watermark\<close>

text \<open>Once rules with a positive lifetime have been returned, asking again at once returns the same rules
  from the cache: no request is sent and the state does not change.\<close>

theorem rules_cached_after_fetch:
  assumes "fetch_dynamic_rules_once ext s = (Some rules, s')" and "0 < dr_ttl rules"
  shows "fetch_dynamic_rules_once ext s' = (Some rules, s')"
proof -
  have ttl: "0 < from_secs (unat (dr_ttl rules))" using assms(2) by (simp add: from_secs_def unat_gt_0 word_neq_0_conv)
  obtain sh w where s: "s = (sh, w)" by (cases s)
  show ?thesis
  proof (cases "cached_copy (clock w) (core sh)")
    case (Some r)
    with assms(1) s have "r = rules" "s' = (sh, w)" by (auto simp: fetch_dynamic_rules_once_def)
    with Some show ?thesis by (simp add: fetch_dynamic_rules_once_def)
  next
    case None
    obtain f t w1 where f: "fetch_rules ext (transport sh, w) = (f, t, w1)" by (metis prod_cases3)
    with None assms(1) s have "f = Some rules" "s' = (sh\<lparr>transport := t, core := store_rules (clock w1) rules (core sh)\<rparr>, w1)"
      by (auto simp: fetch_dynamic_rules_once_def Let_def split: option.splits)
    then show ?thesis using ttl
      by (simp add: fetch_dynamic_rules_once_def cached_copy_def rules_fresh_def store_rules_def duration_since_def)
  qed
qed

theorem rules_cached_after_fetch_witness:
  "let s' = snd (fetch_dynamic_rules_once sample_ext (sample_shared, sample_world ()))
   in fetch_dynamic_rules_once sample_ext s' = (Some (rules_default 0), s')"
proof -
  let ?s = "(sample_shared, sample_world ())"
  have "fst (fetch_dynamic_rules_once sample_ext ?s) = Some (rules_default 0)"
    using sample_fetch_rules
    by (auto simp: fetch_dynamic_rules_once_def cached_copy_def rules_fresh_def sample_shared_def sample_core_def core_new_def
        Let_def case_prod_beta split: option.splits)
  then have "fetch_dynamic_rules_once sample_ext ?s = (Some (rules_default 0), snd (fetch_dynamic_rules_once sample_ext ?s))"
    by (metis prod.collapse)
  from rules_cached_after_fetch [OF this] show ?thesis by (simp add: rules_default_def word_less_nat_alt)
qed

text \<open>With a finite watermark ratio in (0, 1], a buffer filled to its capacity always asks for a flush,
  whatever the time of the last one: rounding never moves the threshold above the capacity.\<close>

theorem full_buffer_needs_flush:
  assumes "high_watermark_ratio cfg = Fin r" and "0 < r" and "r \<le> 1" and "0 < buffer_size cfg" and "buffer_size cfg < 2 ^ 53"
    and "length (events c) + length (metrics c) = buffer_size cfg"
  shows "flush_needed cfg now c"
proof -
  let ?n = "of_nat (buffer_size cfg) :: rat"
  have "f64_of_nat (buffer_size cfg) = Fin ?n" using assms(5) by simp
  moreover have "representable ?n"
  proof -
    have "?n < 2 ^ 53" using assms(5) by (metis of_nat_less_iff of_nat_numeral of_nat_power)
    also have "(2 :: rat) ^ 53 \<le> 2 ^ 1024" by (rule power_increasing) simp_all
    finally have "?n * 2 ^ 0 < 2 ^ 1024" by (simp only: power_0 mult_1_right)
    from representable_scaled_nat [OF assms(5) this] show ?thesis by (simp only: power_0 mult_1_right)
  qed
  moreover have "0 \<le> ?n * r" "?n * r \<le> ?n" using assms(2,3) by (simp_all add: mult_left_le)
  ultimately obtain z where "round64 (?n * r) = Fin z" "z \<le> ?n" using round64_le_representable by metis
  then show ?thesis using assms(1,4,5,6) by (simp add: flush_needed_def Let_def)
qed

theorem full_buffer_needs_flush_witness: "flush_needed sample_config 0 (sample_core :: unit CoreState)"
  by (rule full_buffer_needs_flush [where r = 1])
     (simp_all add: sample_config_def config_new_def sample_core_def core_new_def)

lemma normalize_endpoint_ratio:
  "normalize_endpoint (c\<lparr>high_watermark_ratio := r\<rparr>) =
     (fst (normalize_endpoint c), (snd (normalize_endpoint c))\<lparr>high_watermark_ratio := r\<rparr>)"
  by (simp add: normalize_endpoint_def Let_def)

lemma validate_ratio: "high_watermark_ratio (snd (validate (c\<lparr>high_watermark_ratio := r\<rparr>))) = r"
  by (simp add: validate_def normalize_endpoint_ratio Let_def)

lemma validate_nan:
  assumes "fst (validate c) = Inr ()"
  shows "fst (validate (c\<lparr>high_watermark_ratio := NaN\<rparr>)) = Inr ()"
proof -
  obtain p d where n: "normalize_endpoint c = (p, d)" by (cases "normalize_endpoint c")
  with assms have "p = []" "validate_numeric d = []" "validate_optional d = []" "\<not> utf8_len (api_key c) < MIN_API_KEY_LEN"
    by (simp_all add: validate_def Let_def split: if_splits)
  moreover from this have "validate_numeric (d\<lparr>high_watermark_ratio := NaN\<rparr>) = []" by (simp add: validate_numeric_Nil)
  moreover have "validate_optional (d\<lparr>high_watermark_ratio := NaN\<rparr>) = validate_optional d" by (simp add: validate_optional_def)
  ultimately show ?thesis by (simp add: validate_def normalize_endpoint_ratio n Let_def)
qed

text \<open>C40: A NaN watermark ratio passes validation wherever a proper one does, although it is not within
  (0, 1], and it silently disables the watermark: no enqueue spawns a flush, and the gated flush runs on
  elapsed time only.\<close>

theorem nan_watermark_disables_trigger:
  assumes "fst (validate c) = Inr ()" and "config sh = snd (validate (c\<lparr>high_watermark_ratio := NaN\<rparr>))"
    and "enqueue_event_pass ext e (sh, w) = EnqDone r (sh', w')"
  shows "fst (validate (c\<lparr>high_watermark_ratio := NaN\<rparr>)) = Inr () \<and> inflight sh' = inflight sh \<and>
    (flush_needed (config sh) now cs \<longleftrightarrow> buffered_count cs \<noteq> 0 \<and>
       (case last_flush_instant cs of None \<Rightarrow> True | Some t \<Rightarrow> from_secs (flush_interval (config sh)) \<le> duration_since now t))"
proof -
  have v: "fst (validate (c\<lparr>high_watermark_ratio := NaN\<rparr>)) = Inr ()" using assms(1) by (rule validate_nan)
  have ratio: "high_watermark_ratio (config sh) = NaN" using assms(2) by (simp add: validate_ratio)
  then have never: "\<not> f64_le (f64_mul a (high_watermark_ratio (config sh))) b" for a b by (cases a) auto
  have "inflight sh' = inflight sh"
  proof (cases "length (events (core sh)) < buffer_size (config sh)")
    case True
    then show ?thesis using assms(3) never by (auto simp: enqueue_event_pass_def watermark_threshold_def Let_def case_prod_beta)
  next
    case False
    then show ?thesis using assms(3)
      by (cases "buffer_overflow_policy (config sh)"; cases "events (core sh)") (auto simp: enqueue_event_pass_def Let_def)
  qed
  then show ?thesis using v never by (simp add: flush_needed_def buffered_count_def Let_def)
qed

theorem nan_watermark_disables_trigger_witness:
  "\<exists>sh' w'. enqueue_event_pass sample_ext sample_event
      (sample_shared\<lparr>core := core_new, config := sample_config\<lparr>endpoint := ''https://a.b'', high_watermark_ratio := NaN\<rparr>\<rparr>, sample_world ()) =
      EnqDone (Inr ()) (sh', w') \<and> inflight sh' = inflight (sample_shared :: unit Shared)"
proof -
  let ?c = "sample_config\<lparr>endpoint := ''https://a.b/api/v1/'', high_watermark_ratio := Fin 1\<rparr>"
  let ?sh = "sample_shared\<lparr>core := core_new, config := sample_config\<lparr>endpoint := ''https://a.b'', high_watermark_ratio := NaN\<rparr>\<rparr> :: unit Shared"
  obtain sh' w' where p: "enqueue_event_pass sample_ext sample_event (?sh, sample_world ()) = EnqDone (Inr ()) (sh', w')"
    using event_pass_room [of ?sh sample_ext sample_event "sample_world ()"]
    by (auto simp: core_new_def sample_config_def config_new_def)
  have "inflight sh' = inflight ?sh"
    using nan_watermark_disables_trigger [OF _ _ p, of ?c 0 core_new, THEN conjunct2, THEN conjunct1]
      sample_validates [of "Fin 1"] sample_validates [of NaN] by simp
  with p show ?thesis by (intro exI [of _ sh'] exI [of _ w']) simp
qed

text \<open>C16: The durable store is invisible to the producers: whatever it answers, sending an event or a metric
  and clearing the buffers change the agent exactly as they change the same agent without a store, in
  its result, its buffers, counters, spawned flushes, calls of the hook and clock.\<close>

theorem store_is_transparent:
  assumes "\<And>k s. without_store (other k s) = other' k (without_store s)"
  shows "map_option without_store (send_event ext other n e s) = send_event ext other' n e (without_store s) \<and>
         map_option without_store (send_metric ext other n m s) = send_metric ext other' n m (without_store s) \<and>
         without_store (clear_buffer s) = clear_buffer (without_store s)"
  using send_event_without_store [of other other', OF assms] send_metric_without_store [of other other', OF assms]
    clear_without_store by blast

theorem store_is_transparent_witness:
  "let down = \<lparr> set_key = \<lambda>_ _ _ _ _ st. (Inl (Transport ''down''), st), get_key = \<lambda>_ _ _ st. (Inl (Transport ''down''), st),
                delete_keys = \<lambda>_ _ _ st. (Inl (Transport ''down''), st), list_keys = \<lambda>_ _ st. (Inl (Transport ''down''), st),
                clear_namespace = \<lambda>_ _ st. (Inl (Transport ''down''), st) \<rparr>;
       s = (sample_shared\<lparr>core := core_new\<lparr>redis_handler := Some down\<rparr>\<rparr>, sample_world (0 :: nat))
   in map_option without_store (send_event sample_ext (\<lambda>_ s. s) 2 sample_event s) =
      send_event sample_ext (\<lambda>_ s. s) 2 sample_event (without_store s)"
  unfolding Let_def by (rule store_is_transparent [of "\<lambda>_ s. s" "\<lambda>_ s. s", THEN conjunct1]) (rule refl)

section \<open>What the debug text of a configuration shows\<close>

text \<open>C34: The debug text of a configuration does not depend on the API key, the signing secret or the
  encryption key; but the Redis URL, in which the password of the store is given, stands in it in full.\<close>

theorem debug_secrets:
  assumes "same_but_secrets c d" and "redis c = Some r"
  shows "debug_config float d = debug_config float c \<and> sublist (debug_str (redis_url r)) (debug_config float d)"
  using debug_config_secrets [OF assms(1), of float] debug_config_redis [OF assms(2), of float] by simp

theorem debug_secrets_witness:
  "sublist (debug_str ''redis://:secret@cache:6379'')
     (debug_config (\<lambda>_. ''0.8'')
        (sample_config\<lparr>api_key := ''other-key-0001'', redis := Some (redis_config_new ''redis://:secret@cache:6379'')\<rparr>))"
proof -
  let ?r = "redis_config_new ''redis://:secret@cache:6379''"
  let ?c = "sample_config\<lparr>redis := Some ?r\<rparr>"
  let ?d = "sample_config\<lparr>api_key := ''other-key-0001'', redis := Some ?r\<rparr>"
  have "same_but_secrets ?c ?d"
    unfolding same_but_secrets_def
    by (intro exI [of _ "''other-key-0001''"] exI [of _ "[]"]) (simp add: sample_config_def config_new_def)
  from debug_secrets [OF this, of ?r "\<lambda>_. ''0.8''", THEN conjunct2]
  have "sublist (debug_str (redis_url ?r)) (debug_config (\<lambda>_. ''0.8'') ?d)" by simp
  moreover have "redis_url ?r = ''redis://:secret@cache:6379''" by (simp add: redis_config_new_def)
  ultimately show ?thesis by simp
qed

end
