(* ===== verification/Agent_Pace.thy ===== *)
theory Agent_Pace
  imports Agent_Safety
begin

text \<open>
  The pace of the requests of a whole agent: every operation of the agent, the background loops
  included, keeps the relation between the times of the requests and the admissions of the local
  limiter. The transport shows it for its own operations; here the rest of the agent is shown to
  leave the log of requests and the limiter alone.
\<close>

definition agent_paced :: "nat \<Rightarrow> Duration \<Rightarrow> 'st astate \<Rightarrow> bool" where
  "agent_paced n d s \<longleftrightarrow> paced (transport (fst s), snd s) \<and> max_calls (rate_limiter (transport (fst s))) = n \<and>
     time_window (rate_limiter (transport (fst s))) = d"

definition same_log :: "'st astate \<Rightarrow> 'st astate \<Rightarrow> bool" where
  "same_log s s' \<longleftrightarrow> transport (fst s') = transport (fst s) \<and> sent_at (snd s') = sent_at (snd s) \<and>
     wire (snd s') = wire (snd s) \<and> clock (snd s) \<le> clock (snd s')"

lemma same_log_paced: "same_log s s' \<Longrightarrow> agent_paced n d s \<Longrightarrow> agent_paced n d s'"
  using paced_same [of "(transport (fst s), snd s)" "(transport (fst s'), snd s')"]
  by (simp add: agent_paced_def same_log_def same_pace_def)

lemma same_log_trans: "same_log a b \<Longrightarrow> same_log b c \<Longrightarrow> same_log a c"
  by (simp add: same_log_def)

lemma bounded_paced: "bounded_step k (transport sh, w) (t, w') \<Longrightarrow> agent_paced n d (sh, w) \<Longrightarrow> agent_paced n d (sh\<lparr>transport := t, core := c\<rparr>, w')"
  by (simp add: agent_paced_def bounded_step_def advances_def steady_def)

section \<open>Operations that send nothing\<close>

lemma store_ops_log [simp]:
  "sent_at (delete_live c ns ks w) = sent_at w" "sent_at (forget_key c ns key w) = sent_at w"
  "sent_at (confirm_keys c ns keys w) = sent_at w"
  by (simp_all add: delete_live_def forget_key_def confirm_keys_def split: option.splits)

lemma persist_item_log:
  "persist_item ext ns pre v c w = (key, c', w') \<Longrightarrow> sent_at w' = sent_at w \<and> wire w' = wire w \<and> clock w' = clock w"
  by (auto simp: persist_item_def draw_uuid_def Let_def split: option.splits sum.splits prod.splits)

lemma spawn_transport [simp]: "transport (spawn_gated_flush sh) = transport sh"
  by (simp add: spawn_gated_flush_def)

lemma event_pass_log:
  assumes "enqueue_event_pass ext e s = EnqDone r s' \<or> enqueue_event_pass ext e s = EnqRetry s'"
  shows "same_log s s'"
proof -
  obtain sh w where s: "s = (sh, w)" by (cases s)
  obtain key c1 w1 where p: "persist_item ext NAMESPACE_EVENTS ''event'' (event_to_string ext e) (core sh) w = (key, c1, w1)"
    by (metis prod_cases3)
  show ?thesis using assms s p persist_item_log [OF p]
    by (auto simp: enqueue_event_pass_def same_log_def Let_def split: if_splits BufferOverflowPolicy.splits list.splits)
qed

lemma metric_pass_log:
  assumes "enqueue_metric_pass ext m s = EnqDone r s' \<or> enqueue_metric_pass ext m s = EnqRetry s'"
  shows "same_log s s'"
proof -
  obtain sh w where s: "s = (sh, w)" by (cases s)
  obtain key c1 w1 where p: "persist_item ext NAMESPACE_METRICS ''metric'' (metric_to_string ext m) (core sh) w = (key, c1, w1)"
    by (metis prod_cases3)
  show ?thesis using assms s p persist_item_log [OF p]
    by (auto simp: enqueue_metric_pass_def same_log_def Let_def split: if_splits BufferOverflowPolicy.splits list.splits)
qed

lemma finish_log: "same_log s (finish_events out xs ks s)" "same_log s (finish_metrics out ys ks s)"
  by (cases s; auto simp: finish_events_def finish_metrics_def same_log_def Let_def case_prod_beta split: SendOutcome.splits)+

lemma clear_buffer_log: "same_log s (clear_buffer s)"
  by (cases s) (auto simp: clear_buffer_def same_log_def Let_def split: option.splits prod.splits)

text \<open>A reload reads the store and evicts from it, nothing else of the world changes.\<close>

definition only_store :: "'st World \<Rightarrow> 'st CoreState \<times> 'st World \<Rightarrow> bool" where
  "only_store w0 s \<longleftrightarrow> sent_at (snd s) = sent_at w0 \<and> wire (snd s) = wire w0 \<and> clock (snd s) = clock w0"

lemma only_store_fold: "(\<And>x s. only_store w0 s \<Longrightarrow> only_store w0 (f x s)) \<Longrightarrow> only_store w0 s \<Longrightarrow> only_store w0 (fold f xs s)"
  by (induction xs arbitrary: s) auto

lemma reload_key_store:
  assumes "only_store w0 s"
  shows "only_store w0 (reload_event_key ext cfg h key s)" "only_store w0 (reload_metric_key ext cfg h key s)"
  using assms
  by (cases s; auto simp: reload_event_key_def reload_metric_key_def only_store_def Let_def
      split: prod.splits sum.splits option.splits)+

lemma reload_store:
  assumes "only_store w0 s"
  shows "only_store w0 (reload_events ext cfg h s)" "only_store w0 (reload_metrics ext cfg h s)"
  using assms reload_key_store [of w0]
  by (cases s; auto simp: reload_events_def reload_metrics_def only_store_def [of _ "(_, _\<lparr>store := _\<rparr>)"]
      intro!: only_store_fold split: prod.splits sum.splits; simp add: only_store_def)+

lemma reload_log: "same_log s (reload_from_redis ext s)"
proof -
  obtain sh w where s: "s = (sh, w)" by (cases s)
  have "only_store w (reload_metrics ext (config sh) h (reload_events ext (config sh) h (core sh, w)))" for h
    by (intro reload_store) (simp add: only_store_def)
  then show ?thesis using s
    by (auto simp: reload_from_redis_def same_log_def only_store_def case_prod_beta split: option.splits)
qed

section \<open>Operations that send\<close>

lemma flush_paced:
  assumes "agent_paced n d s"
  shows "agent_paced n d (flush_events ext s)" "agent_paced n d (flush_metrics ext s)"
proof -
  obtain sh w where s: "s = (sh, w)" by (cases s)
  have quiet: "agent_paced n d (sh\<lparr>core := c\<rparr>, w)" for c using assms s by (simp add: agent_paced_def)
  have sent: "agent_paced n d (sh\<lparr>core := c, transport := fst (snd (send_batch ext items (transport sh, w)))\<rparr>,
      snd (snd (send_batch ext items (transport sh, w))))" for c items
    using send_batch_bounded(1) [of items "(transport sh, w)" ext] assms s by (simp add: agent_paced_def bounded_step_def advances_def steady_def)
  show "agent_paced n d (flush_events ext s)"
    using assms s quiet same_log_paced [OF finish_log(1) sent]
    by (simp add: flush_events_def Let_def case_prod_beta)
  show "agent_paced n d (flush_metrics ext s)"
    using assms s quiet same_log_paced [OF finish_log(2) sent]
    by (simp add: flush_metrics_def Let_def case_prod_beta)
qed

lemma agent_paced_frame [simp]:
  "agent_paced n d (sh\<lparr>flush_permits := m\<rparr>, w) = agent_paced n d (sh, w)" "agent_paced n d (sh\<lparr>inflight := m\<rparr>, w) = agent_paced n d (sh, w)"
  "agent_paced n d (sh\<lparr>running := b\<rparr>, w) = agent_paced n d (sh, w)" "agent_paced n d (sh\<lparr>core := c\<rparr>, w) = agent_paced n d (sh, w)"
  "agent_paced n d (attach_redis_handler h sh, w) = agent_paced n d (sh, w)"
  by (simp_all add: agent_paced_def attach_redis_handler_def)

lemma agent_paced_sleep: "agent_paced n d (sh, w) \<Longrightarrow> agent_paced n d (sh, sleep_for ext delay w)"
  using same_log_paced [of "(sh, w)" "(sh, sleep_for ext delay w)" n d] by (simp add: same_log_def)

lemma do_flush_paced: "agent_paced n d s \<Longrightarrow> agent_paced n d (do_flush ext s)"
  by (simp add: do_flush_def flush_paced)

lemma flush_if_needed_paced: "agent_paced n d s \<Longrightarrow> agent_paced n d (flush_if_needed ext s)"
  by (cases s) (simp add: flush_if_needed_def do_flush_paced)

lemma with_permit_paced:
  assumes "\<And>s. agent_paced n d s \<Longrightarrow> agent_paced n d (f s)" "agent_paced n d s"
  shows "agent_paced n d (with_permit f s)"
proof -
  obtain sh w where s: "s = (sh, w)" by (cases s)
  then have "agent_paced n d (f (sh\<lparr>flush_permits := flush_permits sh - 1\<rparr>, w))" using assms by simp
  then show ?thesis using s by (simp add: with_permit_def Let_def case_prod_beta)
qed

lemma run_spawned_flush_paced: "agent_paced n d s \<Longrightarrow> agent_paced n d (run_spawned_flush ext s)"
  using with_permit_paced [where f = "flush_if_needed ext" and s = s, OF flush_if_needed_paced]
  by (auto simp: run_spawned_flush_def case_prod_beta)

lemma push_status_paced: "agent_paced n d s \<Longrightarrow> agent_paced n d (push_status_once ext s)"
  using send_status_bounded [of "(transport (fst s), snd s)" ext "compute_status ext s"]
  by (cases s) (simp add: push_status_once_def Let_def case_prod_beta agent_paced_def bounded_step_def advances_def steady_def)

lemma fetch_rules_paced: "agent_paced n d s \<Longrightarrow> agent_paced n d (snd (fetch_dynamic_rules_once ext s))"
  using get_with_retry_bounded [of "(transport (fst s), snd s)" ext "''rules''"]
  by (cases s)
     (auto simp: fetch_dynamic_rules_once_def Let_def case_prod_beta agent_paced_def bounded_step_def advances_def steady_def fetch_rules_snd
       split: option.splits)

lemma flush_tick_paced: "flush_tick ext s = Some s' \<Longrightarrow> agent_paced n d s \<Longrightarrow> agent_paced n d s'"
  using with_permit_paced [where f = "flush_if_needed ext" and
      s = "(fst s, sleep_for ext (from_secs (flush_interval (config (fst s)))) (snd s))", OF flush_if_needed_paced]
  by (cases s) (auto simp: flush_tick_def Let_def case_prod_beta agent_paced_sleep split: if_splits)

lemma status_tick_paced: "status_tick ext s = Some s' \<Longrightarrow> agent_paced n d s \<Longrightarrow> agent_paced n d s'"
  by (cases s) (auto simp: status_tick_def Let_def intro!: push_status_paced agent_paced_sleep split: if_splits)

lemma rules_tick_paced: "rules_tick ext s = Some s' \<Longrightarrow> agent_paced n d s \<Longrightarrow> agent_paced n d s'"
  using fetch_rules_paced [of n d "(fst s, sleep_for ext (from_secs (dynamic_rule_interval (config (fst s)))) (snd s))" ext]
  by (cases s) (auto simp: rules_tick_def Let_def case_prod_beta agent_paced_sleep split: if_splits)

lemma start_paced:
  "start ext connect \<lparr>shared = sh, loops = l\<rparr> w = (a, w') \<Longrightarrow> agent_paced n d (sh, w) \<Longrightarrow> agent_paced n d (shared a, w')"
  by (auto simp: start_def Let_def case_prod_beta
      intro!: same_log_paced [OF reload_log, of _ _ "(_, _)", simplified] split: if_splits option.splits sum.splits)

section \<open>Runs of the agent\<close>

lemma agent_paced_step: "agent_step ext s s' \<Longrightarrow> agent_paced n d s \<Longrightarrow> agent_paced n d s'"
  by (induction rule: agent_step.induct)
     (auto intro: same_log_paced event_pass_log metric_pass_log clear_buffer_log reload_log do_flush_paced run_spawned_flush_paced
       push_status_paced fetch_rules_paced flush_tick_paced status_tick_paced rules_tick_paced start_paced agent_paced_sleep
       with_permit_paced simp: flush_buffer_def)

lemma agent_paced_reachable: "agent_reachable ext s0 s \<Longrightarrow> agent_paced n d s0 \<Longrightarrow> agent_paced n d s"
  by (induction rule: agent_reachable.induct) (auto intro: agent_paced_step)

lemma paced_window:
  assumes "paced s"
  shows "length (filter (in_window t1 (time_window (rate_limiter (fst s)))) (sent_at (snd s))) \<le> max_calls (rate_limiter (fst s))"
proof -
  from assms obtain hist t where "tracks (rate_limiter (fst s)) hist t" "subseq (sent_at (snd s)) hist" by (auto simp: paced_def)
  then have "subseq (filter P (sent_at (snd s))) (filter P hist)" for P by (intro subseq_filter)
  from list_emb_length [OF this [of "in_window t1 (time_window (rate_limiter (fst s)))"]] show ?thesis
    using \<open>tracks (rate_limiter (fst s)) hist t\<close> unfolding tracks_def by (meson le_trans)
qed

end
