(* ===== verification/Agent_Recovery.thy ===== *)
theory Agent_Recovery
  imports Agent_Pace
begin

text \<open>
  Recovery after an outage. When enough time has passed, the retry gates are open, the breaker admits a
  probe and the limiter has forgotten its calls; a flush then sends one request for each kind, and if the
  server accepts them both buffers are empty. \<open>ready\<close> is the state of the two guards that lets the next
  requests through.
\<close>

section \<open>The guards\<close>

definition fresh_calls :: "Instant \<Rightarrow> RateLimiter \<Rightarrow> nat" where
  "fresh_calls now l = length (filter (\<lambda>c. duration_since now c < time_window l) (calls l))"

definition ready :: "nat \<Rightarrow> Instant \<Rightarrow> HttpTransport \<Rightarrow> bool" where
  "ready k now t \<longleftrightarrow> fresh_calls now (rate_limiter t) + k \<le> max_calls (rate_limiter t) \<and> fst (admit now (breaker t))"

lemma ready_less: "ready (Suc k) now t \<Longrightarrow> ready k now t"
  by (simp add: ready_def)

lemma ready_may_send: "ready (Suc k) (clock w) t \<Longrightarrow> may_send (t, w)"
  by (auto simp: ready_def may_send_def acquire_def fresh_calls_def Let_def)

lemma fresh_filter_mono:
  assumes "now \<le> now'"
  shows "length (filter (\<lambda>c. duration_since now' c < d) (filter (\<lambda>c. duration_since now c < d) cs)) \<le>
    length (filter (\<lambda>c. duration_since now c < d) cs)"
  by (rule length_filter_le)

text \<open>After a request that the server accepted, the breaker is closed and the limiter has one more call.\<close>

lemma ready_after_success:
  assumes "ready (Suc k) now t" "now \<le> now'" "rate_limiter t' = snd (acquire now (rate_limiter t))" "opened_at (breaker t') = None"
  shows "ready k now' t'"
proof -
  let ?l = "rate_limiter t"
  let ?kept = "filter (\<lambda>c. duration_since now c < time_window ?l) (calls ?l)"
  have room: "length ?kept + Suc k \<le> max_calls ?l" using assms(1) by (simp add: ready_def fresh_calls_def)
  then have l: "rate_limiter t' = ?l\<lparr>calls := ?kept @ [now]\<rparr>" using assms(3) by (simp add: acquire_def Let_def)
  have "length (filter (\<lambda>c. duration_since now' c < time_window ?l) (?kept @ [now])) \<le> length (?kept @ [now])"
    by (rule length_filter_le)
  then have "fresh_calls now' (rate_limiter t') \<le> Suc (length ?kept)" unfolding l by (simp add: fresh_calls_def)
  then show ?thesis using room l assms(4) by (simp add: ready_def admit_def)
qed

text \<open>Every transport is ready after a while, for as many calls as its limiter allows.\<close>

lemma eventually_ready: "\<exists>T. \<forall>now \<ge> T. ready (max_calls (rate_limiter t)) now t"
proof -
  let ?l = "rate_limiter t"
  define T where "T = sum_list (map (\<lambda>c. c + time_window ?l) (calls ?l)) +
    (case opened_at (breaker t) of None \<Rightarrow> 0 | Some opened \<Rightarrow> opened + recovery (breaker t))"
  show ?thesis
  proof (intro exI allI impI)
    fix now assume T: "T \<le> now"
    have "c + time_window ?l \<le> now" if "c \<in> set (calls ?l)" for c
    proof -
      have "c + time_window ?l \<le> sum_list (map (\<lambda>c. c + time_window ?l) (calls ?l))"
        by (rule member_le_sum_list) (use that in auto)
      with T show ?thesis by (simp add: T_def)
    qed
    then have "filter (\<lambda>c. duration_since now c < time_window ?l) (calls ?l) = []"
      by (force simp: filter_empty_conv duration_since_def)
    moreover have "fst (admit now (breaker t))"
      using T by (auto simp: T_def admit_def duration_since_def split: option.splits)
    ultimately show "ready (max_calls ?l) now t" by (simp add: ready_def fresh_calls_def)
  qed
qed

section \<open>A server that accepts\<close>

text \<open>Whatever was sent before, the answer has a readable body and is one of the codes 201 to 299, or 200 with
  an acknowledgement that reports neither failure nor errors.\<close>

definition acknowledged :: "externals \<Rightarrow> string \<Rightarrow> bool" where
  "acknowledged ext tx \<longleftrightarrow>
     (\<exists>ack. ack_from_str ext tx = Inr ack \<and> ack_success ack \<noteq> Some False \<and> (ack_errors ack = None \<or> ack_errors ack = Some []))"

definition accepting :: "externals \<Rightarrow> bool" where
  "accepting ext \<longleftrightarrow> (\<forall>sent now. \<exists>resp tx d. http ext sent now = (Inr resp, d) \<and> resp_text resp = Inr tx \<and>
     (201 \<le> resp_status resp \<and> resp_status resp \<le> 299 \<or> resp_status resp = 200 \<and> acknowledged ext tx))"

text \<open>The derived serializers of the typed payloads do not fail.\<close>

definition serializes :: "externals \<Rightarrow> bool" where
  "serializes ext \<longleftrightarrow> (\<forall>es. \<exists>v. events_to_value ext es = Inr v) \<and> (\<forall>ms. \<exists>v. metrics_to_value ext ms = Inr v) \<and>
     (\<forall>v. \<exists>body. value_to_vec ext v = Inr body)"

lemma build_batch_body_serializes:
  assumes "serializes ext"
  shows "\<exists>body w1. build_batch_body ext cfg items w = (Inr body, w1) \<and> clock w1 = clock w \<and> wire w1 = wire w"
proof -
  have "\<exists>v. items_value ext items = Inr v" using assms by (cases items) (simp_all add: serializes_def)
  then obtain v where v: "items_value ext items = Inr v" by blast
  then show ?thesis using assms
    by (auto simp: build_batch_body_def serializes_def draw_uuid_def Let_def split: prod.splits)
qed

lemma attempt_post_accepted:
  assumes "accepting ext"
  shows "\<exists>t' w'. attempt_post ext label body (t, w) = (AttemptAccepted, t', w') \<and> clock w \<le> clock w' \<and>
    rate_limiter t' = rate_limiter t \<and> breaker t' = breaker t \<and> wire w' = wire w @ [post_request ext t label body] \<and> steady t t'"
proof -
  let ?req = "post_request ext t label body"
  obtain resp tx d where h: "http ext (wire w @ [?req]) (clock w) = (Inr resp, d)" "resp_text resp = Inr tx"
      and status: "201 \<le> resp_status resp \<and> resp_status resp \<le> 299 \<or> resp_status resp = 200 \<and> acknowledged ext tx"
    using assms unfolding accepting_def by blast
  have "classify_attempt ext resp url = AttemptAccepted" for url
  proof (cases "resp_status resp = 200")
    case True
    then show ?thesis using h(2) status
      by (auto simp: classify_attempt_def classify_response_def parse_ack_def acknowledged_def)
  next
    case False
    then show ?thesis using h(2) status by (simp add: classify_attempt_def classify_response_def)
  qed
  then show ?thesis using h by (auto simp: attempt_post_def http_send_def Let_def steady_def)
qed

lemma send_with_retry_accepted:
  assumes "accepting ext" "ready (Suc k) (clock w) t"
  shows "\<exists>t' w'. send_with_retry ext label body (t, w) = (Inr Accepted, t', w') \<and> ready k (clock w') t' \<and>
    clock w \<le> clock w' \<and> wire w' = wire w @ [post_request ext t label body] \<and> steady t t'"
proof -
  define t1 where "t1 = t\<lparr>rate_limiter := snd (acquire (clock w) (rate_limiter t)), breaker := snd (admit (clock w) (breaker t))\<rparr>"
  have g: "gated (t, w) = (t1, w)" "steady t t1" "post_request ext t1 label body = post_request ext t label body"
    using post_request_gated [of ext "(t, w)" label body] gated_facts(2) [of t "(t, w)"]
    by (simp_all add: gated_def t1_def steady_def)
  obtain t2 w2 where a: "attempt_post ext label body (t1, w) = (AttemptAccepted, t2, w2)" "clock w \<le> clock w2"
      "rate_limiter t2 = rate_limiter t1" "wire w2 = wire w @ [post_request ext t1 label body]" "steady t1 t2"
    using attempt_post_accepted [OF assms(1), of label body t1 w] by blast
  obtain n where n: "total_attempts (tr_config t) = Suc n"
    by (cases "total_attempts (tr_config t)") (auto simp: total_attempts_def unat_saturating_add)
  have s: "send_with_retry ext label body (t, w) = (Inr Accepted, note_success t2, w2)"
    using send_body_may_send [OF ready_may_send [OF assms(2)], of ext label body "Suc n" 0] g(1) a(1)
    by (simp add: send_with_retry_def n Let_def after_post_def)
  have "ready k (clock w2) (note_success t2)"
    by (rule ready_after_success [OF assms(2) a(2)]) (simp_all add: note_success_def record_success_def a(3) t1_def)
  moreover have "steady t (note_success t2)" using g(2) a(5) by (simp add: steady_def note_success_def)
  ultimately show ?thesis using s a(2,4) unfolding g(3) by blast
qed

lemma send_batch_accepted:
  assumes "accepting ext" "serializes ext" "encryptor t = None" "ready (Suc k) (clock w) t"
  shows "\<exists>t' w' req. send_batch ext items (t, w) = (Accepted, t', w') \<and> ready k (clock w') t' \<and> clock w \<le> clock w' \<and>
    wire w' = wire w @ [req] \<and> carries ext t items req \<and> steady t t'"
proof -
  obtain body w1 where b: "build_batch_body ext (tr_config t) items w = (Inr body, w1)" "clock w1 = clock w" "wire w1 = wire w"
    using build_batch_body_serializes [OF assms(2)] by blast
  obtain t' w' where r: "send_with_retry ext (batch_label items) body (t, w1) = (Inr Accepted, t', w')" "ready k (clock w') t'"
      "clock w1 \<le> clock w'" "wire w' = wire w1 @ [post_request ext t (batch_label items) body]" "steady t t'"
    using send_with_retry_accepted [OF assms(1), of k w1 t "batch_label items" body] assms(4) b(2) by auto
  have "send_batch ext items (t, w) = (Accepted, t', w')"
    using assms(3) b(1) r(1) by (simp add: send_batch.simps send_plain_def report_outcome_def)
  moreover have "carries ext t items (post_request ext t (batch_label items) body)"
    using b(1) build_batch_body_fresh [of ext "tr_config t" items w] unfolding carries_def
    by (intro exI [of _ "clock w"] exI [of _ "draws w"] exI [of _ body]) simp
  ultimately show ?thesis using r b by auto
qed

section \<open>A flush\<close>

text \<open>The batch that a flush of one kind has to send, if any.\<close>

definition k_waiting :: "('a, 'st) kind_ops \<Rightarrow> 'st Shared \<Rightarrow> BatchItems list" where
  "k_waiting K sh = (if k_buf K (core sh) = [] then [] else [k_batch K (map item (k_buf K (core sh)))])"

context telemetry_kind
begin

lemma flush_empty:
  assumes "k_buf K (core sh) = []"
  shows "\<exists>c. k_flush K ext (sh, w) = (sh\<lparr>core := c\<rparr>, w) \<and> k_buf K c = []"
proof -
  obtain xs ks c where d: "k_drain K (core sh) = (xs, ks, c)" by (metis prod_cases3)
  have same: "sh\<lparr>core := core sh\<rparr> = sh" by (cases sh) simp
  show ?thesis
  proof (cases "gate_closed (clock w) (k_gate K (core sh))")
    case True
    then show ?thesis using assms by (intro exI [of _ "core sh"]) (simp add: flush_law same)
  next
    case False
    then show ?thesis using drain_law [OF d] assms d by (intro exI [of _ c]) (simp add: flush_law)
  qed
qed

lemma flush_recovers:
  assumes "\<not> gate_closed (clock w) (k_gate K (core sh))" "accepting ext" "serializes ext" "encryptor (transport sh) = None"
    and "ready (Suc k) (clock w) (transport sh)"
  shows "\<exists>sh' w' reqs. k_flush K ext (sh, w) = (sh', w') \<and> k_buf K (core sh') = [] \<and> ready k (clock w') (transport sh') \<and>
    clock w \<le> clock w' \<and> steady (transport sh) (transport sh') \<and> wire w' = wire w @ reqs \<and>
    list_all2 (carries ext (transport sh)) (k_waiting K sh) reqs"
proof (cases "k_buf K (core sh) = []")
  case True
  then show ?thesis using flush_empty [of sh ext w] ready_less [OF assms(5)] by (auto simp: k_waiting_def steady_def)
next
  case False
  let ?items = "k_batch K (map item (k_buf K (core sh)))"
  obtain t w1 req where b: "send_batch ext ?items (transport sh, w) = (Accepted, t, w1)" "ready k (clock w1) t" "clock w \<le> clock w1"
      "wire w1 = wire w @ [req]" "carries ext (transport sh) ?items req" "steady (transport sh) t"
    using send_batch_accepted [OF assms(2-5), of ?items] by blast
  have "is_confirmed Accepted" by simp
  with flush_confirmed [OF assms(1) False b(1)] obtain sh' w' where
      "k_flush K ext (sh, w) = (sh', w')" "transport sh' = t" "k_buf K (core sh') = []"
      "w' = confirm_keys (core sh) (k_namespace K) (map redis_key (k_buf K (core sh))) w1"
    by blast
  then show ?thesis using b False by (auto simp: k_waiting_def)
qed

end

text \<open>The batches that a flush of both kinds has to send, in their order.\<close>

definition flush_batches :: "'st Shared \<Rightarrow> BatchItems list" where
  "flush_batches sh = (if events (core sh) = [] then [] else [Events (map item (events (core sh)))]) @
     (if metrics (core sh) = [] then [] else [Metrics (map item (metrics (core sh)))])"

lemma list_all2_carries_steady:
  "steady t t' \<Longrightarrow> list_all2 (carries ext t') bs reqs \<longleftrightarrow> list_all2 (carries ext t) bs reqs"
  using carries_steady [of t t' ext] by (simp add: list_all2_conv_all_nth)

lemma do_flush_recovers:
  assumes "\<not> gate_closed (clock w) (events_retry_after (core sh))" "\<not> gate_closed (clock w) (metrics_retry_after (core sh))"
    and "accepting ext" "serializes ext" "encryptor (transport sh) = None" "ready 2 (clock w) (transport sh)"
  shows "\<exists>sh' w' reqs. do_flush ext (sh, w) = (sh', w') \<and> events (core sh') = [] \<and> metrics (core sh') = [] \<and>
    wire w' = wire w @ reqs \<and> list_all2 (carries ext (transport sh)) (flush_batches sh) reqs"
proof -
  have two: "ready (Suc 1) (clock w) (transport sh)" "ready (Suc 0) = ready 1" using assms(6) by (simp_all add: numeral_2_eq_2)
  obtain sh1 w1 rs1 where e: "flush_events ext (sh, w) = (sh1, w1)" "events (core sh1) = []" "ready 1 (clock w1) (transport sh1)"
      "clock w \<le> clock w1" "steady (transport sh) (transport sh1)" "wire w1 = wire w @ rs1"
      "list_all2 (carries ext (transport sh)) (k_waiting event_ops sh) rs1"
    using ev.flush_recovers [OF _ assms(3-5) two(1)] assms(1) by (auto simp: event_ops_def)
  have m: "metrics (core sh1) = metrics (core sh)" "metrics_retry_after (core sh1) = metrics_retry_after (core sh)"
    using flush_isolated(1) [of "(sh, w)" ext] e(1) by (simp_all add: same_metrics_def)
  have open_gate: "\<not> gate_closed (clock w1) (metrics_retry_after (core sh1))"
    using assms(2) e(4) m(2) by (auto simp: gate_closed_def split: option.splits)
  have enc: "encryptor (transport sh1) = None" using assms(5) e(5) by (simp add: steady_def)
  obtain sh2 w2 rs2 where f: "flush_metrics ext (sh1, w1) = (sh2, w2)" "metrics (core sh2) = []" "wire w2 = wire w1 @ rs2"
      "list_all2 (carries ext (transport sh1)) (k_waiting metric_ops sh1) rs2"
    using mt.flush_recovers [OF _ assms(3,4) enc e(3) [folded two(2)]] open_gate by (auto simp: metric_ops_def)
  have "events (core sh2) = []"
    using flush_isolated(2) [of "(sh1, w1)" ext] f(1) e(2) by (simp add: same_events_def)
  moreover have "flush_batches sh = k_waiting event_ops sh @ k_waiting metric_ops sh1"
    using m(1) by (simp add: flush_batches_def k_waiting_def event_ops_def metric_ops_def)
  moreover have "list_all2 (carries ext (transport sh)) (k_waiting event_ops sh @ k_waiting metric_ops sh1) (rs1 @ rs2)"
    by (rule list_all2_appendI [OF e(7) f(4) [unfolded list_all2_carries_steady [OF e(5)]]])
  ultimately show ?thesis using e f by (intro exI [of _ sh2] exI [of _ w2] exI [of _ "rs1 @ rs2"]) (simp add: do_flush_def)
qed

text \<open>Gates, breaker and limiter let a flush through from some time on.\<close>

lemma eventually_open: "\<exists>T. \<forall>now \<ge> T. \<not> gate_closed now gate"
  by (cases gate) (auto simp: gate_closed_def intro: exI [of _ "the gate"])

lemma ready_mono: "ready n now t \<Longrightarrow> k \<le> n \<Longrightarrow> ready k now t"
  by (simp add: ready_def)

end
