(* ===== verification/Delivery_Spec.thy ===== *)
theory Delivery_Spec
  imports Prelude "HOL-Library.Sublist" "HOL-Library.Multiset"
begin

text \<open>
  The abstract specification of the delivery of one kind of telemetry: a bounded queue from which whole
  batches are taken, at most \<open>permits\<close> at a time, and each is settled or returned to the front of the queue.
  It knows nothing of stores, transports, gates or tasks. Three facts follow from it alone: every item is
  accounted for, the number of batches in flight is bounded, and with one permit the items are settled in
  the order in which they were handed over.
\<close>

record 'a delivery =
  waiting :: "'a list"
  flying :: "'a list multiset"
  handed :: "'a list"
  settled_items :: "'a list"
  lost :: "'a multiset"

inductive delivery_step :: "nat \<Rightarrow> nat \<Rightarrow> 'a delivery \<Rightarrow> 'a delivery \<Rightarrow> bool" for cap permits where
  hand: "length (waiting D) < cap \<Longrightarrow> delivery_step cap permits D (D\<lparr>waiting := waiting D @ [x], handed := handed D @ [x]\<rparr>)"
| overflow: "waiting D = x # rest \<Longrightarrow> delivery_step cap permits D (D\<lparr>waiting := rest, lost := add_mset x (lost D)\<rparr>)"
| take: "waiting D \<noteq> [] \<Longrightarrow> size (flying D) < permits \<Longrightarrow>
     delivery_step cap permits D (D\<lparr>waiting := [], flying := add_mset (waiting D) (flying D)\<rparr>)"
| settle: "flying D = add_mset xs others \<Longrightarrow>
     delivery_step cap permits D (D\<lparr>flying := others, settled_items := settled_items D @ xs\<rparr>)"
| return: "flying D = add_mset xs others \<Longrightarrow>
     delivery_step cap permits D
       (D\<lparr>flying := others, waiting := List.take cap (xs @ waiting D), lost := mset (drop cap (xs @ waiting D)) + lost D\<rparr>)"

definition delivery_init :: "'a list \<Rightarrow> 'a delivery" where
  "delivery_init xs = \<lparr> waiting = xs, flying = {#}, handed = xs, settled_items = [], lost = {#} \<rparr>"

inductive delivery_run :: "nat \<Rightarrow> nat \<Rightarrow> 'a list \<Rightarrow> 'a delivery \<Rightarrow> bool" for cap permits xs where
  start: "delivery_run cap permits xs (delivery_init xs)"
| step: "delivery_run cap permits xs D \<Longrightarrow> delivery_step cap permits D D' \<Longrightarrow> delivery_run cap permits xs D'"

section \<open>The account and the bounds\<close>

definition flying_items :: "'a delivery \<Rightarrow> 'a multiset" where
  "flying_items D = \<Sum>\<^sub># (image_mset mset (flying D))"

lemma delivery_account:
  assumes "delivery_run cap permits xs D"
  shows "mset (handed D) = mset (waiting D) + flying_items D + mset (settled_items D) + lost D"
  using assms
proof induction
  case (step D D')
  have "mset (List.take cap (ys @ zs)) + mset (drop cap (ys @ zs)) = mset ys + mset zs" for ys zs :: "'a list"
    by (metis append_take_drop_id mset_append)
  with step.hyps(2) step.IH show ?case
    by cases (auto simp: flying_items_def simp del: take_append drop_append)
qed (simp add: delivery_init_def flying_items_def)

lemma delivery_bounds:
  assumes "delivery_run cap permits xs D" "length xs \<le> cap"
  shows "length (waiting D) \<le> cap \<and> size (flying D) \<le> permits"
  using assms(1)
proof induction
  case (step D D')
  from step.hyps(2) step.IH show ?case by cases auto
qed (use assms(2) in \<open>simp add: delivery_init_def\<close>)

section \<open>Order\<close>

text \<open>With one permit at most one batch is in flight; it goes before what is waiting.\<close>

definition in_order :: "'a delivery \<Rightarrow> bool" where
  "in_order D \<longleftrightarrow>
     (\<exists>batches. flying D = mset batches \<and> subseq (settled_items D @ concat batches @ waiting D) (handed D))"

lemma one_batch: "size M \<le> Suc 0 \<Longrightarrow> M = mset batches \<Longrightarrow> batches = [] \<or> (\<exists>xs. batches = [xs])"
  by (cases batches) auto

lemma delivery_in_order_step:
  assumes "delivery_step cap (Suc 0) D D'" "in_order D" "size (flying D) \<le> Suc 0"
  shows "in_order D'"
proof -
  obtain batches where b: "flying D = mset batches" "subseq (settled_items D @ concat batches @ waiting D) (handed D)"
    using assms(2) by (auto simp: in_order_def)
  have one: "others = {#} \<and> batches = [xs]" if "flying D = add_mset xs others" for xs others
    using that one_batch [OF assms(3) b(1)] b(1) by auto
  from assms(1) show ?thesis
  proof cases
    case (hand x)
    from b(2) have "subseq ((settled_items D @ concat batches @ waiting D) @ [x]) (handed D @ [x])"
      by (rule list_emb_append_mono) simp
    with hand b(1) show ?thesis by (auto simp: in_order_def)
  next
    case (overflow x rest)
    have "subseq (settled_items D @ concat batches @ rest) (settled_items D @ concat batches @ waiting D)"
      unfolding overflow by (intro list_emb_append_mono subseq_order.order_refl) (simp add: subseq_Cons')
    with b(2) have "subseq (settled_items D @ concat batches @ rest) (handed D)" by (rule subseq_order.order_trans [rotated])
    with overflow b(1) show ?thesis by (auto simp: in_order_def)
  next
    case take
    then have "batches = []" using b(1) by simp
    with take b show ?thesis by (auto simp: in_order_def intro!: exI [of _ "[waiting D]"])
  next
    case (settle xs others)
    with one [OF settle(2)] b(2) show ?thesis by (auto simp: in_order_def)
  next
    case (return xs others)
    have "subseq (settled_items D @ List.take cap (xs @ waiting D)) (settled_items D @ (xs @ waiting D))"
      by (intro list_emb_append_mono subseq_order.order_refl) (metis append_take_drop_id list_emb_append2 subseq_order.order_refl prefix_imp_subseq take_is_prefix)
    with one [OF return(2)] b(2) have "subseq (settled_items D @ List.take cap (xs @ waiting D)) (handed D)"
      by (auto intro: subseq_order.order_trans)
    with return one [OF return(2)] show ?thesis by (auto simp: in_order_def)
  qed
qed

lemma delivery_ordered:
  assumes "delivery_run cap (Suc 0) xs D" "length xs \<le> cap"
  shows "in_order D"
  using assms(1)
proof induction
  case start
  then show ?case by (auto simp: in_order_def delivery_init_def)
next
  case (step D D')
  with delivery_in_order_step delivery_bounds [OF step.hyps(1) assms(2)] show ?case by blast
qed

end
