(* ===== verification/Flush_Tasks.thy ===== *)
theory Flush_Tasks
  imports Agent_Ledger Delivery_Spec
begin

text \<open>
  The flushes of \<^verbatim>\<open>src/src/agent.rs\<close> as concurrent tasks. \<open>events_phase\<close> and \<open>metrics_phase\<close> run one flush in
  steps, one per acquisition of the core mutex, store operation, send and call of the hook; run without
  interruption they are \<open>flush_events\<close> and \<open>flush_metrics\<close>. A task begins at its trigger, without a permit;
  \<open>task_step\<close> has where the code takes the permit, flushes the events and then the metrics, and drops it.
  \<open>system_step\<close> interleaves any number of tasks with the producers and the rest of the program. Not among
  its steps are \<^verbatim>\<open>clear_buffer\<close>, the reload of a start, and a runtime that drops a flush half-way.
\<close>

section \<open>One flush in steps\<close>

datatype 'a flush_phase =
    AtGate
  | Draining
  | Stamping "'a list" "string option list"
  | Sending "'a list" "string option list"
  | Confirming SendOutcome "'a list" "string option list"
  | Crediting nat
  | Requeueing GuardAgentError "'a list" "string option list"
  | Penalizing GuardAgentError nat "string option list"
  | Forgetting GuardAgentError "string option list"
  | Reporting GuardAgentError
  | Flushed

definition after_send :: "SendOutcome \<Rightarrow> 'a list \<Rightarrow> string option list \<Rightarrow> 'a flush_phase" where
  "after_send outcome xs ks =
     (case outcome of Failed err \<Rightarrow> Requeueing err xs ks | _ \<Rightarrow> Confirming outcome xs ks)"

fun events_phase :: "externals \<Rightarrow> SecurityEvent flush_phase \<Rightarrow> 'st astate \<Rightarrow> SecurityEvent flush_phase \<times> 'st astate" where
  "events_phase ext AtGate (sh, w) =
     (if gate_closed (clock w) (events_retry_after (core sh)) then Flushed else Draining, (sh, w))"
| "events_phase ext Draining (sh, w) =
     (let (xs, ks, c) = drain_events (core sh)
      in (if xs = [] then Flushed else Stamping xs ks, (sh\<lparr>core := c\<rparr>, w)))"
| "events_phase ext (Stamping xs ks) (sh, w) =
     (Sending xs ks, (sh\<lparr>core := core_set_last_flush ext w (core sh)\<rparr>, w))"
| "events_phase ext (Sending xs ks) (sh, w) =
     (let (outcome, t, w1) = send_batch ext (Events xs) (transport sh, w)
      in (after_send outcome xs ks, (sh\<lparr>transport := t\<rparr>, w1)))"
| "events_phase ext (Confirming outcome xs ks) (sh, w) =
     (if outcome = Accepted then Crediting (length xs) else Flushed,
      (sh, confirm_keys (core sh) NAMESPACE_EVENTS ks w))"
| "events_phase ext (Crediting n) (sh, w) = (Flushed, (sh\<lparr>core := accept_events n (core sh)\<rparr>, w))"
| "events_phase ext (Requeueing err xs ks) (sh, w) =
     (let (evicted, c) = requeue_events (config sh) xs ks (core sh)
      in (Penalizing err (length xs) evicted, (sh\<lparr>core := c\<rparr>, w)))"
| "events_phase ext (Penalizing err n evicted) (sh, w) =
     (let c = fail_events (config sh) n (clock w) (core sh)
      in (Forgetting err evicted,
          (sh\<lparr>core := c\<rparr>, if events_retry_after c = None then w\<lparr>panicked := True\<rparr> else w)))"
| "events_phase ext (Forgetting err evicted) (sh, w) =
     (Reporting err, (sh, if evicted \<noteq> [] then confirm_keys (core sh) NAMESPACE_EVENTS evicted w else w))"
| "events_phase ext (Reporting err) (sh, w) = (Flushed, (sh, fire_hook (config sh) FlushEvents err w))"
| "events_phase ext Flushed (sh, w) = (Flushed, (sh, w))"

fun metrics_phase :: "externals \<Rightarrow> SecurityMetric flush_phase \<Rightarrow> 'st astate \<Rightarrow> SecurityMetric flush_phase \<times> 'st astate" where
  "metrics_phase ext AtGate (sh, w) =
     (if gate_closed (clock w) (metrics_retry_after (core sh)) then Flushed else Draining, (sh, w))"
| "metrics_phase ext Draining (sh, w) =
     (let (xs, ks, c) = drain_metrics (core sh)
      in (if xs = [] then Flushed else Stamping xs ks, (sh\<lparr>core := c\<rparr>, w)))"
| "metrics_phase ext (Stamping xs ks) (sh, w) =
     (Sending xs ks, (sh\<lparr>core := core_set_last_flush ext w (core sh)\<rparr>, w))"
| "metrics_phase ext (Sending xs ks) (sh, w) =
     (let (outcome, t, w1) = send_batch ext (Metrics xs) (transport sh, w)
      in (after_send outcome xs ks, (sh\<lparr>transport := t\<rparr>, w1)))"
| "metrics_phase ext (Confirming outcome xs ks) (sh, w) =
     (if outcome = Accepted then Crediting (length xs) else Flushed,
      (sh, confirm_keys (core sh) NAMESPACE_METRICS ks w))"
| "metrics_phase ext (Crediting n) (sh, w) = (Flushed, (sh\<lparr>core := accept_metrics n (core sh)\<rparr>, w))"
| "metrics_phase ext (Requeueing err xs ks) (sh, w) =
     (let (evicted, c) = requeue_metrics (config sh) xs ks (core sh)
      in (Penalizing err (length xs) evicted, (sh\<lparr>core := c\<rparr>, w)))"
| "metrics_phase ext (Penalizing err n evicted) (sh, w) =
     (let c = fail_metrics (config sh) n (clock w) (core sh)
      in (Forgetting err evicted,
          (sh\<lparr>core := c\<rparr>, if metrics_retry_after c = None then w\<lparr>panicked := True\<rparr> else w)))"
| "metrics_phase ext (Forgetting err evicted) (sh, w) =
     (Reporting err, (sh, if evicted \<noteq> [] then confirm_keys (core sh) NAMESPACE_METRICS evicted w else w))"
| "metrics_phase ext (Reporting err) (sh, w) = (Flushed, (sh, fire_hook (config sh) FlushMetrics err w))"
| "metrics_phase ext Flushed (sh, w) = (Flushed, (sh, w))"

text \<open>A flush without interruption: \<open>n\<close> steps from the gate on.\<close>

fun run_events :: "externals \<Rightarrow> nat \<Rightarrow> SecurityEvent flush_phase \<times> 'st astate \<Rightarrow> SecurityEvent flush_phase \<times> 'st astate" where
  "run_events ext 0 p = p"
| "run_events ext (Suc n) (p, s) = run_events ext n (events_phase ext p s)"

fun run_metrics :: "externals \<Rightarrow> nat \<Rightarrow> SecurityMetric flush_phase \<times> 'st astate \<Rightarrow> SecurityMetric flush_phase \<times> 'st astate" where
  "run_metrics ext 0 p = p"
| "run_metrics ext (Suc n) (p, s) = run_metrics ext n (metrics_phase ext p s)"

lemma run_events_Flushed [simp]: "run_events ext n (Flushed, s) = (Flushed, s)"
  by (induction n) (cases s, simp_all)+

lemma run_metrics_Flushed [simp]: "run_metrics ext n (Flushed, s) = (Flushed, s)"
  by (induction n) (cases s, simp_all)+

lemma run_events_eight: "run_events ext 8 (AtGate, s) = (Flushed, flush_events ext s)"
proof (cases s)
  case (Pair sh w)
  obtain xs ks c where d: "drain_events (core sh) = (xs, ks, c)" by (cases "drain_events (core sh)") auto
  obtain outcome t w1 where b: "send_batch ext (Events xs) (transport sh, w) = (outcome, t, w1)"
    by (cases "send_batch ext (Events xs) (transport sh, w)") auto
  show ?thesis
    by (cases outcome; cases "gate_closed (clock w) (events_retry_after (core sh))"; cases "xs = []")
      (simp_all add: Pair flush_events_def d b finish_events_def after_send_def numeral_eq_Suc Let_def split: prod.splits)
qed

lemma run_metrics_eight: "run_metrics ext 8 (AtGate, s) = (Flushed, flush_metrics ext s)"
proof (cases s)
  case (Pair sh w)
  obtain xs ks c where d: "drain_metrics (core sh) = (xs, ks, c)" by (cases "drain_metrics (core sh)") auto
  obtain outcome t w1 where b: "send_batch ext (Metrics xs) (transport sh, w) = (outcome, t, w1)"
    by (cases "send_batch ext (Metrics xs) (transport sh, w)") auto
  show ?thesis
    by (cases outcome; cases "gate_closed (clock w) (metrics_retry_after (core sh))"; cases "xs = []")
      (simp_all add: Pair flush_metrics_def d b finish_metrics_def after_send_def numeral_eq_Suc Let_def split: prod.splits)
qed

lemma run_events_add: "run_events ext (a + b) c = run_events ext b (run_events ext a c)"
proof (induction a arbitrary: c)
  case (Suc a)
  then show ?case by (cases c) (simp del: split_paired_All)
qed simp

lemma run_metrics_add: "run_metrics ext (a + b) c = run_metrics ext b (run_metrics ext a c)"
proof (induction a arbitrary: c)
  case (Suc a)
  then show ?case by (cases c) (simp del: split_paired_All)
qed simp

lemma run_events_enough: "run_events ext (n + 8) (AtGate, s) = (Flushed, flush_events ext s)"
  using run_events_add [of ext 8 n "(AtGate, s)"] by (simp add: run_events_eight add.commute)

lemma run_metrics_enough: "run_metrics ext (n + 8) (AtGate, s) = (Flushed, flush_metrics ext s)"
  using run_metrics_add [of ext 8 n "(AtGate, s)"] by (simp add: run_metrics_eight add.commute)

section \<open>Flush tasks and their triggers\<close>

text \<open>The flush semaphore: \<^verbatim>\<open>try_acquire_owned\<close>, and dropping a permit.\<close>

definition try_acquire :: "'st astate \<Rightarrow> 'st astate option" where
  "try_acquire s =
     (let (sh, w) = s
      in if flush_permits sh = 0 then None else Some (sh\<lparr>flush_permits := flush_permits sh - 1\<rparr>, w))"

definition drop_permit :: "'st astate \<Rightarrow> 'st astate" where
  "drop_permit s = (let (sh, w) = s in (sh\<lparr>flush_permits := flush_permits sh + 1\<rparr>, w))"

text \<open>A flush starts in one of three ways: the task of \<^verbatim>\<open>spawn_gated_flush\<close>; a tick of \<^verbatim>\<open>flush_loop\<close>, which
  looks at the running flag first; or a caller of \<^verbatim>\<open>flush_buffer\<close>, which waits for a permit. With the permit
  the first two check whether a flush is needed. \<^const>\<open>None\<close>: the task is over.\<close>

datatype task =
    Spawned
  | Loop_Tick
  | Loop_Gate
  | Awaiting
  | Checking
  | Flushing_Events "SecurityEvent flush_phase"
  | Flushing_Metrics "SecurityMetric flush_phase"

fun task_step :: "externals \<Rightarrow> task \<Rightarrow> 'st astate \<Rightarrow> task option \<times> 'st astate" where
  "task_step ext Spawned s = (case try_acquire s of None \<Rightarrow> (None, s) | Some s' \<Rightarrow> (Some Checking, s'))"
| "task_step ext Loop_Tick s = (if running (fst s) then Some Loop_Gate else None, s)"
| "task_step ext Loop_Gate s = (case try_acquire s of None \<Rightarrow> (None, s) | Some s' \<Rightarrow> (Some Checking, s'))"
| "task_step ext Awaiting s =
     (case try_acquire s of None \<Rightarrow> (Some Awaiting, s) | Some s' \<Rightarrow> (Some (Flushing_Events AtGate), s'))"
| "task_step ext Checking (sh, w) =
     (if flush_needed (config sh) (clock w) (core sh) then (Some (Flushing_Events AtGate), (sh, w))
      else (None, drop_permit (sh, w)))"
| "task_step ext (Flushing_Events p) s =
     (if p = Flushed then (Some (Flushing_Metrics AtGate), s)
      else let (p', s') = events_phase ext p s in (Some (Flushing_Events p'), s'))"
| "task_step ext (Flushing_Metrics p) s =
     (if p = Flushed then (None, drop_permit s)
      else let (p', s') = metrics_phase ext p s in (Some (Flushing_Metrics p'), s'))"

text \<open>The tasks that have a permit.\<close>

fun holds_permit :: "task \<Rightarrow> bool" where
  "holds_permit Spawned = False"
| "holds_permit Loop_Tick = False"
| "holds_permit Loop_Gate = False"
| "holds_permit Awaiting = False"
| "holds_permit _ = True"

text \<open>A task left alone, for \<open>n\<close> steps.\<close>

fun run_task :: "externals \<Rightarrow> nat \<Rightarrow> task option \<times> 'st astate \<Rightarrow> task option \<times> 'st astate" where
  "run_task ext 0 c = c"
| "run_task ext (Suc n) (None, s) = (None, s)"
| "run_task ext (Suc n) (Some t, s) = run_task ext n (task_step ext t s)"

section \<open>The system\<close>

text \<open>The agent with its tasks, and what was handed over and settled of each kind, in order.\<close>

record 'st system =
  agent :: "'st astate"
  tasks :: "task list"
  handed_events :: "SecurityEvent list"
  settled_events :: "SecurityEvent list"
  handed_metrics :: "SecurityMetric list"
  settled_metrics :: "SecurityMetric list"

text \<open>While a batch is sent the other tasks use the transport too, so the answer, the transport and the
  world after a send are arbitrary; only the core is untouched. \<open>elsewhere\<close> is every other operation of
  the program: it leaves the buffers, their drop counters and the permits alone.\<close>

definition sending :: "task \<Rightarrow> bool" where
  "sending t \<longleftrightarrow> (\<exists>xs ks. t = Flushing_Events (Sending xs ks)) \<or> (\<exists>xs ks. t = Flushing_Metrics (Sending xs ks))"

definition same_buffers :: "'st Shared \<Rightarrow> 'st Shared \<Rightarrow> bool" where
  "same_buffers sh sh' \<longleftrightarrow> config sh' = config sh \<and> flush_permits sh' = flush_permits sh \<and>
     events (core sh') = events (core sh) \<and> events_dropped (core sh') = events_dropped (core sh) \<and>
     metrics (core sh') = metrics (core sh) \<and> metrics_dropped (core sh') = metrics_dropped (core sh)"

definition settled_by :: "SendOutcome \<Rightarrow> 'a list \<Rightarrow> 'a list" where
  "settled_by outcome xs = (if is_confirmed outcome then xs else [])"

inductive system_step :: "externals \<Rightarrow> 'st system \<Rightarrow> 'st system \<Rightarrow> bool" for ext where
  event_in: "enqueue_event_pass ext e (agent S) = EnqDone (Inr ()) s' \<Longrightarrow>
     system_step ext S (S\<lparr>agent := s', handed_events := handed_events S @ [e]\<rparr>)"
| event_refused: "enqueue_event_pass ext e (agent S) = EnqDone (Inl err) s' \<Longrightarrow> system_step ext S (S\<lparr>agent := s'\<rparr>)"
| event_out: "enqueue_event_pass ext e (agent S) = EnqRetry s' \<Longrightarrow> system_step ext S (S\<lparr>agent := s'\<rparr>)"
| event_waits: "enqueue_event_pass ext e (agent S) = EnqWait s' \<Longrightarrow> system_step ext S (S\<lparr>agent := s'\<rparr>)"
| metric_in: "enqueue_metric_pass ext m (agent S) = EnqDone (Inr ()) s' \<Longrightarrow>
     system_step ext S (S\<lparr>agent := s', handed_metrics := handed_metrics S @ [m]\<rparr>)"
| metric_refused: "enqueue_metric_pass ext m (agent S) = EnqDone (Inl err) s' \<Longrightarrow> system_step ext S (S\<lparr>agent := s'\<rparr>)"
| metric_out: "enqueue_metric_pass ext m (agent S) = EnqRetry s' \<Longrightarrow> system_step ext S (S\<lparr>agent := s'\<rparr>)"
| metric_waits: "enqueue_metric_pass ext m (agent S) = EnqWait s' \<Longrightarrow> system_step ext S (S\<lparr>agent := s'\<rparr>)"
| trigger: "t \<in> {Spawned, Loop_Tick, Awaiting} \<Longrightarrow> system_step ext S (S\<lparr>tasks := tasks S @ [t]\<rparr>)"
| advance: "tasks S = before @ t # after \<Longrightarrow> \<not> sending t \<Longrightarrow> task_step ext t (agent S) = (Some t', s') \<Longrightarrow>
     system_step ext S (S\<lparr>agent := s', tasks := before @ t' # after\<rparr>)"
| finish: "tasks S = before @ t # after \<Longrightarrow> task_step ext t (agent S) = (None, s') \<Longrightarrow>
     system_step ext S (S\<lparr>agent := s', tasks := before @ after\<rparr>)"
| events_answered: "tasks S = before @ Flushing_Events (Sending xs ks) # after \<Longrightarrow> agent S = (sh, w) \<Longrightarrow>
     system_step ext S
       (S\<lparr>agent := (sh\<lparr>transport := t\<rparr>, w'), tasks := before @ Flushing_Events (after_send outcome xs ks) # after,
          settled_events := settled_events S @ settled_by outcome xs\<rparr>)"
| metrics_answered: "tasks S = before @ Flushing_Metrics (Sending xs ks) # after \<Longrightarrow> agent S = (sh, w) \<Longrightarrow>
     system_step ext S
       (S\<lparr>agent := (sh\<lparr>transport := t\<rparr>, w'), tasks := before @ Flushing_Metrics (after_send outcome xs ks) # after,
          settled_metrics := settled_metrics S @ settled_by outcome xs\<rparr>)"
| elsewhere: "same_buffers (fst (agent S)) sh' \<Longrightarrow> system_step ext S (S\<lparr>agent := (sh', w')\<rparr>)"

definition system_init :: "'st astate \<Rightarrow> 'st system" where
  "system_init s =
     \<lparr> agent = s, tasks = [], handed_events = map item (events (core (fst s))), settled_events = [],
       handed_metrics = map item (metrics (core (fst s))), settled_metrics = [] \<rparr>"

inductive system_run :: "externals \<Rightarrow> 'st astate \<Rightarrow> 'st system \<Rightarrow> bool" for ext s0 where
  start: "system_run ext s0 (system_init s0)"
| step: "system_run ext s0 S \<Longrightarrow> system_step ext S S' \<Longrightarrow> system_run ext s0 S'"

end
