(* ===== verification/Flush_Concurrency.thy ===== *)
theory Flush_Concurrency
  imports Flush_Tasks
begin

text \<open>
  What the flush tasks guarantee. A task left alone does what the flush functions do; and the system of all
  tasks and producers refines the abstract delivery of each kind. The locale \<open>flush_machine\<close> states what
  one step of a flush does to the buffer of its kind; it is interpreted for both kinds.
\<close>

section \<open>A task alone\<close>

lemma run_task_None [simp]: "run_task ext n (None, s) = (None, s)"
  by (cases n) simp_all

lemma run_task_add: "run_task ext (a + b) c = run_task ext b (run_task ext a c)"
proof (induction a arbitrary: c)
  case (Suc a)
  then show ?case by (cases c; cases "fst c") auto
qed simp

lemma run_task_enough: "run_task ext k c = (None, s') \<Longrightarrow> k \<le> n \<Longrightarrow> run_task ext n c = (None, s')"
  using run_task_add [of ext k "n - k" c] by simp

lemma task_flushes_events:
  "run_events ext n (p, s) = (Flushed, s') \<Longrightarrow>
   \<exists>k \<le> n. run_task ext k (Some (Flushing_Events p), s) = (Some (Flushing_Events Flushed), s')"
proof (induction n arbitrary: p s)
  case (Suc n)
  show ?case
  proof (cases "p = Flushed")
    case True
    with Suc.prems have "s' = s" by (cases s) simp
    then show ?thesis using True by (intro exI [of _ 0]) simp
  next
    case False
    obtain p1 s1 where one: "events_phase ext p s = (p1, s1)" by (cases "events_phase ext p s") blast
    with Suc.prems have "run_events ext n (p1, s1) = (Flushed, s')" by simp
    from Suc.IH [OF this] obtain k where
      "k \<le> n" "run_task ext k (Some (Flushing_Events p1), s1) = (Some (Flushing_Events Flushed), s')" by blast
    then show ?thesis using False one by (intro exI [of _ "Suc k"]) simp
  qed
qed simp

lemma task_flushes_metrics:
  "run_metrics ext n (p, s) = (Flushed, s') \<Longrightarrow>
   \<exists>k \<le> n. run_task ext k (Some (Flushing_Metrics p), s) = (Some (Flushing_Metrics Flushed), s')"
proof (induction n arbitrary: p s)
  case (Suc n)
  show ?case
  proof (cases "p = Flushed")
    case True
    with Suc.prems have "s' = s" by (cases s) simp
    then show ?thesis using True by (intro exI [of _ 0]) simp
  next
    case False
    obtain p1 s1 where one: "metrics_phase ext p s = (p1, s1)" by (cases "metrics_phase ext p s") blast
    with Suc.prems have "run_metrics ext n (p1, s1) = (Flushed, s')" by simp
    from Suc.IH [OF this] obtain k where
      "k \<le> n" "run_task ext k (Some (Flushing_Metrics p1), s1) = (Some (Flushing_Metrics Flushed), s')" by blast
    then show ?thesis using False one by (intro exI [of _ "Suc k"]) simp
  qed
qed simp

text \<open>Eight steps for each kind and two to change over.\<close>

lemma run_task_flush:
  assumes "18 \<le> n"
  shows "run_task ext n (Some (Flushing_Events AtGate), s) = (None, drop_permit (do_flush ext s))"
proof -
  obtain j where j: "j \<le> 8" "run_task ext j (Some (Flushing_Events AtGate), s) = (Some (Flushing_Events Flushed), flush_events ext s)"
    using task_flushes_events [OF run_events_eight] by blast
  obtain k where k: "k \<le> 8" "run_task ext k (Some (Flushing_Metrics AtGate), flush_events ext s) =
      (Some (Flushing_Metrics Flushed), do_flush ext s)"
    using task_flushes_metrics [OF run_metrics_eight, of ext "flush_events ext s"] unfolding do_flush_def by blast
  have "run_task ext (j + (Suc (k + 1))) (Some (Flushing_Events AtGate), s) = (None, drop_permit (do_flush ext s))"
    by (simp only: run_task_add j(2) k(2) run_task.simps task_step.simps simp_thms if_True One_nat_def)
  then show ?thesis by (rule run_task_enough) (use assms j(1) k(1) in simp)
qed

lemma run_task_check:
  assumes "19 \<le> n"
  shows "run_task ext n (Some Checking, s) = (None, drop_permit (flush_if_needed ext s))"
proof -
  obtain m where n: "n = Suc m" "18 \<le> m" using assms by (cases n) auto
  show ?thesis using run_task_flush [OF n(2), of ext s] by (cases s) (simp add: n(1) flush_if_needed_def)
qed

text \<open>Left alone, the three triggers are the operations of the agent that start a flush.\<close>

lemma with_permit_steps: "try_acquire s = Some s' \<Longrightarrow> with_permit f s = drop_permit (f s')"
  by (cases s) (auto simp: try_acquire_def with_permit_def drop_permit_def Let_def split: if_splits)

lemma run_trigger_alone:
  "18 \<le> m \<Longrightarrow> 0 < flush_permits (fst s) \<Longrightarrow> run_task ext (Suc m) (Some Awaiting, s) = (None, flush_buffer ext id s)"
  "19 \<le> m \<Longrightarrow> run_task ext (Suc m) (Some Spawned, s) =
     (None, if flush_permits (fst s) = 0 then s else with_permit (flush_if_needed ext) s)"
  "19 \<le> m \<Longrightarrow> run_task ext (Suc (Suc m)) (Some Loop_Tick, s) =
     (None, if running (fst s) \<and> flush_permits (fst s) \<noteq> 0 then with_permit (flush_if_needed ext) s else s)"
proof -
  have free: "\<exists>s'. try_acquire s = Some s'" if "flush_permits (fst s) \<noteq> 0"
    using that by (cases s) (simp add: try_acquire_def)
  have none: "try_acquire s = None" if "flush_permits (fst s) = 0" using that by (cases s) (simp add: try_acquire_def)
  show "run_task ext (Suc m) (Some Awaiting, s) = (None, flush_buffer ext id s)" if "18 \<le> m" "0 < flush_permits (fst s)"
    using that free with_permit_steps [of s _ "do_flush ext"] by (auto simp: run_task_flush flush_buffer_def)
  have gated: "run_task ext (Suc m) (Some t, s) =
      (None, if flush_permits (fst s) = 0 then s else with_permit (flush_if_needed ext) s)"
    if "19 \<le> m" "t \<in> {Spawned, Loop_Gate}" for t
    using that free none with_permit_steps [of s _ "flush_if_needed ext"]
    by (cases "flush_permits (fst s) = 0") (auto simp: run_task_check)
  show "run_task ext (Suc m) (Some Spawned, s) =
      (None, if flush_permits (fst s) = 0 then s else with_permit (flush_if_needed ext) s)" if "19 \<le> m"
    by (rule gated [OF that]) simp
  have tick: "run_task ext (Suc (Suc m)) (Some Loop_Tick, s) = run_task ext (Suc m) (if running (fst s) then Some Loop_Gate else None, s)"
    by simp
  show "run_task ext (Suc (Suc m)) (Some Loop_Tick, s) =
      (None, if running (fst s) \<and> flush_permits (fst s) \<noteq> 0 then with_permit (flush_if_needed ext) s else s)" if "19 \<le> m"
    using gated [OF that, of Loop_Gate] unfolding tick by (cases "running (fst s)") simp_all
qed

section \<open>What a flush in progress holds\<close>

fun holding :: "'a flush_phase \<Rightarrow> 'a list multiset" where
  "holding (Stamping xs ks) = {#xs#}"
| "holding (Sending xs ks) = {#xs#}"
| "holding (Requeueing err xs ks) = {#xs#}"
| "holding _ = {#}"

text \<open>A batch carries one key per item.\<close>

fun keyed :: "'a flush_phase \<Rightarrow> bool" where
  "keyed (Stamping xs ks) = (length ks = length xs)"
| "keyed (Sending xs ks) = (length ks = length xs)"
| "keyed (Requeueing err xs ks) = (length ks = length xs)"
| "keyed _ = True"

fun events_held :: "task \<Rightarrow> SecurityEvent list multiset" where
  "events_held (Flushing_Events p) = holding p"
| "events_held _ = {#}"

fun metrics_held :: "task \<Rightarrow> SecurityMetric list multiset" where
  "metrics_held (Flushing_Metrics p) = holding p"
| "metrics_held _ = {#}"

fun task_keyed :: "task \<Rightarrow> bool" where
  "task_keyed (Flushing_Events p) = keyed p"
| "task_keyed (Flushing_Metrics p) = keyed p"
| "task_keyed _ = True"

lemma size_holding: "size (holding p) \<le> 1"
  by (cases p) auto

text \<open>Only a task with a permit holds a batch, and it holds one at most of each kind.\<close>

definition permits_held :: "task list \<Rightarrow> nat" where
  "permits_held ts = length (filter holds_permit ts)"

lemma permits_held_simps [simp]:
  "permits_held [] = 0" "permits_held (t # ts) = (if holds_permit t then 1 else 0) + permits_held ts"
  "permits_held (ts @ us) = permits_held ts + permits_held us"
  by (simp_all add: permits_held_def)

lemma size_held: "size (events_held t) \<le> (if holds_permit t then 1 else 0)" "size (metrics_held t) \<le> (if holds_permit t then 1 else 0)"
  by (cases t; simp add: size_holding [simplified])+

lemma size_all_held:
  "size (\<Sum>t\<leftarrow>ts. events_held t) \<le> permits_held ts" "size (\<Sum>t\<leftarrow>ts. metrics_held t) \<le> permits_held ts"
proof (induction ts)
  case (Cons t ts)
  then show "size (\<Sum>t\<leftarrow>t # ts. events_held t) \<le> permits_held (t # ts)" "size (\<Sum>t\<leftarrow>t # ts. metrics_held t) \<le> permits_held (t # ts)"
    using size_held [of t] by (simp_all split: if_splits)
qed simp_all

text \<open>One step of a flush, seen from its kind: nothing, the buffer drained into the batch, or the batch
  returned in front of the buffer.\<close>

definition flush_effect ::
  "nat \<Rightarrow> 'a list \<times> u64 \<times> 'a list multiset \<Rightarrow> 'a list \<times> u64 \<times> 'a list multiset \<Rightarrow> bool" where
  "flush_effect cap before after \<longleftrightarrow>
     (let (b, d, h) = before; (b', d', h') = after
      in b' = b \<and> d' = d \<and> h' = h \<or>
         h = {#} \<and> b \<noteq> [] \<and> b' = [] \<and> h' = {#b#} \<and> d' = d \<or>
         (\<exists>xs. h = {#xs#} \<and> h' = {#} \<and> b' = take cap (xs @ b) \<and> d' = d + of_nat (length (drop cap (xs @ b)))))"

locale flush_machine = telemetry_kind +
  fixes phase :: "externals \<Rightarrow> 'a flush_phase \<Rightarrow> 'b astate \<Rightarrow> 'a flush_phase \<times> 'b astate"
  assumes phase_quiet: "phase ext p (sh, w) = (p', (sh', w')) \<Longrightarrow> p \<noteq> Draining \<Longrightarrow> (\<And>err xs ks. p \<noteq> Requeueing err xs ks) \<Longrightarrow>
      (\<And>xs ks. p \<noteq> Sending xs ks) \<Longrightarrow>
      k_buf K (core sh') = k_buf K (core sh) \<and> k_dropped K (core sh') = k_dropped K (core sh) \<and> holding p' = holding p \<and>
      (keyed p \<longrightarrow> keyed p')"
    and phase_drain: "phase ext Draining (sh, w) = (p', (sh', w')) \<Longrightarrow>
      k_buf K (core sh') = [] \<and> k_dropped K (core sh') = k_dropped K (core sh) \<and>
      p' = (if k_buf K (core sh) = [] then Flushed else Stamping (map item (k_buf K (core sh))) (map redis_key (k_buf K (core sh))))"
    and phase_requeue: "phase ext (Requeueing err xs ks) (sh, w) = (p', (sh', w')) \<Longrightarrow> \<exists>ev.
      requeue (k_buf K (core sh)) (buffer_size (config sh)) xs ks (k_dropped K (core sh)) =
        (k_buf K (core sh'), k_dropped K (core sh'), ev) \<and> p' = Penalizing err (length xs) ev"
begin

lemma phase_effect:
  assumes "phase ext p (sh, w) = (p', (sh', w'))" "\<And>xs ks. p \<noteq> Sending xs ks" "keyed p"
    and "0 < buffer_size (config sh)" "length (k_buf K (core sh)) \<le> buffer_size (config sh)"
  shows "keyed p' \<and> flush_effect (buffer_size (config sh))
      (map item (k_buf K (core sh)), k_dropped K (core sh), holding p)
      (map item (k_buf K (core sh')), k_dropped K (core sh'), holding p')"
proof -
  consider (drain) "p = Draining" | (requeue) err xs ks where "p = Requeueing err xs ks"
    | (quiet) "p \<noteq> Draining" "\<And>err xs ks. p \<noteq> Requeueing err xs ks" by blast
  then show ?thesis
  proof cases
    case drain
    with phase_drain [OF assms(1) [unfolded drain]] show ?thesis by (auto simp: flush_effect_def)
  next
    case (requeue err xs ks)
    define all where "all = map buffered (zip xs ks) @ k_buf K (core sh)"
    have "map item (map buffered (zip xs ks)) = map fst (zip xs ks)" by (simp add: buffered_def)
    also have "\<dots> = xs" using assms(3) requeue by simp
    finally have items: "map item all = xs @ map item (k_buf K (core sh))" by (simp add: all_def)
    obtain ev where ev: "requeue (k_buf K (core sh)) (buffer_size (config sh)) xs ks (k_dropped K (core sh)) =
        (k_buf K (core sh'), k_dropped K (core sh'), ev)" "p' = Penalizing err (length xs) ev"
      using phase_requeue [OF assms(1) [unfolded requeue]] by blast
    have "k_buf K (core sh') = take (buffer_size (config sh)) all \<and>
        k_dropped K (core sh') = k_dropped K (core sh) + of_nat (length (drop (buffer_size (config sh)) all))"
      using ev(1) unfolding requeue_spec [OF assms(4,5), of xs ks "k_dropped K (core sh)"] all_def [symmetric] Let_def by simp
    moreover have "length (drop (buffer_size (config sh)) all) = length (drop (buffer_size (config sh)) (map item all))" by simp
    ultimately show ?thesis using ev(2) items requeue
      by (simp add: flush_effect_def take_map [symmetric] drop_map [symmetric] del: take_append drop_append length_drop)
  next
    case quiet
    with phase_quiet [OF assms(1) quiet assms(2)] assms(3) show ?thesis by (simp add: flush_effect_def)
  qed
qed

end

text \<open>The frames of the steps.\<close>

lemma events_phase_frame:
  assumes "events_phase ext p (sh, w) = (p', (sh', w'))"
  shows "config sh' = config sh \<and> flush_permits sh' = flush_permits sh \<and>
    metrics (core sh') = metrics (core sh) \<and> metrics_dropped (core sh') = metrics_dropped (core sh)"
  using assms
  by (cases p) (auto simp: drain_events_def requeue_events_def fail_events_def accept_events_def core_set_last_flush_def
      bump_flush_failures_def Let_def split: prod.splits)

lemma metrics_phase_frame:
  assumes "metrics_phase ext p (sh, w) = (p', (sh', w'))"
  shows "config sh' = config sh \<and> flush_permits sh' = flush_permits sh \<and>
    events (core sh') = events (core sh) \<and> events_dropped (core sh') = events_dropped (core sh)"
  using assms
  by (cases p) (auto simp: drain_metrics_def requeue_metrics_def fail_metrics_def accept_metrics_def core_set_last_flush_def
      bump_flush_failures_def Let_def split: prod.splits)

interpretation em: flush_machine event_ops events_phase
proof unfold_locales
  fix ext p sh w p' sh' w' and err :: GuardAgentError and xs :: "SecurityEvent list" and ks
  show "events_phase ext p (sh, w) = (p', (sh', w')) \<Longrightarrow> p \<noteq> Draining \<Longrightarrow> (\<And>err xs ks. p \<noteq> Requeueing err xs ks) \<Longrightarrow>
      (\<And>xs ks. p \<noteq> Sending xs ks) \<Longrightarrow>
      k_buf event_ops (core sh') = k_buf event_ops (core sh) \<and> k_dropped event_ops (core sh') = k_dropped event_ops (core sh) \<and>
      holding p' = holding p \<and> (keyed p \<longrightarrow> keyed p')"
    by (cases p) (auto simp: event_ops_def fail_events_def accept_events_def core_set_last_flush_def bump_flush_failures_def Let_def
        split: if_splits)
  show "events_phase ext Draining (sh, w) = (p', (sh', w')) \<Longrightarrow>
      k_buf event_ops (core sh') = [] \<and> k_dropped event_ops (core sh') = k_dropped event_ops (core sh) \<and>
      p' = (if k_buf event_ops (core sh) = [] then Flushed
            else Stamping (map item (k_buf event_ops (core sh))) (map redis_key (k_buf event_ops (core sh))))"
    by (auto simp: event_ops_def drain_events_def drain_def Let_def)
  show "events_phase ext (Requeueing err xs ks) (sh, w) = (p', (sh', w')) \<Longrightarrow> \<exists>ev.
      requeue (k_buf event_ops (core sh)) (buffer_size (config sh)) xs ks (k_dropped event_ops (core sh)) =
        (k_buf event_ops (core sh'), k_dropped event_ops (core sh'), ev) \<and> p' = Penalizing err (length xs) ev"
    by (auto simp: event_ops_def requeue_events_def Let_def split: prod.splits)
qed

interpretation mm: flush_machine metric_ops metrics_phase
proof unfold_locales
  fix ext p sh w p' sh' w' and err :: GuardAgentError and xs :: "SecurityMetric list" and ks
  show "metrics_phase ext p (sh, w) = (p', (sh', w')) \<Longrightarrow> p \<noteq> Draining \<Longrightarrow> (\<And>err xs ks. p \<noteq> Requeueing err xs ks) \<Longrightarrow>
      (\<And>xs ks. p \<noteq> Sending xs ks) \<Longrightarrow>
      k_buf metric_ops (core sh') = k_buf metric_ops (core sh) \<and> k_dropped metric_ops (core sh') = k_dropped metric_ops (core sh) \<and>
      holding p' = holding p \<and> (keyed p \<longrightarrow> keyed p')"
    by (cases p) (auto simp: metric_ops_def fail_metrics_def accept_metrics_def core_set_last_flush_def bump_flush_failures_def Let_def
        split: if_splits)
  show "metrics_phase ext Draining (sh, w) = (p', (sh', w')) \<Longrightarrow>
      k_buf metric_ops (core sh') = [] \<and> k_dropped metric_ops (core sh') = k_dropped metric_ops (core sh) \<and>
      p' = (if k_buf metric_ops (core sh) = [] then Flushed
            else Stamping (map item (k_buf metric_ops (core sh))) (map redis_key (k_buf metric_ops (core sh))))"
    by (auto simp: metric_ops_def drain_metrics_def drain_def Let_def)
  show "metrics_phase ext (Requeueing err xs ks) (sh, w) = (p', (sh', w')) \<Longrightarrow> \<exists>ev.
      requeue (k_buf metric_ops (core sh)) (buffer_size (config sh)) xs ks (k_dropped metric_ops (core sh)) =
        (k_buf metric_ops (core sh'), k_dropped metric_ops (core sh'), ev) \<and> p' = Penalizing err (length xs) ev"
    by (auto simp: metric_ops_def requeue_metrics_def Let_def split: prod.splits)
qed

lemmas events_phase_effect = em.phase_effect [unfolded event_ops_def kind_ops.simps]
lemmas metrics_phase_effect = mm.phase_effect [unfolded metric_ops_def kind_ops.simps]

section \<open>The system seen from one kind\<close>

text \<open>A delivery with its drop counter: the counter goes up by what is lost. A move is a step of the
  abstract delivery or none.\<close>

definition moves :: "nat \<Rightarrow> nat \<Rightarrow> 'a delivery \<times> u64 \<Rightarrow> 'a delivery \<times> u64 \<Rightarrow> bool" where
  "moves cap permits V V' \<longleftrightarrow>
     (\<forall>l. \<exists>l'. (fst V\<lparr>lost := l\<rparr> = fst V'\<lparr>lost := l'\<rparr> \<or>
                delivery_step cap permits (fst V\<lparr>lost := l\<rparr>) (fst V'\<lparr>lost := l'\<rparr>)) \<and>
              snd V' + of_nat (size l) = snd V + of_nat (size l'))"

lemma moves_refl: "moves cap permits V V"
  by (auto simp: moves_def)

lemma moves_hand:
  "length (waiting D) < cap \<Longrightarrow>
   moves cap permits (D, d) (D\<lparr>waiting := waiting D @ [x], handed := handed D @ [x]\<rparr>, d)"
  unfolding moves_def
proof (intro allI exI conjI disjI2)
  fix l
  assume "length (waiting D) < cap"
  then show "delivery_step cap permits (fst (D, d)\<lparr>lost := l\<rparr>)
      (fst (D\<lparr>waiting := waiting D @ [x], handed := handed D @ [x]\<rparr>, d)\<lparr>lost := l\<rparr>)"
    using delivery_step.hand [of "D\<lparr>lost := l\<rparr>" cap permits x] by (cases D) simp
qed simp

lemma moves_overflow: "waiting D = x # rest \<Longrightarrow> moves cap permits (D, d) (D\<lparr>waiting := rest\<rparr>, d + 1)"
  unfolding moves_def
proof (intro allI exI conjI disjI2)
  fix l
  assume "waiting D = x # rest"
  then show "delivery_step cap permits (fst (D, d)\<lparr>lost := l\<rparr>)
      (fst (D\<lparr>waiting := rest\<rparr>, d + 1)\<lparr>lost := add_mset x l\<rparr>)"
    using delivery_step.overflow [of "D\<lparr>lost := l\<rparr>" x rest cap permits] by (cases D) simp
qed simp

lemma moves_take:
  "waiting D \<noteq> [] \<Longrightarrow> size (flying D) < permits \<Longrightarrow>
   moves cap permits (D, d) (D\<lparr>waiting := [], flying := add_mset (waiting D) (flying D)\<rparr>, d)"
  unfolding moves_def
proof (intro allI exI conjI disjI2)
  fix l
  assume "waiting D \<noteq> []" "size (flying D) < permits"
  then show "delivery_step cap permits (fst (D, d)\<lparr>lost := l\<rparr>)
      (fst (D\<lparr>waiting := [], flying := add_mset (waiting D) (flying D)\<rparr>, d)\<lparr>lost := l\<rparr>)"
    using delivery_step.take [of "D\<lparr>lost := l\<rparr>" permits cap] by (cases D) simp
qed simp

lemma moves_settle:
  "flying D = add_mset xs others \<Longrightarrow>
   moves cap permits (D, d) (D\<lparr>flying := others, settled_items := settled_items D @ xs\<rparr>, d)"
  unfolding moves_def
proof (intro allI exI conjI disjI2)
  fix l
  assume "flying D = add_mset xs others"
  then show "delivery_step cap permits (fst (D, d)\<lparr>lost := l\<rparr>)
      (fst (D\<lparr>flying := others, settled_items := settled_items D @ xs\<rparr>, d)\<lparr>lost := l\<rparr>)"
    using delivery_step.settle [of "D\<lparr>lost := l\<rparr>" xs others cap permits] by (cases D) simp
qed simp

lemma moves_return:
  "flying D = add_mset xs others \<Longrightarrow>
   moves cap permits (D, d)
     (D\<lparr>flying := others, waiting := take cap (xs @ waiting D)\<rparr>, d + of_nat (length (drop cap (xs @ waiting D))))"
  unfolding moves_def
proof (intro allI exI conjI disjI2)
  fix l
  assume "flying D = add_mset xs others"
  then show "delivery_step cap permits (fst (D, d)\<lparr>lost := l\<rparr>)
      (fst (D\<lparr>flying := others, waiting := take cap (xs @ waiting D)\<rparr>, d + of_nat (length (drop cap (xs @ waiting D))))
        \<lparr>lost := mset (drop cap (xs @ waiting D)) + l\<rparr>)"
    using delivery_step.return [of "D\<lparr>lost := l\<rparr>" xs others cap permits] by (cases D) simp
qed (simp del: length_drop drop_append)

lemma moves_run:
  assumes "moves cap permits V V'"
    and "delivery_run cap permits xs (fst V\<lparr>lost := l\<rparr>)" "snd V = d0 + of_nat (size l)"
  shows "\<exists>l'. delivery_run cap permits xs (fst V'\<lparr>lost := l'\<rparr>) \<and> snd V' = d0 + of_nat (size l')"
proof -
  obtain l' where l': "fst V\<lparr>lost := l\<rparr> = fst V'\<lparr>lost := l'\<rparr> \<or> delivery_step cap permits (fst V\<lparr>lost := l\<rparr>) (fst V'\<lparr>lost := l'\<rparr>)"
      "snd V' + of_nat (size l) = snd V + of_nat (size l')"
    using assms(1) unfolding moves_def by blast
  from l'(1) have "delivery_run cap permits xs (fst V'\<lparr>lost := l'\<rparr>)"
  proof
    assume "fst V\<lparr>lost := l\<rparr> = fst V'\<lparr>lost := l'\<rparr>"
    with assms(2) show ?thesis by (simp only:)
  qed (rule delivery_run.step [OF assms(2)])
  moreover have "snd V' + of_nat (size l) = (d0 + of_nat (size l')) + of_nat (size l)"
    using l'(2) by (simp only: assms(3) ac_simps)
  then have "snd V' = d0 + of_nat (size l')" by (simp only: add_right_cancel)
  ultimately show ?thesis by blast
qed

text \<open>The step of a flush is a move, when there is a permit left for the batch it may take.\<close>

lemma moves_flush:
  assumes "flush_effect cap (waiting D, d, h) (b', d', h')" "flying D = h + others" "h = {#} \<Longrightarrow> size others < permits"
  shows "moves cap permits (D, d) (D\<lparr>waiting := b', flying := h' + others\<rparr>, d')"
proof -
  consider (none) "b' = waiting D" "d' = d" "h' = h"
    | (drain) "h = {#}" "waiting D \<noteq> []" "b' = []" "h' = {#waiting D#}" "d' = d"
    | (returned) xs where "h = {#xs#}" "h' = {#}" "b' = take cap (xs @ waiting D)" "d' = d + of_nat (length (drop cap (xs @ waiting D)))"
    using assms(1) unfolding flush_effect_def Let_def case_prod_conv by blast
  then show ?thesis
  proof cases
    case none
    then have "D\<lparr>waiting := b', flying := h' + others\<rparr> = D" using assms(2) by simp
    then show ?thesis using none moves_refl by metis
  next
    case drain
    then show ?thesis using moves_take [of D permits cap d] assms(2,3) by simp
  next
    case (returned xs)
    have "flying D = add_mset xs others" using assms(2) returned by simp
    from moves_return [OF this, of cap permits d] show ?thesis unfolding returned by (cases D) (simp add: returned)
  qed
qed

definition events_view :: "'st system \<Rightarrow> SecurityEvent delivery \<times> u64" where
  "events_view S =
     (\<lparr> waiting = map item (events (core (fst (agent S)))), flying = (\<Sum>t\<leftarrow>tasks S. events_held t),
        handed = handed_events S, settled_items = settled_events S, lost = {#} \<rparr>,
      events_dropped (core (fst (agent S))))"

definition metrics_view :: "'st system \<Rightarrow> SecurityMetric delivery \<times> u64" where
  "metrics_view S =
     (\<lparr> waiting = map item (metrics (core (fst (agent S)))), flying = (\<Sum>t\<leftarrow>tasks S. metrics_held t),
        handed = handed_metrics S, settled_items = settled_metrics S, lost = {#} \<rparr>,
      metrics_dropped (core (fst (agent S))))"

end
