(* ===== verification/Flush_System.thy ===== *)
theory Flush_System
  imports Flush_Concurrency Agent_Safety
begin

text \<open>
  Every step of the system is a move of the abstract delivery of events and of the abstract delivery of
  metrics, with the permits conserved; so every run is one of both deliveries.
\<close>

definition system_ok :: "nat \<Rightarrow> nat \<Rightarrow> 'st system \<Rightarrow> bool" where
  "system_ok cap permits S \<longleftrightarrow> buffer_size (config (fst (agent S))) = cap \<and>
     flush_permits (fst (agent S)) + permits_held (tasks S) = permits \<and> list_all task_keyed (tasks S)"

definition both_move :: "nat \<Rightarrow> nat \<Rightarrow> 'st system \<Rightarrow> 'st system \<Rightarrow> bool" where
  "both_move cap permits S S' \<longleftrightarrow> system_ok cap permits S' \<and>
     moves cap permits (events_view S) (events_view S') \<and> moves cap permits (metrics_view S) (metrics_view S')"

text \<open>The state a step may rely on: it follows from the bounds of the deliveries.\<close>

definition bounded :: "nat \<Rightarrow> nat \<Rightarrow> 'st system \<Rightarrow> bool" where
  "bounded cap permits S \<longleftrightarrow> system_ok cap permits S \<and> 0 < cap \<and>
     length (events (core (fst (agent S)))) \<le> cap \<and> length (metrics (core (fst (agent S)))) \<le> cap"

lemma bounded_agent:
  assumes "bounded cap permits S" "agent S = (sh, w)"
  shows "buffer_size (config sh) = cap" "0 < buffer_size (config sh)"
    "length (events (core sh)) \<le> buffer_size (config sh)" "length (metrics (core sh)) \<le> buffer_size (config sh)"
    "flush_permits sh + permits_held (tasks S) = permits" "list_all task_keyed (tasks S)"
  using assms by (simp_all add: bounded_def system_ok_def)

lemmas event_pass_cases = ev.pass_cases [unfolded event_ops_def kind_ops.simps]
lemmas metric_pass_cases = mt.pass_cases [unfolded metric_ops_def kind_ops.simps]
lemmas view_defs = both_move_def system_ok_def events_view_def metrics_view_def

lemma quiet_moves:
  assumes "bounded cap permits S" "same_buffers (fst (agent S)) (fst s')"
  shows "both_move cap permits S (S\<lparr>agent := s'\<rparr>)"
proof -
  have "events_view (S\<lparr>agent := s'\<rparr>) = events_view S" "metrics_view (S\<lparr>agent := s'\<rparr>) = metrics_view S"
    using assms(2) by (simp_all add: events_view_def metrics_view_def same_buffers_def)
  moreover have "system_ok cap permits (S\<lparr>agent := s'\<rparr>)"
    using assms by (simp add: bounded_def system_ok_def same_buffers_def)
  ultimately show ?thesis by (simp add: both_move_def moves_refl)
qed

lemma event_in_moves:
  assumes b: "bounded cap permits S" and p: "enqueue_event_pass ext e (agent S) = EnqDone (Inr ()) s'"
  shows "both_move cap permits S (S\<lparr>agent := s', handed_events := handed_events S @ [e]\<rparr>)"
proof -
  obtain sh w sh' w' where s: "agent S = (sh, w)" and s': "s' = (sh', w')" by (metis prod.exhaust)
  note ok = bounded_agent [OF b s]
  obtain key where f: "same_agent sh sh'" "length (events (core sh)) < buffer_size (config sh)"
      "events (core sh') = events (core sh) @ [buffered (e, key)]" "events_dropped (core sh') = events_dropped (core sh)"
    using event_pass_cases(1) [OF ok(2,3) p [unfolded s s']] by blast
  have m: "same_metrics (core sh) (core sh')" using event_pass_isolated(1) p unfolding s s' by blast
  have "moves cap permits (events_view S) (events_view (S\<lparr>agent := s', handed_events := handed_events S @ [e]\<rparr>))"
    using moves_hand [of "fst (events_view S)" cap permits "snd (events_view S)" e] f ok(1) s s'
    by (simp add: events_view_def buffered_def)
  moreover have "metrics_view (S\<lparr>agent := s', handed_events := handed_events S @ [e]\<rparr>) = metrics_view S"
    using m s s' by (simp add: metrics_view_def same_metrics_def)
  ultimately show ?thesis using ok f(1) s s' by (simp add: both_move_def system_ok_def moves_refl same_agent_def)
qed

lemma metric_in_moves:
  assumes b: "bounded cap permits S" and p: "enqueue_metric_pass ext m (agent S) = EnqDone (Inr ()) s'"
  shows "both_move cap permits S (S\<lparr>agent := s', handed_metrics := handed_metrics S @ [m]\<rparr>)"
proof -
  obtain sh w sh' w' where s: "agent S = (sh, w)" and s': "s' = (sh', w')" by (metis prod.exhaust)
  note ok = bounded_agent [OF b s]
  obtain key where f: "same_agent sh sh'" "length (metrics (core sh)) < buffer_size (config sh)"
      "metrics (core sh') = metrics (core sh) @ [buffered (m, key)]" "metrics_dropped (core sh') = metrics_dropped (core sh)"
    using metric_pass_cases(1) [OF ok(2,4) p [unfolded s s']] by blast
  have e: "same_events (core sh) (core sh')" using metric_pass_isolated(1) p unfolding s s' by blast
  have "moves cap permits (metrics_view S) (metrics_view (S\<lparr>agent := s', handed_metrics := handed_metrics S @ [m]\<rparr>))"
    using moves_hand [of "fst (metrics_view S)" cap permits "snd (metrics_view S)" m] f ok(1) s s'
    by (simp add: metrics_view_def buffered_def)
  moreover have "events_view (S\<lparr>agent := s', handed_metrics := handed_metrics S @ [m]\<rparr>) = events_view S"
    using e s s' by (simp add: events_view_def same_events_def)
  ultimately show ?thesis using ok f(1) s s' by (simp add: both_move_def system_ok_def moves_refl same_agent_def)
qed

lemma event_out_moves:
  assumes b: "bounded cap permits S" and p: "enqueue_event_pass ext e (agent S) = EnqRetry s'"
  shows "both_move cap permits S (S\<lparr>agent := s'\<rparr>)"
proof -
  obtain sh w sh' w' where s: "agent S = (sh, w)" and s': "s' = (sh', w')" by (metis prod.exhaust)
  note ok = bounded_agent [OF b s]
  obtain old where f: "same_agent sh sh'" "events (core sh) = old # events (core sh')"
      "events_dropped (core sh') = events_dropped (core sh) + 1"
    using event_pass_cases(2) [OF ok(2,3) p [unfolded s s']] by blast
  have m: "same_metrics (core sh) (core sh')" using event_pass_isolated(1) p unfolding s s' by blast
  have "moves cap permits (events_view S) (events_view (S\<lparr>agent := s'\<rparr>))"
    using moves_overflow [of "fst (events_view S)" "item old" "map item (events (core sh'))" cap permits "snd (events_view S)"] f s s'
    by (simp add: events_view_def)
  moreover have "metrics_view (S\<lparr>agent := s'\<rparr>) = metrics_view S" using m s s' by (simp add: metrics_view_def same_metrics_def)
  ultimately show ?thesis using ok f(1) s s' by (simp add: both_move_def system_ok_def moves_refl same_agent_def)
qed

lemma metric_out_moves:
  assumes b: "bounded cap permits S" and p: "enqueue_metric_pass ext m (agent S) = EnqRetry s'"
  shows "both_move cap permits S (S\<lparr>agent := s'\<rparr>)"
proof -
  obtain sh w sh' w' where s: "agent S = (sh, w)" and s': "s' = (sh', w')" by (metis prod.exhaust)
  note ok = bounded_agent [OF b s]
  obtain old where f: "same_agent sh sh'" "metrics (core sh) = old # metrics (core sh')"
      "metrics_dropped (core sh') = metrics_dropped (core sh) + 1"
    using metric_pass_cases(2) [OF ok(2,4) p [unfolded s s']] by blast
  have e: "same_events (core sh) (core sh')" using metric_pass_isolated(1) p unfolding s s' by blast
  have "moves cap permits (metrics_view S) (metrics_view (S\<lparr>agent := s'\<rparr>))"
    using moves_overflow [of "fst (metrics_view S)" "item old" "map item (metrics (core sh'))" cap permits "snd (metrics_view S)"] f s s'
    by (simp add: metrics_view_def)
  moreover have "events_view (S\<lparr>agent := s'\<rparr>) = events_view S" using e s s' by (simp add: events_view_def same_events_def)
  ultimately show ?thesis using ok f(1) s s' by (simp add: both_move_def system_ok_def moves_refl same_agent_def)
qed

section \<open>Steps of tasks\<close>

lemma held_split:
  "(\<Sum>t\<leftarrow>before @ t # after. events_held t) = events_held t + (\<Sum>t\<leftarrow>before @ after. events_held t)"
  "(\<Sum>t\<leftarrow>before @ t # after. metrics_held t) = metrics_held t + (\<Sum>t\<leftarrow>before @ after. metrics_held t)"
  by (simp_all add: ac_simps)

text \<open>The other tasks hold fewer batches than there are permits.\<close>

lemma others_hold:
  assumes "bounded cap permits S" "tasks S = before @ t # after" "holds_permit t"
  shows "size (\<Sum>t\<leftarrow>before @ after. events_held t) < permits" "size (\<Sum>t\<leftarrow>before @ after. metrics_held t) < permits"
proof -
  have "permits_held (before @ after) < permits" using assms by (simp add: bounded_def system_ok_def)
  then show "size (\<Sum>t\<leftarrow>before @ after. events_held t) < permits" "size (\<Sum>t\<leftarrow>before @ after. metrics_held t) < permits"
    using size_all_held [of "before @ after"] by linarith+
qed

lemma event_flush_moves:
  assumes b: "bounded cap permits S" and t: "tasks S = before @ Flushing_Events p # after" "\<And>xs ks. p \<noteq> Sending xs ks"
    and e: "events_phase ext p (agent S) = (p', s')"
  shows "both_move cap permits S (S\<lparr>agent := s', tasks := before @ Flushing_Events p' # after\<rparr>)"
proof -
  let ?S = "S\<lparr>agent := s', tasks := before @ Flushing_Events p' # after\<rparr>"
  obtain sh w sh' w' where s: "agent S = (sh, w)" and s': "s' = (sh', w')" by (metis prod.exhaust)
  note ok = bounded_agent [OF b s]
  have k: "keyed p" using ok(6) t(1) by simp
  note eff = events_phase_effect [OF e [unfolded s s'] t(2) k ok(2,3)]
  note fr = events_phase_frame [OF e [unfolded s s']]
  have held: "flying (fst (events_view S)) = holding p + (\<Sum>t\<leftarrow>before @ after. events_held t)"
    "flying (fst (events_view ?S)) = holding p' + (\<Sum>t\<leftarrow>before @ after. events_held t)"
    by (simp_all only: events_view_def t(1) held_split) (simp_all add: held_split ac_simps)
  have "moves cap permits (fst (events_view S), snd (events_view S))
      (fst (events_view S)\<lparr>waiting := map item (events (core sh')), flying := holding p' + (\<Sum>t\<leftarrow>before @ after. events_held t)\<rparr>,
       events_dropped (core sh'))"
  proof (rule moves_flush [OF _ held(1)])
    show "flush_effect cap (waiting (fst (events_view S)), snd (events_view S), holding p)
        (map item (events (core sh')), events_dropped (core sh'), holding p')"
      using eff ok(1) by (simp add: events_view_def s)
  qed (rule others_hold(1) [OF b t(1)], simp)
  moreover have "(fst (events_view S)\<lparr>waiting := map item (events (core sh')), flying := holding p' + (\<Sum>t\<leftarrow>before @ after. events_held t)\<rparr>,
       events_dropped (core sh')) = events_view ?S"
    using held(2) by (simp add: events_view_def s')
  ultimately have "moves cap permits (events_view S) (events_view ?S)" by simp
  moreover have "metrics_view ?S = metrics_view S" using fr by (simp add: metrics_view_def s s' t(1))
  moreover have "system_ok cap permits ?S" using ok fr eff t(1) by (simp add: system_ok_def s')
  ultimately show ?thesis by (simp add: both_move_def moves_refl)
qed

lemma metric_flush_moves:
  assumes b: "bounded cap permits S" and t: "tasks S = before @ Flushing_Metrics p # after" "\<And>xs ks. p \<noteq> Sending xs ks"
    and e: "metrics_phase ext p (agent S) = (p', s')"
  shows "both_move cap permits S (S\<lparr>agent := s', tasks := before @ Flushing_Metrics p' # after\<rparr>)"
proof -
  let ?S = "S\<lparr>agent := s', tasks := before @ Flushing_Metrics p' # after\<rparr>"
  obtain sh w sh' w' where s: "agent S = (sh, w)" and s': "s' = (sh', w')" by (metis prod.exhaust)
  note ok = bounded_agent [OF b s]
  have k: "keyed p" using ok(6) t(1) by simp
  note eff = metrics_phase_effect [OF e [unfolded s s'] t(2) k ok(2,4)]
  note fr = metrics_phase_frame [OF e [unfolded s s']]
  have held: "flying (fst (metrics_view S)) = holding p + (\<Sum>t\<leftarrow>before @ after. metrics_held t)"
    "flying (fst (metrics_view ?S)) = holding p' + (\<Sum>t\<leftarrow>before @ after. metrics_held t)"
    by (simp_all only: metrics_view_def t(1) held_split) (simp_all add: held_split ac_simps)
  have "moves cap permits (fst (metrics_view S), snd (metrics_view S))
      (fst (metrics_view S)\<lparr>waiting := map item (metrics (core sh')), flying := holding p' + (\<Sum>t\<leftarrow>before @ after. metrics_held t)\<rparr>,
       metrics_dropped (core sh'))"
  proof (rule moves_flush [OF _ held(1)])
    show "flush_effect cap (waiting (fst (metrics_view S)), snd (metrics_view S), holding p)
        (map item (metrics (core sh')), metrics_dropped (core sh'), holding p')"
      using eff ok(1) by (simp add: metrics_view_def s)
  qed (rule others_hold(2) [OF b t(1)], simp)
  moreover have "(fst (metrics_view S)\<lparr>waiting := map item (metrics (core sh')), flying := holding p' + (\<Sum>t\<leftarrow>before @ after. metrics_held t)\<rparr>,
       metrics_dropped (core sh')) = metrics_view ?S"
    using held(2) by (simp add: metrics_view_def s')
  ultimately have "moves cap permits (metrics_view S) (metrics_view ?S)" by simp
  moreover have "events_view ?S = events_view S" using fr by (simp add: events_view_def s s' t(1))
  moreover have "system_ok cap permits ?S" using ok fr eff t(1) by (simp add: system_ok_def s')
  ultimately show ?thesis by (simp add: both_move_def moves_refl)
qed

text \<open>A step that changes neither buffers nor batches.\<close>

lemma idle_moves:
  assumes "bounded cap permits S" "system_ok cap permits S'" "events_view S' = events_view S" "metrics_view S' = metrics_view S"
  shows "both_move cap permits S S'"
  using assms by (simp add: both_move_def moves_refl)

text \<open>A step that takes a permit, or looks at a flag.\<close>

lemma try_acquire_facts:
  "try_acquire s = Some s' \<Longrightarrow> core (fst s') = core (fst s) \<and> config (fst s') = config (fst s) \<and>
     flush_permits (fst s) = Suc (flush_permits (fst s'))"
  by (cases s) (auto simp: try_acquire_def Let_def split: if_splits)

lemma drop_permit_facts [simp]:
  "core (fst (drop_permit s)) = core (fst s)" "config (fst (drop_permit s)) = config (fst s)"
  "flush_permits (fst (drop_permit s)) = Suc (flush_permits (fst s))"
  by (cases s; simp add: drop_permit_def)+

lemma advance_moves:
  assumes b: "bounded cap permits S" and t: "tasks S = before @ t # after" "\<not> sending t" "task_step ext t (agent S) = (Some t', s')"
  shows "both_move cap permits S (S\<lparr>agent := s', tasks := before @ t' # after\<rparr>)"
proof -
  obtain sh w where s: "agent S = (sh, w)" by (cases "agent S")
  note ok = bounded_agent [OF b s]
  note views = system_ok_def events_view_def metrics_view_def
  have idle: ?thesis if "core (fst s') = core sh" "config (fst s') = config sh" "events_held t' = events_held t" "metrics_held t' = metrics_held t"
      "task_keyed t'" "flush_permits (fst s') + permits_held [t'] = flush_permits sh + permits_held [t]"
    using that ok t(1) by (intro idle_moves [OF b]) (simp_all add: views s)
  have permit: ?thesis if "try_acquire (agent S) = Some s'" "\<not> holds_permit t" "holds_permit t'" "events_held t' = {#}" "metrics_held t' = {#}"
      "task_keyed t'" "events_held t = {#}" "metrics_held t = {#}"
    using try_acquire_facts [OF that(1)] that(2-8) by (intro idle) (simp_all add: s)
  show ?thesis
  proof (cases t)
    case Spawned
    then show ?thesis using t(3) by (intro permit) (auto split: option.splits)
  next
    case Loop_Tick
    then show ?thesis using t(3) by (intro idle) (auto simp: s split: if_splits)
  next
    case Loop_Gate
    then show ?thesis using t(3) by (intro permit) (auto split: option.splits)
  next
    case Awaiting
    then show ?thesis
    proof (cases "try_acquire (agent S)")
      case None
      then show ?thesis using t(3) Awaiting by (intro idle) (auto simp: s)
    next
      case (Some s1)
      then show ?thesis using t(3) Awaiting by (intro permit) auto
    qed
  next
    case Checking
    then show ?thesis using t(3) by (intro idle) (auto simp: s split: if_splits)
  next
    case (Flushing_Events p)
    show ?thesis
    proof (cases "p = Flushed")
      case True
      then show ?thesis using t(3) Flushing_Events by (intro idle) (auto simp: s)
    next
      case False
      then obtain p' where "events_phase ext p (agent S) = (p', s')" "t' = Flushing_Events p'"
        using t(3) Flushing_Events by (auto split: prod.splits)
      then show ?thesis using event_flush_moves [OF b t(1) [unfolded Flushing_Events]] t(2) Flushing_Events
        by (simp add: sending_def)
    qed
  next
    case (Flushing_Metrics p)
    then have "p \<noteq> Flushed" using t(3) by (auto split: if_splits)
    then obtain p' where "metrics_phase ext p (agent S) = (p', s')" "t' = Flushing_Metrics p'"
      using t(3) Flushing_Metrics by (auto split: prod.splits)
    then show ?thesis using metric_flush_moves [OF b t(1) [unfolded Flushing_Metrics]] t(2) Flushing_Metrics
      by (simp add: sending_def)
  qed
qed

lemma finish_moves:
  assumes b: "bounded cap permits S" and t: "tasks S = before @ t # after" "task_step ext t (agent S) = (None, s')"
  shows "both_move cap permits S (S\<lparr>agent := s', tasks := before @ after\<rparr>)"
proof -
  obtain sh w where s: "agent S = (sh, w)" by (cases "agent S")
  note ok = bounded_agent [OF b s]
  have "(if holds_permit t then s' = drop_permit (agent S) else s' = agent S) \<and> events_held t = {#} \<and> metrics_held t = {#}"
    using t(2) by (cases t) (auto simp: s split: if_splits prod.splits option.splits)
  then show ?thesis using ok t(1)
    by (intro idle_moves [OF b]) (auto simp: system_ok_def events_view_def metrics_view_def s split: if_splits)
qed

lemma trigger_moves:
  assumes b: "bounded cap permits S" and "t \<in> {Spawned, Loop_Tick, Awaiting}"
  shows "both_move cap permits S (S\<lparr>tasks := tasks S @ [t]\<rparr>)"
  using b assms(2) by (intro idle_moves [OF b]) (auto simp: bounded_def system_ok_def events_view_def metrics_view_def)

lemma after_send_holding:
  "is_confirmed outcome \<Longrightarrow> holding (after_send outcome xs ks) = {#} \<and> settled_by outcome xs = xs"
  "\<not> is_confirmed outcome \<Longrightarrow> holding (after_send outcome xs ks) = {#xs#} \<and> settled_by outcome xs = []"
  "keyed (after_send outcome xs ks) \<longleftrightarrow> is_confirmed outcome \<or> length ks = length xs"
  by (cases outcome; simp add: after_send_def settled_by_def)+

text \<open>The answer to a batch settles it or leaves it with its task.\<close>

lemma moves_answered:
  assumes "flying D = add_mset xs others"
  shows "moves cap permits (D, d)
    (D\<lparr>flying := holding (after_send outcome xs ks) + others, settled_items := settled_items D @ settled_by outcome xs\<rparr>, d)"
proof (cases "is_confirmed outcome")
  case True
  then show ?thesis using moves_settle [OF assms, of cap permits d] by (simp add: after_send_holding(1))
next
  case False
  then have "D\<lparr>flying := holding (after_send outcome xs ks) + others, settled_items := settled_items D @ settled_by outcome xs\<rparr> = D"
    using assms by (cases D) (simp add: after_send_holding(2))
  then show ?thesis by (metis moves_refl)
qed

lemma events_answered_moves:
  assumes b: "bounded cap permits S" and t: "tasks S = before @ Flushing_Events (Sending xs ks) # after" and s: "agent S = (sh, w)"
  shows "both_move cap permits S
    (S\<lparr>agent := (sh\<lparr>transport := tr\<rparr>, w'), tasks := before @ Flushing_Events (after_send outcome xs ks) # after,
       settled_events := settled_events S @ settled_by outcome xs\<rparr>)"
  (is "both_move _ _ _ ?S")
proof -
  note ok = bounded_agent [OF b s]
  have "flying (fst (events_view S)) = add_mset xs (\<Sum>t\<leftarrow>before @ after. events_held t)"
    by (simp only: events_view_def t held_split) (simp add: ac_simps)
  from moves_answered [OF this, of cap permits "snd (events_view S)" outcome ks]
  have "moves cap permits (events_view S) (events_view ?S)" by (simp add: events_view_def s t ac_simps)
  moreover have "metrics_view ?S = metrics_view S" by (simp add: metrics_view_def s t)
  moreover have "system_ok cap permits ?S" using ok t by (auto simp: system_ok_def after_send_holding(3))
  ultimately show ?thesis by (simp add: both_move_def moves_refl)
qed

lemma metrics_answered_moves:
  assumes b: "bounded cap permits S" and t: "tasks S = before @ Flushing_Metrics (Sending xs ks) # after" and s: "agent S = (sh, w)"
  shows "both_move cap permits S
    (S\<lparr>agent := (sh\<lparr>transport := tr\<rparr>, w'), tasks := before @ Flushing_Metrics (after_send outcome xs ks) # after,
       settled_metrics := settled_metrics S @ settled_by outcome xs\<rparr>)"
  (is "both_move _ _ _ ?S")
proof -
  note ok = bounded_agent [OF b s]
  have "flying (fst (metrics_view S)) = add_mset xs (\<Sum>t\<leftarrow>before @ after. metrics_held t)"
    by (simp only: metrics_view_def t held_split) (simp add: ac_simps)
  from moves_answered [OF this, of cap permits "snd (metrics_view S)" outcome ks]
  have "moves cap permits (metrics_view S) (metrics_view ?S)" by (simp add: metrics_view_def s t ac_simps)
  moreover have "events_view ?S = events_view S" by (simp add: events_view_def s t)
  moreover have "system_ok cap permits ?S" using ok t by (auto simp: system_ok_def after_send_holding(3))
  ultimately show ?thesis by (simp add: both_move_def moves_refl)
qed

section \<open>Steps and runs\<close>

lemma pass_unchanged:
  assumes b: "bounded cap permits S"
  shows "enqueue_event_pass ext e (agent S) = EnqDone (Inl err) s' \<or> enqueue_event_pass ext e (agent S) = EnqWait s' \<Longrightarrow>
      fst s' = fst (agent S)"
    "enqueue_metric_pass ext m (agent S) = EnqDone (Inl err) s' \<or> enqueue_metric_pass ext m (agent S) = EnqWait s' \<Longrightarrow>
      fst s' = fst (agent S)"
proof -
  obtain sh w sh' w' where s: "agent S = (sh, w)" and s': "s' = (sh', w')" by (metis prod.exhaust)
  note ok = bounded_agent [OF b s]
  show "enqueue_event_pass ext e (agent S) = EnqDone (Inl err) s' \<or> enqueue_event_pass ext e (agent S) = EnqWait s' \<Longrightarrow>
      fst s' = fst (agent S)"
    using event_pass_cases(3,4) [OF ok(2,3), of ext e w] by (auto simp: s s')
  show "enqueue_metric_pass ext m (agent S) = EnqDone (Inl err) s' \<or> enqueue_metric_pass ext m (agent S) = EnqWait s' \<Longrightarrow>
      fst s' = fst (agent S)"
    using metric_pass_cases(3,4) [OF ok(2,4), of ext m w] by (auto simp: s s')
qed

lemma same_buffers_refl [simp]: "same_buffers sh sh"
  by (simp add: same_buffers_def)

lemma system_step_moves:
  assumes "system_step ext S S'" "bounded cap permits S"
  shows "both_move cap permits S S'"
  using assms
proof (induction rule: system_step.induct)
  case (event_in e S s')
  then show ?case by (intro event_in_moves)
next
  case (event_refused e S err s')
  then show ?case using pass_unchanged(1) [OF event_refused.prems, of ext e err s'] by (intro quiet_moves) auto
next
  case (event_out e S s')
  then show ?case by (intro event_out_moves)
next
  case (event_waits e S s')
  then show ?case using pass_unchanged(1) [OF event_waits.prems, of ext e _ s'] by (intro quiet_moves) auto
next
  case (metric_in m S s')
  then show ?case by (intro metric_in_moves)
next
  case (metric_refused m S err s')
  then show ?case using pass_unchanged(2) [OF metric_refused.prems, of ext m err s'] by (intro quiet_moves) auto
next
  case (metric_out m S s')
  then show ?case by (intro metric_out_moves)
next
  case (metric_waits m S s')
  then show ?case using pass_unchanged(2) [OF metric_waits.prems, of ext m _ s'] by (intro quiet_moves) auto
next
  case (trigger t S)
  then show ?case by (intro trigger_moves)
next
  case (advance S before t after t' s')
  then show ?case by (intro advance_moves)
next
  case (finish S before t after s')
  then show ?case by (intro finish_moves)
next
  case (events_answered S before xs ks after sh w t w' outcome)
  then show ?case by (intro events_answered_moves)
next
  case (metrics_answered S before xs ks after sh w t w' outcome)
  then show ?case by (intro metrics_answered_moves)
next
  case (elsewhere S sh' w')
  then show ?case by (intro quiet_moves) simp_all
qed

text \<open>A view that is a run of the abstract delivery, with the counter that goes with what was lost.\<close>

definition delivers :: "nat \<Rightarrow> nat \<Rightarrow> 'a list \<Rightarrow> u64 \<Rightarrow> 'a delivery \<times> u64 \<Rightarrow> bool" where
  "delivers cap permits xs d0 V \<longleftrightarrow>
     (\<exists>l. delivery_run cap permits xs (fst V\<lparr>lost := l\<rparr>) \<and> snd V = d0 + of_nat (size l))"

lemma delivers_moves: "moves cap permits V V' \<Longrightarrow> delivers cap permits xs d0 V \<Longrightarrow> delivers cap permits xs d0 V'"
  using moves_run unfolding delivers_def by blast

lemma system_delivers:
  assumes "system_run ext s0 S" and cap: "cap = buffer_size (config (fst s0))" "0 < cap"
    and permits: "permits = flush_permits (fst s0)"
    and fits: "length (events (core (fst s0))) \<le> cap" "length (metrics (core (fst s0))) \<le> cap"
  shows "system_ok cap permits S \<and>
    delivers cap permits (map item (events (core (fst s0)))) (events_dropped (core (fst s0))) (events_view S) \<and>
    delivers cap permits (map item (metrics (core (fst s0)))) (metrics_dropped (core (fst s0))) (metrics_view S)"
  using assms(1)
proof induction
  case start
  have "delivers cap permits (map item (events (core (fst s0)))) (events_dropped (core (fst s0))) (events_view (system_init s0))"
    unfolding delivers_def
    by (intro exI [of _ "{#}"]) (simp add: events_view_def system_init_def delivery_run.start [unfolded delivery_init_def])
  moreover have "delivers cap permits (map item (metrics (core (fst s0)))) (metrics_dropped (core (fst s0))) (metrics_view (system_init s0))"
    unfolding delivers_def
    by (intro exI [of _ "{#}"]) (simp add: metrics_view_def system_init_def delivery_run.start [unfolded delivery_init_def])
  ultimately show ?case using cap permits by (simp add: system_ok_def system_init_def)
next
  case (step S S')
  have "length (events (core (fst (agent S)))) \<le> cap" "length (metrics (core (fst (agent S)))) \<le> cap"
    using step.IH delivery_bounds fits by (fastforce simp: delivers_def events_view_def metrics_view_def)+
  then have "bounded cap permits S" using step.IH cap(2) by (simp add: bounded_def)
  from system_step_moves [OF step.hyps(2) this] have m: "system_ok cap permits S'"
      "moves cap permits (events_view S) (events_view S')" "moves cap permits (metrics_view S) (metrics_view S')"
    by (simp_all add: both_move_def)
  then show ?case
    using delivers_moves [OF m(2) step.IH [THEN conjunct2, THEN conjunct1]]
      delivers_moves [OF m(3) step.IH [THEN conjunct2, THEN conjunct2]] by (intro conjI)
qed

end
