(* ===== verification/Request_Tasks.thy ===== *)
theory Request_Tasks
  imports Transport_Retry
begin

text \<open>
  The retry loops of \<^verbatim>\<open>src/src/transport.rs\<close> as concurrent tasks on one transport: batches, status pushes and
  rules polls all reach the wire through one of the two loops. A task is at one of the points where another
  task may run: it has read the clock but not yet locked the limiter; it is past the limiter, or past the
  breaker, and its request is not on the wire yet; its request was answered. A sleep takes any time.
  The log of requests has the time at which each went on the wire, not the reading the limiter was given.
\<close>

section \<open>A task\<close>

datatype call = Post string bytes | Get string

datatype call_phase =
    At_Limiter nat
  | Has_Read nat Instant
  | At_Breaker nat Instant
  | At_Wire nat Instant
  | Post_Answered nat AttemptResult
  | Get_Answered nat GetAttempt

text \<open>What a task does with the end of a pass; the clock is not moved by the task.\<close>

definition pass_over :: "call \<Rightarrow> nat \<Rightarrow> Instant \<Rightarrow> ('r, 'st tstate) loop_step \<Rightarrow> (call \<times> call_phase) option \<times> 'st tstate" where
  "pass_over c attempt now step =
     (case step of
        Return r s' \<Rightarrow> (None, (fst s', (snd s')\<lparr>clock := now\<rparr>))
      | Again s' \<Rightarrow> (Some (c, At_Limiter (attempt + 1)), (fst s', (snd s')\<lparr>clock := now\<rparr>)))"

text \<open>The passes of \<^verbatim>\<open>send_with_retry\<close> and \<^verbatim>\<open>get_with_retry\<close>, from one point to the next. \<^verbatim>\<open>acquire\<close> reads the
  clock before it takes the lock.\<close>

fun call_step :: "externals \<Rightarrow> call \<times> call_phase \<Rightarrow> 'st tstate \<Rightarrow> (call \<times> call_phase) option \<times> 'st tstate" where
  "call_step ext (c, At_Limiter attempt) (t, w) =
     (if attempt < total_attempts (tr_config t) then Some (c, Has_Read attempt (clock w)) else None, (t, w))"
| "call_step ext (c, Has_Read attempt now) (t, w) =
     (let (ok, rl) = acquire now (rate_limiter t)
      in (Some (c, if ok then At_Breaker attempt now else At_Limiter (attempt + 1)), (t\<lparr>rate_limiter := rl\<rparr>, w)))"
| "call_step ext (c, At_Breaker attempt now) (t, w) =
     (let (admitted, b) = admit (clock w) (breaker t); t1 = t\<lparr>breaker := b\<rparr>
      in if admitted then (Some (c, At_Wire attempt now), (t1, w))
         else if attempt + 1 = total_attempts (tr_config t)
           then (None, (count_failed t1,
                   case c of Post _ _ \<Rightarrow> fire_hook (tr_config t1) TransportSend breaker_open_error w | Get _ \<Rightarrow> w))
         else (Some (c, At_Limiter (attempt + 1)), (t1, w)))"
| "call_step ext (Post label body, At_Wire attempt now) (t, w) =
     (let (res, t1, w1) = attempt_post ext label body (t, w)
      in (Some (Post label body, Post_Answered attempt res), (t1, w1\<lparr>clock := clock w\<rparr>)))"
| "call_step ext (Get url, At_Wire attempt now) (t, w) =
     (let (res, t1, w1) = get_attempt ext url (t, w)
      in (Some (Get url, Get_Answered attempt res), (t1, w1\<lparr>clock := clock w\<rparr>)))"
| "call_step ext (Post label body, Post_Answered attempt res) (t, w) =
     pass_over (Post label body) attempt (clock w) (after_post ext label (total_attempts (tr_config t)) attempt (res, t, w))"
| "call_step ext (Get url, Get_Answered attempt res) (t, w) =
     pass_over (Get url) attempt (clock w) (after_get ext (total_attempts (tr_config t)) attempt (res, t, w))"
| "call_step ext (c, p) s = (None, s)"

section \<open>All tasks together\<close>

record 'st traffic =
  net :: "'st tstate"
  pending :: "(call \<times> call_phase) list"

text \<open>\<open>lag\<close> bounds the time between the clock reading that the limiter admits and the request on the wire.
  \<open>elsewhere\<close> is time passing and whatever else the program does; it sends nothing.\<close>

inductive traffic_step :: "externals \<Rightarrow> Duration \<Rightarrow> 'st traffic \<Rightarrow> 'st traffic \<Rightarrow> bool" for ext lag where
  call: "traffic_step ext lag S (S\<lparr>pending := pending S @ [(c, At_Limiter 0)]\<rparr>)"
| proceed: "pending S = before @ q # after \<Longrightarrow> call_step ext q (net S) = (Some q', s') \<Longrightarrow>
     (\<And>attempt now. snd q = At_Wire attempt now \<Longrightarrow> clock (snd (net S)) \<le> now + lag) \<Longrightarrow>
     traffic_step ext lag S (S\<lparr>net := s', pending := before @ q' # after\<rparr>)"
| over: "pending S = before @ q # after \<Longrightarrow> call_step ext q (net S) = (None, s') \<Longrightarrow>
     traffic_step ext lag S (S\<lparr>net := s', pending := before @ after\<rparr>)"
| elsewhere: "rate_limiter t' = rate_limiter (fst (net S)) \<Longrightarrow> wire w' = wire (snd (net S)) \<Longrightarrow>
     sent_at w' = sent_at (snd (net S)) \<Longrightarrow> clock (snd (net S)) \<le> clock w' \<Longrightarrow> traffic_step ext lag S (S\<lparr>net := (t', w')\<rparr>)"

definition traffic_run :: "externals \<Rightarrow> Duration \<Rightarrow> 'st tstate \<Rightarrow> 'st traffic \<Rightarrow> bool" where
  "traffic_run ext lag s S \<longleftrightarrow> (traffic_step ext lag)\<^sup>*\<^sup>* \<lparr>net = s, pending = []\<rparr> S"

section \<open>One call on its own\<close>

text \<open>Run without the others, the steps of a task are the passes of the loops of \<^verbatim>\<open>Transport\<close>: a step and then
  the time its latency or its sleep takes.\<close>

fun still :: "(call \<times> call_phase) option \<Rightarrow> (call \<times> call_phase) list" where
  "still None = []"
| "still (Some q) = [q]"

fun next_pass :: "call \<Rightarrow> nat \<Rightarrow> ('r, 's) loop_step \<Rightarrow> (call \<times> call_phase) option" where
  "next_pass c attempt (Return r s) = None"
| "next_pass c attempt (Again s) = Some (c, At_Limiter (attempt + 1))"

lemma drive:
  assumes "pending S = before @ q # after" "call_step ext q (net S) = (r, (t', w'))"
    and "\<And>attempt now. snd q = At_Wire attempt now \<Longrightarrow> clock (snd (net S)) \<le> now + lag"
    and "rate_limiter (fst s) = rate_limiter t'" "wire (snd s) = wire w'" "sent_at (snd s) = sent_at w'" "clock w' \<le> clock (snd s)"
  shows "(traffic_step ext lag)\<^sup>*\<^sup>* S (S\<lparr>net := s, pending := before @ still r @ after\<rparr>)"
proof -
  let ?mid = "S\<lparr>net := (t', w'), pending := before @ still r @ after\<rparr>"
  have "traffic_step ext lag S ?mid"
    using proceed [OF assms(1) _ assms(3)] over [OF assms(1)] assms(2) by (cases r) auto
  moreover have "traffic_step ext lag ?mid (?mid\<lparr>net := (fst s, snd s)\<rparr>)" using assms(4-7) by (intro elsewhere) simp_all
  ultimately have "(traffic_step ext lag)\<^sup>*\<^sup>* S (?mid\<lparr>net := (fst s, snd s)\<rparr>)" by (rule converse_rtranclp_into_rtranclp [OF _ r_into_rtranclp])
  then show ?thesis by (cases S) simp
qed

lemma drive_again:
  assumes "(traffic_step ext lag)\<^sup>*\<^sup>* S (S\<lparr>net := s1, pending := before @ q # after\<rparr>)" "call_step ext q s1 = (r, (t', w'))"
    and "\<And>attempt now. snd q = At_Wire attempt now \<Longrightarrow> clock (snd s1) \<le> now + lag"
    and "rate_limiter (fst s) = rate_limiter t'" "wire (snd s) = wire w'" "sent_at (snd s) = sent_at w'" "clock w' \<le> clock (snd s)"
  shows "(traffic_step ext lag)\<^sup>*\<^sup>* S (S\<lparr>net := s, pending := before @ still r @ after\<rparr>)"
proof -
  have "(traffic_step ext lag)\<^sup>*\<^sup>* (S\<lparr>net := s1, pending := before @ q # after\<rparr>)
      (S\<lparr>net := s1, pending := before @ q # after\<rparr>\<lparr>net := s, pending := before @ still r @ after\<rparr>)"
    using assms(2-7) by (intro drive [where q = q]) simp_all
  with assms(1) show ?thesis by simp
qed

text \<open>A call up to the wire.\<close>

lemma drive_to_limiter:
  assumes "pending S = before @ (c, At_Limiter a) # after" "net S = (t, w)" "a < total_attempts (tr_config t)"
  shows "(traffic_step ext lag)\<^sup>*\<^sup>* S (S\<lparr>net := (t, w), pending := before @ (c, Has_Read a (clock w)) # after\<rparr>)"
  using drive [OF assms(1), where s = "(t, w)" and r = "Some (c, Has_Read a (clock w))"] assms(2,3) by simp

lemma drive_to_wire:
  assumes "pending S = before @ (c, At_Limiter a) # after" "net S = (t, w)" "a < total_attempts (tr_config t)" "may_send (t, w)"
  shows "(traffic_step ext lag)\<^sup>*\<^sup>* S (S\<lparr>net := gated (t, w), pending := before @ (c, At_Wire a (clock w)) # after\<rparr>)"
proof -
  let ?t = "t\<lparr>rate_limiter := snd (acquire (clock w) (rate_limiter t))\<rparr>"
  have "(traffic_step ext lag)\<^sup>*\<^sup>* S (S\<lparr>net := (?t, w), pending := before @ (c, At_Breaker a (clock w)) # after\<rparr>)"
    using drive_again [OF drive_to_limiter [OF assms(1-3)], where s = "(?t, w)"] assms(4)
    by (simp add: may_send_def Let_def case_prod_beta)
  from drive_again [OF this, where s = "gated (t, w)"] show ?thesis using assms(4)
    by (simp add: may_send_def gated_def Let_def case_prod_beta)
qed

lemma drive_blocked:
  assumes "pending S = before @ (c, At_Limiter a) # after" "net S = (t, w)" "a < total_attempts (tr_config t)" "\<not> may_send (t, w)"
    and "fst (acquire (clock w) (rate_limiter t)) \<Longrightarrow> a + 1 = total_attempts (tr_config t) \<Longrightarrow> r = None"
    and "\<not> fst (acquire (clock w) (rate_limiter t)) \<or> a + 1 \<noteq> total_attempts (tr_config t) \<Longrightarrow> r = Some (c, At_Limiter (a + 1))"
    and "rate_limiter (fst s) = snd (acquire (clock w) (rate_limiter t))" "wire (snd s) = wire w" "sent_at (snd s) = sent_at w"
      "clock w \<le> clock (snd s)"
  shows "(traffic_step ext lag)\<^sup>*\<^sup>* S (S\<lparr>net := s, pending := before @ still r @ after\<rparr>)"
proof -
  let ?ok = "fst (acquire (clock w) (rate_limiter t))" and ?t = "t\<lparr>rate_limiter := snd (acquire (clock w) (rate_limiter t))\<rparr>"
  note read = drive_to_limiter [OF assms(1-3)]
  show ?thesis
  proof (cases ?ok)
    case True
    then have no: "\<not> fst (admit (clock w) (breaker t))" using assms(4) by (simp add: may_send_def)
    have "(traffic_step ext lag)\<^sup>*\<^sup>* S (S\<lparr>net := (?t, w), pending := before @ still (Some (c, At_Breaker a (clock w))) @ after\<rparr>)"
      by (rule drive_again [OF read, where t' = ?t and w' = w]) (simp_all add: Let_def case_prod_beta True)
    then have "(traffic_step ext lag)\<^sup>*\<^sup>* S (S\<lparr>net := (?t, w), pending := before @ (c, At_Breaker a (clock w)) # after\<rparr>)" by simp
    then show ?thesis
      by (rule drive_again [where t' = "fst (snd (call_step ext (c, At_Breaker a (clock w)) (?t, w)))"
              and w' = "snd (snd (call_step ext (c, At_Breaker a (clock w)) (?t, w)))"])
        (use True no assms(5-10) in \<open>auto simp: Let_def case_prod_beta count_failed_def split: call.splits\<close>)
  next
    case False
    then show ?thesis using assms(6-10) by (intro drive_again [OF read, where t' = ?t and w' = w]) (simp_all add: Let_def case_prod_beta)
  qed
qed

lemma pass_over_step:
  "pass_over c a now step = (next_pass c a step, fst (step_state step), (snd (step_state step))\<lparr>clock := now\<rparr>)"
  by (simp add: pass_over_def split: loop_step.splits)

lemma after_post_clock: "clock w \<le> clock (snd (step_state (after_post ext label n a (res, t, w))))"
  using after_post_facts(2) [of t w ext label n a res] by (simp add: advances_def)

lemma after_get_clock: "clock w \<le> clock (snd (step_state (after_get ext n a (res, t, w))))"
  by (auto simp: after_get_def Let_def sleep_backoff_def split: GetAttempt.splits)

lemma send_body_refused:
  "\<not> may_send (t, w) \<Longrightarrow> next_pass c a (send_body ext label body n a (t, w)) =
     (if fst (acquire (clock w) (rate_limiter t)) \<and> a + 1 = n then None else Some (c, At_Limiter (a + 1)))"
  by (cases "fst (acquire (clock w) (rate_limiter t))") (simp_all add: send_body_def may_send_def give_up_def Let_def case_prod_beta)

lemma get_body_refused:
  "\<not> may_send (t, w) \<Longrightarrow> next_pass c a (get_body ext url n a (t, w)) =
     (if fst (acquire (clock w) (rate_limiter t)) \<and> a + 1 = n then None else Some (c, At_Limiter (a + 1)))"
  by (cases "fst (acquire (clock w) (rate_limiter t))") (simp_all add: get_body_def may_send_def Let_def case_prod_beta)

text \<open>Every pass of \<^verbatim>\<open>send_with_retry\<close> and of \<^verbatim>\<open>get_with_retry\<close> is a run of the tasks.\<close>

lemma post_pass_runs:
  assumes q: "pending S = before @ (Post label body, At_Limiter a) # after" and s: "net S = (t, w)" and n: "n = total_attempts (tr_config t)" "a < n"
  shows "(traffic_step ext lag)\<^sup>*\<^sup>* S (S\<lparr>net := step_state (send_body ext label body n a (t, w)),
    pending := before @ still (next_pass (Post label body) a (send_body ext label body n a (t, w))) @ after\<rparr>)"
proof (cases "may_send (t, w)")
  case True
  obtain res t1 w1 where x: "attempt_post ext label body (gated (t, w)) = (res, t1, w1)" by (metis prod.exhaust)
  have cfg: "tr_config t1 = tr_config t" using attempt_post_config [of ext label body "gated (t, w)"] x by simp
  have later: "clock w \<le> clock w1" using attempt_post_facts(2) [OF x] by (simp add: advances_def)
  have "(traffic_step ext lag)\<^sup>*\<^sup>* S (S\<lparr>net := (t1, w1), pending := before @ still (Some (Post label body, Post_Answered a res)) @ after\<rparr>)"
    by (rule drive_again [OF drive_to_wire [OF q s n(2) [unfolded n(1)] True], where t' = t1 and w' = "w1\<lparr>clock := clock w\<rparr>"])
      (use x later in \<open>auto simp: gated_def Let_def case_prod_beta\<close>)
  then have "(traffic_step ext lag)\<^sup>*\<^sup>* S (S\<lparr>net := (t1, w1), pending := before @ (Post label body, Post_Answered a res) # after\<rparr>)" by simp
  then show ?thesis unfolding send_body_may_send [OF True] x
    by (rule drive_again [where t' = "fst (step_state (after_post ext label n a (res, t1, w1)))"
          and w' = "(snd (step_state (after_post ext label n a (res, t1, w1))))\<lparr>clock := clock w1\<rparr>"])
      (simp_all add: pass_over_step n cfg after_post_clock)
next
  case False
  have a: "a < total_attempts (tr_config t)" using n by simp
  show ?thesis
    by (rule drive_blocked [OF q s a False])
      (simp_all add: send_body_refused [OF False] send_body_blocked(1) [OF False] send_body_pace False n
        send_body_blocked(2) [OF False, unfolded advances_def, simplified])
qed

lemma get_pass_runs:
  assumes q: "pending S = before @ (Get url, At_Limiter a) # after" and s: "net S = (t, w)" and n: "n = total_attempts (tr_config t)" "a < n"
  shows "(traffic_step ext lag)\<^sup>*\<^sup>* S (S\<lparr>net := step_state (get_body ext url n a (t, w)),
    pending := before @ still (next_pass (Get url) a (get_body ext url n a (t, w))) @ after\<rparr>)"
proof (cases "may_send (t, w)")
  case True
  obtain res t1 w1 where x: "get_attempt ext url (gated (t, w)) = (res, t1, w1)" by (metis prod.exhaust)
  have cfg: "tr_config t1 = tr_config t" using get_attempt_config [of ext url "gated (t, w)"] x by simp
  have later: "clock w \<le> clock w1" using get_attempt_facts(2) [OF x] by (simp add: advances_def)
  have "(traffic_step ext lag)\<^sup>*\<^sup>* S (S\<lparr>net := (t1, w1), pending := before @ still (Some (Get url, Get_Answered a res)) @ after\<rparr>)"
    by (rule drive_again [OF drive_to_wire [OF q s n(2) [unfolded n(1)] True], where t' = t1 and w' = "w1\<lparr>clock := clock w\<rparr>"])
      (use x later in \<open>auto simp: gated_def Let_def case_prod_beta\<close>)
  then have "(traffic_step ext lag)\<^sup>*\<^sup>* S (S\<lparr>net := (t1, w1), pending := before @ (Get url, Get_Answered a res) # after\<rparr>)" by simp
  then show ?thesis unfolding get_body_may_send [OF True] x
    by (rule drive_again [where t' = "fst (step_state (after_get ext n a (res, t1, w1)))"
          and w' = "(snd (step_state (after_get ext n a (res, t1, w1))))\<lparr>clock := clock w1\<rparr>"])
      (simp_all add: pass_over_step n cfg after_get_clock)
next
  case False
  have a: "a < total_attempts (tr_config t)" using n by simp
  show ?thesis
    by (rule drive_blocked [OF q s a False])
      (simp_all add: get_body_refused [OF False] get_body_blocked(1) [OF False] get_body_pace False n
        get_body_blocked(3) [OF False, unfolded advances_def, simplified])
qed

text \<open>And so are both loops as a whole.\<close>

lemma send_body_config: "tr_config (fst (step_state (send_body ext label body n a s))) = tr_config (fst s)"
  using send_body_step(1) [of s ext label body n a] by (simp add: advances_def steady_def)

lemma get_body_config: "tr_config (fst (step_state (get_body ext url n a s))) = tr_config (fst s)"
  using get_body_step(1) [of s ext url n a] by (simp add: advances_def steady_def)

lemma loop_runs:
  assumes "pending S = before @ (c, At_Limiter a) # after" "total_attempts (tr_config (fst (net S))) = n" "a + k = n"
    and pass: "\<And>S a. pending S = before @ (c, At_Limiter a) # after \<Longrightarrow> total_attempts (tr_config (fst (net S))) = n \<Longrightarrow> a < n \<Longrightarrow>
      (traffic_step ext lag)\<^sup>*\<^sup>* S (S\<lparr>net := step_state (body a (net S)), pending := before @ still (next_pass c a (body a (net S))) @ after\<rparr>)"
    and cfg: "\<And>a s. tr_config (fst (step_state (body a s))) = tr_config (fst s)"
  shows "(traffic_step ext lag)\<^sup>*\<^sup>* S (S\<lparr>net := snd (retry_loop k body fallback a (net S)), pending := before @ after\<rparr>)"
  using assms(1-3)
proof (induction k arbitrary: a S)
  case 0
  then show ?case using drive [OF 0(1), of ext None "fst (net S)" "snd (net S)" lag "net S"] by (cases "net S") simp
next
  case (Suc k)
  have p: "(traffic_step ext lag)\<^sup>*\<^sup>* S (S\<lparr>net := step_state (body a (net S)), pending := before @ still (next_pass c a (body a (net S))) @ after\<rparr>)"
    using Suc.prems by (intro pass) simp_all
  show ?case
  proof (cases "body a (net S)")
    case (Return r s')
    then show ?thesis using p by simp
  next
    case (Again s')
    let ?S = "S\<lparr>net := s', pending := before @ (c, At_Limiter (a + 1)) # after\<rparr>"
    have "(traffic_step ext lag)\<^sup>*\<^sup>* ?S (?S\<lparr>net := snd (retry_loop k body fallback (a + 1) (net ?S)), pending := before @ after\<rparr>)"
      using Suc.prems cfg [of a "net S"] Again by (intro Suc.IH) simp_all
    then show ?thesis using p Again by (cases S) simp
  qed
qed

lemma send_with_retry_runs:
  assumes "pending S = before @ (Post label body, At_Limiter 0) # after"
  shows "(traffic_step ext lag)\<^sup>*\<^sup>* S (S\<lparr>net := snd (send_with_retry ext label body (net S)), pending := before @ after\<rparr>)"
  unfolding send_with_retry_def Let_def
  by (rule loop_runs [OF assms refl])
    (use post_pass_runs [OF _ prod.collapse [symmetric] sym] in \<open>auto simp: send_body_config\<close>)

lemma get_with_retry_runs:
  assumes "pending S = before @ (Get (api_url (fst (net S)) label), At_Limiter 0) # after"
  shows "(traffic_step ext lag)\<^sup>*\<^sup>* S (S\<lparr>net := snd (get_with_retry ext label (net S)), pending := before @ after\<rparr>)"
  unfolding get_with_retry_def Let_def
  by (rule loop_runs [OF assms refl])
    (use get_pass_runs [OF _ prod.collapse [symmetric] sym] in \<open>auto simp: get_body_config\<close>)

text \<open>Two calls may both read the clock before either has locked the limiter, and then both send.\<close>

lemma total_attempts_pos: "0 < total_attempts cfg"
  by (simp add: total_attempts_def unat_saturating_add)

lemma two_at_once:
  assumes fresh: "rate_limiter t = limiter_new n d" "2 \<le> n" "opened_at (breaker t) = None"
  shows "\<exists>S. traffic_run ext lag (t, w) S \<and> length (wire (snd (net S))) = length (wire w) + 2"
proof -
  let ?T = "clock w" and ?p = "Post label body" and ?g = "Get url"
  let ?S = "\<lambda>s p g. \<lparr>net = s, pending = [(?p, p), (?g, g)]\<rparr> :: 'a traffic"
  let ?l = "limiter_new n d\<lparr>calls := [?T]\<rparr>"
  have a: "acquire ?T (limiter_new n d) = (True, ?l)" using fresh(2) by (simp add: acquire_def limiter_new_def)
  then have may: "may_send (t, w)" and gate: "gated (t, w) = (t\<lparr>rate_limiter := ?l\<rparr>, w)"
    using fresh by (simp_all add: may_send_def gated_def admit_def)
  have "fst (acquire ?T ?l)" using fresh(2) by (simp add: acquire_def limiter_new_def Let_def)
  then obtain l2 where b: "acquire ?T ?l = (True, l2)" by (cases "acquire ?T ?l") simp
  obtain res t1 w1 where x: "attempt_post ext label body (t\<lparr>rate_limiter := ?l\<rparr>, w) = (res, t1, w1)" by (metis prod.exhaust)
  let ?w1 = "w1\<lparr>clock := ?T\<rparr>" and ?t2 = "t1\<lparr>rate_limiter := l2\<rparr>"
  have t1: "rate_limiter t1 = ?l" "breaker t1 = breaker t" "length (wire w1) = length (wire w) + 1"
    using x attempt_post_facts(1) [OF x] by (auto simp: attempt_post_def Let_def case_prod_beta split: sum.splits)
  obtain res2 t3 w3 where y: "get_attempt ext url (?t2, ?w1) = (res2, t3, w3)" by (metis prod.exhaust)
  have t3: "length (wire w3) = length (wire w) + 2" using get_attempt_facts(1) [OF y] t1(3) by simp
  have 1: "traffic_run ext lag (t, w) (?S (t, w) (At_Limiter 0) (At_Limiter 0))"
    using call [of ext lag "\<lparr>net = (t, w), pending = []\<rparr>" ?p] call [of ext lag "\<lparr>net = (t, w), pending = [(?p, At_Limiter 0)]\<rparr>" ?g]
    by (simp add: traffic_run_def)
  have 2: "(traffic_step ext lag)\<^sup>*\<^sup>* (?S (t, w) (At_Limiter 0) (At_Limiter 0)) (?S (t, w) (At_Limiter 0) (Has_Read 0 ?T))"
    using drive_to_limiter [of "?S (t, w) (At_Limiter 0) (At_Limiter 0)" "[(?p, At_Limiter 0)]" ?g 0 "[]" t w ext lag] total_attempts_pos by simp
  have 3: "(traffic_step ext lag)\<^sup>*\<^sup>* (?S (t, w) (At_Limiter 0) (Has_Read 0 ?T)) (?S (gated (t, w)) (At_Wire 0 ?T) (Has_Read 0 ?T))"
    using drive_to_wire [of "?S (t, w) (At_Limiter 0) (Has_Read 0 ?T)" "[]" ?p 0 "[(?g, Has_Read 0 ?T)]" t w ext lag] may total_attempts_pos by simp
  have 4: "traffic_step ext lag (?S (gated (t, w)) (At_Wire 0 ?T) (Has_Read 0 ?T)) (?S (t1, ?w1) (Post_Answered 0 res) (Has_Read 0 ?T))"
    using proceed [of "?S (gated (t, w)) (At_Wire 0 ?T) (Has_Read 0 ?T)" "[]" "(?p, At_Wire 0 ?T)" "[(?g, Has_Read 0 ?T)]" ext
        "(?p, Post_Answered 0 res)" "(t1, ?w1)" lag] x gate by simp
  have 5: "traffic_step ext lag (?S (t1, ?w1) (Post_Answered 0 res) (Has_Read 0 ?T)) (?S (?t2, ?w1) (Post_Answered 0 res) (At_Breaker 0 ?T))"
    using proceed [of "?S (t1, ?w1) (Post_Answered 0 res) (Has_Read 0 ?T)" "[(?p, Post_Answered 0 res)]" "(?g, Has_Read 0 ?T)" "[]" ext
        "(?g, At_Breaker 0 ?T)" "(?t2, ?w1)" lag] t1(1) b by simp
  have 6: "traffic_step ext lag (?S (?t2, ?w1) (Post_Answered 0 res) (At_Breaker 0 ?T)) (?S (?t2, ?w1) (Post_Answered 0 res) (At_Wire 0 ?T))"
    using proceed [of "?S (?t2, ?w1) (Post_Answered 0 res) (At_Breaker 0 ?T)" "[(?p, Post_Answered 0 res)]" "(?g, At_Breaker 0 ?T)" "[]" ext
        "(?g, At_Wire 0 ?T)" "(?t2, ?w1)" lag] t1(2) fresh(3) by (simp add: admit_def)
  have 7: "traffic_step ext lag (?S (?t2, ?w1) (Post_Answered 0 res) (At_Wire 0 ?T))
      (?S (t3, w3\<lparr>clock := ?T\<rparr>) (Post_Answered 0 res) (Get_Answered 0 res2))"
    using proceed [of "?S (?t2, ?w1) (Post_Answered 0 res) (At_Wire 0 ?T)" "[(?p, Post_Answered 0 res)]" "(?g, At_Wire 0 ?T)" "[]" ext
        "(?g, Get_Answered 0 res2)" "(t3, w3\<lparr>clock := ?T\<rparr>)" lag] y by simp
  note run = rtranclp_trans [OF 1 [unfolded traffic_run_def] rtranclp_trans [OF 2 3]]
  note run = rtranclp.rtrancl_into_rtrancl [OF rtranclp.rtrancl_into_rtrancl [OF run 4] 5]
  note run = rtranclp.rtrancl_into_rtrancl [OF rtranclp.rtrancl_into_rtrancl [OF run 6] 7]
  show ?thesis by (intro exI conjI, rule run [folded traffic_run_def]) (simp add: t3)
qed

end
