(* ===== verification/Request_Rate.thy ===== *)
theory Request_Rate
  imports Request_Tasks "HOL-Library.Multiset"
begin

text \<open>
  The rate of concurrent requests. A task may read the clock before another one and lock the limiter after
  it, and may be delayed between its admission and the wire. If no task takes longer than \<open>lag\<close> from its
  reading to the wire, a window shorter than the limiter's by \<open>lag\<close> has no more requests than the limiter
  allows calls.
\<close>

section \<open>The admissions of the limiter\<close>

text \<open>\<open>hist\<close> has for each admission the clock reading and the time at which the limiter was locked, which is
  \<open>T\<close> now. The limiter still knows every reading that is younger than its window.\<close>

definition admissions :: "Duration \<Rightarrow> RateLimiter \<Rightarrow> (Instant \<times> Instant) list \<Rightarrow> Instant \<Rightarrow> bool" where
  "admissions lag l hist T \<longleftrightarrow>
     (\<forall>p \<in> set hist. fst p \<le> snd p \<and> snd p \<le> T) \<and>
     filter (\<lambda>c. T < c + time_window l) (calls l) = filter (\<lambda>c. T < c + time_window l) (map fst hist) \<and>
     (\<forall>t1. length (filter (\<lambda>p. t1 \<le> fst p + lag \<and> snd p + lag < t1 + time_window l) hist) \<le> max_calls l)"

lemma filter_length_mono: "(\<And>x. x \<in> set xs \<Longrightarrow> P x \<Longrightarrow> Q x) \<Longrightarrow> length (filter P xs) \<le> length (filter Q xs)"
  by (induction xs) (auto simp: le_SucI)

lemma admissions_later:
  assumes "admissions lag l hist T" "T \<le> T'"
  shows "admissions lag l hist T'"
proof -
  have "filter (\<lambda>c. T' < c + time_window l) cs = filter (\<lambda>c. T' < c + time_window l) (filter (\<lambda>c. T < c + time_window l) cs)" for cs
    using assms(2) by (induction cs) auto
  then show ?thesis using assms unfolding admissions_def by (metis (no_types, lifting) le_trans)
qed

lemma admissions_acquire:
  assumes "admissions lag l hist T" "now \<le> T"
  shows "admissions lag (snd (acquire now l)) (if fst (acquire now l) then hist @ [(now, T)] else hist) T"
proof -
  let ?w = "time_window l" and ?kept = "filter (\<lambda>c. duration_since now c < time_window l) (calls l)"
  have old: "\<forall>p \<in> set hist. fst p \<le> snd p \<and> snd p \<le> T"
    and alive: "filter (\<lambda>c. T < c + ?w) (calls l) = filter (\<lambda>c. T < c + ?w) (map fst hist)"
    and few: "\<And>t1. length (filter (\<lambda>p. t1 \<le> fst p + lag \<and> snd p + lag < t1 + ?w) hist) \<le> max_calls l"
    using assms(1) by (auto simp: admissions_def)
  have age: "duration_since now c < ?w" if "T < c + ?w" "0 < ?w" for c
    using that assms(2) by (auto simp: duration_since_def)
  have kept: "filter (\<lambda>c. T < c + ?w) ?kept = filter (\<lambda>c. T < c + ?w) (map fst hist)"
  proof (cases "0 < ?w")
    case True
    then have "filter (\<lambda>c. T < c + ?w) ?kept = filter (\<lambda>c. T < c + ?w) (calls l)"
      using age by (auto intro: filter_cong)
    then show ?thesis using alive by simp
  next
    case False
    then have "?kept = []" by simp
    moreover have "filter (\<lambda>c. T < c + ?w) (map fst hist) = []" using False old by (auto simp: filter_empty_conv)
    ultimately show ?thesis by simp
  qed
  show ?thesis
  proof (cases "length ?kept < max_calls l")
    case True
    then have a: "acquire now l = (True, l\<lparr>calls := ?kept @ [now]\<rparr>)" by (simp add: acquire_def Let_def)
    have "length (filter (\<lambda>p. t1 \<le> fst p + lag \<and> snd p + lag < t1 + ?w) (hist @ [(now, T)])) \<le> max_calls l" for t1
    proof (cases "t1 \<le> now + lag \<and> T + lag < t1 + ?w")
      case in_it: True
      have "length (filter (\<lambda>p. t1 \<le> fst p + lag \<and> snd p + lag < t1 + ?w) hist) \<le> length (filter (\<lambda>p. T < fst p + ?w) hist)"
        using in_it by (intro filter_length_mono) auto
      also have "\<dots> = length (filter (\<lambda>c. T < c + ?w) ?kept)" unfolding kept by (simp add: filter_map comp_def)
      also have "\<dots> \<le> length ?kept" by (rule length_filter_le)
      finally show ?thesis using True by simp
    next
      case False
      then show ?thesis using few [of t1] by auto
    qed
    then show ?thesis using a old assms(2) kept by (auto simp: admissions_def)
  next
    case False
    then have "acquire now l = (False, l\<lparr>calls := ?kept\<rparr>)" by (simp add: acquire_def Let_def)
    then show ?thesis using old kept few by (auto simp: admissions_def)
  qed
qed

lemma admissions_new: "admissions lag (limiter_new mc d) [] T"
  by (simp add: admissions_def limiter_new_def)

section \<open>The tasks\<close>

text \<open>The admission a task has not used yet, and the reading it has not shown to the limiter yet.\<close>

fun unused :: "call_phase \<Rightarrow> Instant multiset" where
  "unused (At_Breaker a now) = {#now#}"
| "unused (At_Wire a now) = {#now#}"
| "unused _ = {#}"

definition all_unused :: "(call \<times> call_phase) list \<Rightarrow> Instant multiset" where
  "all_unused qs = (\<Sum>q\<leftarrow>qs. unused (snd q))"

lemma all_unused_simps [simp]:
  "all_unused [] = {#}" "all_unused (q # qs) = unused (snd q) + all_unused qs" "all_unused (qs @ rs) = all_unused qs + all_unused rs"
  by (simp_all add: all_unused_def)

definition readings_past :: "Instant \<Rightarrow> (call \<times> call_phase) list \<Rightarrow> bool" where
  "readings_past T qs \<longleftrightarrow> (\<forall>q \<in> set qs. \<forall>a now. snd q = Has_Read a now \<longrightarrow> now \<le> T)"

lemma readings_past_simps [simp]:
  "readings_past T []" "readings_past T (q # qs) \<longleftrightarrow> (\<forall>a now. snd q = Has_Read a now \<longrightarrow> now \<le> T) \<and> readings_past T qs"
  "readings_past T (qs @ rs) \<longleftrightarrow> readings_past T qs \<and> readings_past T rs"
  by (auto simp: readings_past_def)

lemma readings_past_later: "readings_past T qs \<Longrightarrow> T \<le> T' \<Longrightarrow> readings_past T' qs"
  by (auto simp: readings_past_def intro: order_trans)

text \<open>Every request on the wire has an admission of its own, at most \<open>lag\<close> older, and so has every task
  between its admission and the wire.\<close>

definition accounted :: "Duration \<Rightarrow> Instant list \<Rightarrow> Instant multiset \<Rightarrow> (Instant \<times> Instant) multiset \<Rightarrow> bool" where
  "accounted lag sent waits hist \<longleftrightarrow>
     (\<exists>log adm. map snd log = sent \<and> image_mset fst adm = waits \<and> mset (map fst log) + adm \<subseteq># hist \<and>
        (\<forall>e \<in> set log. snd (fst e) \<le> snd e \<and> snd e \<le> fst (fst e) + lag))"

lemma accounted_fewer:
  assumes "accounted lag sent waits hist" "waits' \<subseteq># waits"
  shows "accounted lag sent waits' hist"
proof -
  from assms obtain log adm where h: "map snd log = sent" "image_mset fst adm = waits" "mset (map fst log) + adm \<subseteq># hist"
      "\<forall>e \<in> set log. snd (fst e) \<le> snd e \<and> snd e \<le> fst (fst e) + lag"
    by (auto simp: accounted_def)
  obtain X where "waits = waits' + X" using assms(2) by (metis mset_subset_eq_exists_conv)
  then obtain adm' Y where a: "adm = adm' + Y" "image_mset fst adm' = waits'" using h(2) image_mset_eq_plusD by metis
  then have "mset (map fst log) + adm' \<subseteq># mset (map fst log) + adm" by simp
  then have "mset (map fst log) + adm' \<subseteq># hist" using h(3) by (rule subset_mset.trans)
  then show ?thesis using h(1,4) a(2) unfolding accounted_def by blast
qed

lemma accounted_more:
  assumes "accounted lag sent waits hist"
  shows "accounted lag sent (add_mset now waits) (add_mset (now, T) hist)"
proof -
  from assms obtain log adm where h: "map snd log = sent" "image_mset fst adm = waits" "mset (map fst log) + adm \<subseteq># hist"
      "\<forall>e \<in> set log. snd (fst e) \<le> snd e \<and> snd e \<le> fst (fst e) + lag"
    by (auto simp: accounted_def)
  then show ?thesis unfolding accounted_def
    by (intro exI [of _ log] exI [of _ "add_mset (now, T) adm"]) auto
qed

lemma accounted_sent:
  assumes "accounted lag sent (add_mset now waits) hist" "\<forall>p \<in># hist. snd p \<le> T" "T \<le> now + lag"
  shows "accounted lag (sent @ [T]) waits hist"
proof -
  from assms obtain log adm where h: "map snd log = sent" "image_mset fst adm = add_mset now waits" "mset (map fst log) + adm \<subseteq># hist"
      "\<forall>e \<in> set log. snd (fst e) \<le> snd e \<and> snd e \<le> fst (fst e) + lag"
    by (auto simp: accounted_def)
  obtain p rest where p: "adm = add_mset p rest" "fst p = now" "image_mset fst rest = waits" using msed_map_invR [OF h(2)] by metis
  then have "p \<in># hist" using h(3) by (metis mset_subset_eqD union_iff union_single_eq_member)
  then have "snd p \<le> T" using assms(2) by blast
  then show ?thesis using h p assms(3) unfolding accounted_def
    by (intro exI [of _ "log @ [(p, T)]"] exI [of _ rest]) (auto simp: add_mset_commute union_ac)
qed

text \<open>The invariant of all tasks.\<close>

definition traffic_ok :: "Duration \<Rightarrow> nat \<Rightarrow> Duration \<Rightarrow> 'st traffic \<Rightarrow> bool" where
  "traffic_ok lag n d S \<longleftrightarrow>
     (let (t, w) = net S; l = rate_limiter t
      in max_calls l = n \<and> time_window l = d \<and> length (sent_at w) = length (wire w) \<and> readings_past (clock w) (pending S) \<and>
         (\<exists>hist. admissions lag l hist (clock w) \<and> accounted lag (sent_at w) (all_unused (pending S)) (mset hist)))"

text \<open>A step that neither asks the limiter nor sends.\<close>

lemma traffic_quiet:
  assumes "traffic_ok lag n d S" "rate_limiter (fst s') = rate_limiter (fst (net S))" "wire (snd s') = wire (snd (net S))"
    and "sent_at (snd s') = sent_at (snd (net S))" "clock (snd (net S)) \<le> clock (snd s')" "all_unused qs \<subseteq># all_unused (pending S)"
    and "readings_past (clock (snd s')) qs"
  shows "traffic_ok lag n d (S\<lparr>net := s', pending := qs\<rparr>)"
  using assms accounted_fewer [OF _ assms(6)] admissions_later [OF _ assms(5)]
  by (cases "net S"; cases s') (fastforce simp: traffic_ok_def Let_def)

lemma pass_over_quiet:
  assumes "pass_over c a now step = (r, s')"
  shows "rate_limiter (fst s') = rate_limiter (fst (step_state step))" "wire (snd s') = wire (snd (step_state step))"
    "sent_at (snd s') = sent_at (snd (step_state step))" "clock (snd s') = now" "r = None \<or> r = Some (c, At_Limiter (a + 1))"
  using assms by (auto simp: pass_over_def split: loop_step.splits)

lemma answered_ok:
  assumes ok: "traffic_ok lag n d S" and q: "pending S = before @ q # after" and a: "pass_over c a (clock (snd (net S))) step = (r, s')"
    and same: "rate_limiter (fst (step_state step)) = rate_limiter (fst (net S))" "wire (snd (step_state step)) = wire (snd (net S))"
      "sent_at (snd (step_state step)) = sent_at (snd (net S))"
  shows "traffic_ok lag n d (S\<lparr>net := s', pending := before @ (case r of None \<Rightarrow> [] | Some q' \<Rightarrow> [q']) @ after\<rparr>)"
proof -
  have "readings_past (clock (snd (net S))) (pending S)" using ok by (auto simp: traffic_ok_def Let_def split: prod.splits)
  then show ?thesis using pass_over_quiet [OF a] same q by (intro traffic_quiet [OF ok]) auto
qed

lemma call_step_ok:
  assumes ok: "traffic_ok lag n d S" and q: "pending S = before @ (c, p) # after" and e: "call_step ext (c, p) (net S) = (r, s')"
    and lag: "\<And>a now. p = At_Wire a now \<Longrightarrow> clock (snd (net S)) \<le> now + lag"
  shows "traffic_ok lag n d (S\<lparr>net := s', pending := before @ (case r of None \<Rightarrow> [] | Some q' \<Rightarrow> [q']) @ after\<rparr>)"
proof -
  obtain t w where s: "net S = (t, w)" by (cases "net S")
  let ?T = "clock w" and ?l = "rate_limiter t"
  from ok s obtain hist where h: "max_calls ?l = n" "time_window ?l = d" "length (sent_at w) = length (wire w)"
      "readings_past ?T (pending S)" "admissions lag ?l hist ?T" "accounted lag (sent_at w) (all_unused (pending S)) (mset hist)"
    by (auto simp: traffic_ok_def Let_def)
  note past = h(4) [unfolded q readings_past_simps]
  show ?thesis
  proof (cases p)
    case (At_Limiter a)
    then show ?thesis using e past q unfolding s by (intro traffic_quiet [OF ok]) (auto simp: s split: if_splits)
  next
    case (Has_Read a now)
    have now: "now \<le> ?T" using past Has_Read by simp
    let ?hist = "if fst (acquire now ?l) then hist @ [(now, ?T)] else hist"
    have r: "r = Some (c, if fst (acquire now ?l) then At_Breaker a now else At_Limiter (a + 1))"
        "s' = (t\<lparr>rate_limiter := snd (acquire now ?l)\<rparr>, w)"
      using e Has_Read s by (auto simp: Let_def case_prod_beta)
    have "accounted lag (sent_at w) (all_unused (before @ (case r of None \<Rightarrow> [] | Some q' \<Rightarrow> [q']) @ after)) (mset ?hist)"
      using h(6) accounted_more [OF h(6), of now ?T] r(1) Has_Read q by simp
    then show ?thesis using h(1-3) past r admissions_acquire [OF h(5) now]
      by (auto simp: traffic_ok_def Let_def split: if_splits)
  next
    case (At_Breaker a now)
    then show ?thesis using e past q unfolding s
      by (intro traffic_quiet [OF ok])
        (auto simp: s Let_def case_prod_beta count_failed_def split: if_splits call.splits)
  next
    case (At_Wire a now)
    have T: "\<forall>x \<in># mset hist. snd x \<le> ?T" using h(5) by (simp add: admissions_def)
    have acc: "accounted lag (sent_at w @ [?T]) (all_unused (before @ after)) (mset hist)"
      using accounted_sent [OF _ T] h(6) lag [OF At_Wire] At_Wire q s by simp
    have new: "rate_limiter (fst s') = ?l \<and> sent_at (snd s') = sent_at w @ [?T] \<and> length (wire (snd s')) = Suc (length (wire w)) \<and>
        clock (snd s') = ?T \<and> (\<exists>q'. r = Some q' \<and> unused (snd q') = {#} \<and> (\<forall>b x. snd q' \<noteq> Has_Read b x))"
    proof (cases c)
      case (Post label body)
      obtain res t1 w1 where x: "attempt_post ext label body (t, w) = (res, t1, w1)" by (metis prod.exhaust)
      show ?thesis using e At_Wire Post x s attempt_post_facts(1) [OF x] attempt_pace(1,2) [of ext label body "(t, w)"] by auto
    next
      case (Get url)
      obtain res t1 w1 where x: "get_attempt ext url (t, w) = (res, t1, w1)" by (metis prod.exhaust)
      show ?thesis using e At_Wire Get x s get_attempt_facts(1,5) [OF x] attempt_pace(3) [of ext url "(t, w)"] by auto
    qed
    then show ?thesis using h(1-3,5) past acc by (auto simp: traffic_ok_def Let_def case_prod_beta)
  next
    case (Post_Answered a res)
    show ?thesis
    proof (cases c)
      case (Post label body)
      show ?thesis
        by (rule answered_ok [OF ok q, of c a "after_post ext label (total_attempts (tr_config t)) a (res, t, w)"])
          (use e Post Post_Answered s after_post_facts(1) after_pace(1,2) in simp_all)
    next
      case (Get url)
      then show ?thesis using e Post_Answered past q unfolding s by (intro traffic_quiet [OF ok]) (auto simp: s)
    qed
  next
    case (Get_Answered a res)
    show ?thesis
    proof (cases c)
      case (Get url)
      have "wire (snd (step_state (after_get ext (total_attempts (tr_config t)) a (res, t, w)))) = wire w"
        by (auto simp: after_get_def Let_def sleep_backoff_def split: GetAttempt.splits)
      then show ?thesis
        by (intro answered_ok [OF ok q, of c a "after_get ext (total_attempts (tr_config t)) a (res, t, w)"])
          (use e Get Get_Answered s after_pace(3,4) in simp_all)
    next
      case (Post label body)
      then show ?thesis using e Get_Answered past q unfolding s by (intro traffic_quiet [OF ok]) (auto simp: s)
    qed
  qed
qed

lemma traffic_step_ok: "traffic_step ext lag S S' \<Longrightarrow> traffic_ok lag n d S \<Longrightarrow> traffic_ok lag n d S'"
proof (induction rule: traffic_step.induct)
  case (call S c)
  have "readings_past (clock (snd (net S))) (pending S)" using call by (auto simp: traffic_ok_def Let_def split: prod.splits)
  then have "traffic_ok lag n d (S\<lparr>net := net S, pending := pending S @ [(c, At_Limiter 0)]\<rparr>)"
    by (intro traffic_quiet [OF call]) simp_all
  then show ?case by simp
next
  case (proceed S before q after q' s')
  then show ?case using call_step_ok [where S = S and c = "fst q" and p = "snd q" and r = "Some q'"] by simp
next
  case (over S before q after s')
  then show ?case using call_step_ok [where S = S and c = "fst q" and p = "snd q" and r = None]
    by (cases q; cases "snd q"; cases "fst q"; cases "net S") (auto simp: Let_def case_prod_beta)
next
  case (elsewhere t' S w')
  have "readings_past (clock w') (pending S)"
    using elsewhere(4,5) readings_past_later by (auto simp: traffic_ok_def Let_def split: prod.splits)
  then have "traffic_ok lag n d (S\<lparr>net := (t', w'), pending := pending S\<rparr>)"
    using elsewhere by (intro traffic_quiet) simp_all
  then show ?case by simp
qed

lemma traffic_run_ok: "traffic_run ext lag s S \<Longrightarrow> traffic_ok lag n d \<lparr>net = s, pending = []\<rparr> \<Longrightarrow> traffic_ok lag n d S"
  unfolding traffic_run_def by (induction rule: rtranclp_induct) (auto intro: traffic_step_ok)

lemma traffic_ok_new:
  assumes "rate_limiter t = limiter_new n d" "wire w = []" "sent_at w = []"
  shows "traffic_ok lag n d \<lparr>net = (t, w), pending = []\<rparr>"
  using assms admissions_new [of lag n d "clock w"]
  by (auto simp: traffic_ok_def Let_def limiter_new_def accounted_def intro!: exI [of _ "[]"])

text \<open>The bound.\<close>

lemma traffic_bound:
  assumes "traffic_ok lag n d S"
  shows "length (sent_at (snd (net S))) = length (wire (snd (net S))) \<and>
    length (filter (in_window t1 (d - lag)) (sent_at (snd (net S)))) \<le> n"
proof -
  obtain t w where s: "net S = (t, w)" by (cases "net S")
  from assms s obtain hist where h: "max_calls (rate_limiter t) = n" "time_window (rate_limiter t) = d" "length (sent_at w) = length (wire w)"
      "admissions lag (rate_limiter t) hist (clock w)" "accounted lag (sent_at w) (all_unused (pending S)) (mset hist)"
    by (auto simp: traffic_ok_def Let_def)
  from h(5) obtain log adm where l: "map snd log = sent_at w" "mset (map fst log) + adm \<subseteq># mset hist"
      "\<forall>e \<in> set log. snd (fst e) \<le> snd e \<and> snd e \<le> fst (fst e) + lag"
    by (auto simp: accounted_def)
  let ?P = "\<lambda>p :: nat \<times> nat. t1 \<le> fst p + lag \<and> snd p + lag < t1 + d"
  have "length (filter (in_window t1 (d - lag)) (sent_at w)) = length (filter (\<lambda>e. in_window t1 (d - lag) (snd e)) log)"
    unfolding l(1) [symmetric] by (simp add: filter_map comp_def)
  also have "\<dots> \<le> length (filter (\<lambda>e. ?P (fst e)) log)"
    using l(3) by (intro filter_length_mono) (fastforce simp: in_window_def)
  also have "\<dots> = size (filter_mset ?P (mset (map fst log)))" 
  proof -
    have "filter_mset ?P (mset (map fst log)) = mset (filter ?P (map fst log))" by (simp only: mset_filter)
    then show ?thesis by (simp only: size_mset) (simp add: filter_map comp_def)
  qed
  also have "\<dots> \<le> size (filter_mset ?P (mset hist))"
  proof -
    have "mset (map fst log) \<subseteq># mset (map fst log) + adm" by simp
    from subset_mset.trans [OF this l(2)] show ?thesis by (intro size_mset_mono multiset_filter_mono)
  qed
  also have "\<dots> = length (filter ?P hist)" by (simp flip: mset_filter)
  also have "\<dots> \<le> n" using h(1,2,4) by (simp add: admissions_def)
  finally show ?thesis using h(3) s by simp
qed

end
