(* ===== verification/Concurrency_Theorems.thy ===== *)
theory Concurrency_Theorems
  imports Agent_Theorems Agent_Recovery Flush_System Request_Rate
begin

text \<open>
  The properties of concurrent flushes: the system refines the
  abstract delivery of each kind; every item is accounted for; batches in flight are bounded by the
  configuration; with one permit the order of the items is kept, with two it need not be; and what \<^verbatim>\<open>start\<close>
  does to items that are still buffered.
\<close>

section \<open>The system as a delivery\<close>

text \<open>C5: Under every interleaving of producers, flush tasks and the rest of the program, the agent is the
  abstract delivery of events and the abstract delivery of metrics, with the capacity and the permits it
  started with: each kind's handed over, buffered, in-flight and settled items are those of a run of the
  specification, and its drop counter counts what that run lost.\<close>

theorem concurrent_flushes_refine_delivery:
  assumes "system_run ext s0 S" and "cap = buffer_size (config (fst s0))" and "0 < cap" and "permits = flush_permits (fst s0)"
    and "length (events (core (fst s0))) \<le> cap" and "length (metrics (core (fst s0))) \<le> cap"
  shows "\<exists>le lm. delivery_run cap permits (map item (events (core (fst s0)))) (fst (events_view S)\<lparr>lost := le\<rparr>) \<and>
           events_dropped (core (fst (agent S))) = events_dropped (core (fst s0)) + of_nat (size le) \<and>
           delivery_run cap permits (map item (metrics (core (fst s0)))) (fst (metrics_view S)\<lparr>lost := lm\<rparr>) \<and>
           metrics_dropped (core (fst (agent S))) = metrics_dropped (core (fst s0)) + of_nat (size lm)"
  using system_delivers [OF assms] by (auto simp: delivers_def events_view_def metrics_view_def)

text \<open>Runs for the witnesses: a task that takes a permit and the buffered events, up to their sending.\<close>

lemma run_advance:
  "system_run ext s0 S \<Longrightarrow> tasks S = before @ t # after \<Longrightarrow> \<not> sending t \<Longrightarrow> task_step ext t (agent S) = (Some t', s') \<Longrightarrow>
   system_run ext s0 (S\<lparr>agent := s', tasks := before @ t' # after\<rparr>)"
  by (rule system_run.step [OF _ system_step.advance])

lemma run_launch:
  assumes "system_run ext s0 S" "agent S = (sh, w)" "0 < flush_permits sh" "events_retry_after (core sh) = None" "events (core sh) \<noteq> []"
  shows "\<exists>S' sh' w' ks. system_run ext s0 S' \<and> agent S' = (sh', w') \<and> config sh' = config sh \<and> flush_permits sh' = flush_permits sh - 1 \<and>
    events (core sh') = [] \<and> events_retry_after (core sh') = None \<and>
    tasks S' = tasks S @ [Flushing_Events (Sending (map item (events (core sh))) ks)] \<and>
    handed_events S' = handed_events S \<and> settled_events S' = settled_events S"
proof -
  let ?xs = "map item (events (core sh))" and ?ks = "map redis_key (events (core sh))"
  define S0 where "S0 = S\<lparr>tasks := tasks S @ [Awaiting]\<rparr>"
  have 0: "system_run ext s0 S0" unfolding S0_def by (rule system_run.step [OF assms(1) system_step.trigger]) simp
  define sh1 where "sh1 = sh\<lparr>flush_permits := flush_permits sh - 1\<rparr>"
  define S1 where "S1 = S0\<lparr>agent := (sh1, w), tasks := tasks S @ Flushing_Events AtGate # []\<rparr>"
  have 1: "system_run ext s0 S1" unfolding S1_def
    by (rule run_advance [OF 0, of "tasks S" Awaiting "[]"])
      (use assms(3) in \<open>simp_all add: S0_def sending_def assms(2) try_acquire_def sh1_def\<close>)
  have a1: "agent S1 = (sh1, w)" "tasks S1 = tasks S @ Flushing_Events AtGate # []" by (simp_all add: S1_def)
  define S2 where "S2 = S1\<lparr>agent := (sh1, w), tasks := tasks S @ Flushing_Events Draining # []\<rparr>"
  have 2: "system_run ext s0 S2" unfolding S2_def
    by (rule run_advance [OF 1 a1(2)]) (simp_all add: sending_def a1(1) sh1_def gate_closed_def assms(4))
  define sh3 where "sh3 = sh1\<lparr>core := (core sh)\<lparr>events := [], events_flushed := events_flushed (core sh) + of_nat (length (events (core sh)))\<rparr>\<rparr>"
  define S3 where "S3 = S2\<lparr>agent := (sh3, w), tasks := tasks S @ Flushing_Events (Stamping ?xs ?ks) # []\<rparr>"
  have 3: "system_run ext s0 S3" unfolding S3_def
    by (rule run_advance [OF 2, of "tasks S" "Flushing_Events Draining" "[]"]) (simp_all add: S2_def sending_def sh1_def sh3_def drain_events_def drain_def assms(5))
  define sh4 where "sh4 = sh3\<lparr>core := core_set_last_flush ext w (core sh3)\<rparr>"
  define S4 where "S4 = S3\<lparr>agent := (sh4, w), tasks := tasks S @ Flushing_Events (Sending ?xs ?ks) # []\<rparr>"
  have 4: "system_run ext s0 S4" unfolding S4_def
    by (rule run_advance [OF 3, of "tasks S" "Flushing_Events (Stamping ?xs ?ks)" "[]"]) (simp_all add: S3_def sending_def sh4_def)
  show ?thesis
    by (rule exI [of _ S4], rule exI [of _ sh4], rule exI [of _ w], rule exI [of _ ?ks])
      (use 4 in \<open>simp add: S4_def S3_def S2_def S1_def S0_def sh4_def sh3_def sh1_def core_set_last_flush_def assms(4)\<close>)
qed

lemma run_accepted:
  assumes "system_run ext s0 S" "tasks S = before @ Flushing_Events (Sending xs ks) # after"
  shows "system_run ext s0 (S\<lparr>tasks := before @ Flushing_Events (Confirming Accepted xs ks) # after, settled_events := settled_events S @ xs\<rparr>)"
proof -
  obtain sh w where a: "agent S = (sh, w)" by (cases "agent S")
  have "sh\<lparr>transport := transport sh\<rparr> = sh" by simp
  then have "S\<lparr>agent := (sh\<lparr>transport := transport sh\<rparr>, w), tasks := before @ Flushing_Events (after_send Accepted xs ks) # after,
      settled_events := settled_events S @ settled_by Accepted xs\<rparr> =
    S\<lparr>tasks := before @ Flushing_Events (Confirming Accepted xs ks) # after, settled_events := settled_events S @ xs\<rparr>"
    using a by (cases S) (simp add: after_send_def settled_by_def)
  with system_run.step [OF assms(1) system_step.events_answered [OF assms(2) a, where t = "transport sh" and w' = w and outcome = Accepted]]
  show ?thesis by simp
qed

lemma sample_fits [simp]:
  "buffer_size (config sample_shared) = 2" "flush_permits sample_shared = 1"
  "events (core sample_shared) = [\<lparr>item = sample_event, redis_key = None\<rparr>]"
  "metrics (core sample_shared) = [\<lparr>item = sample_metric, redis_key = None\<rparr>]"
  "events_retry_after (core sample_shared) = None"
  by (simp_all add: sample_shared_def sample_core_def core_new_def sample_config_def config_new_def)

lemma sample_settled_run:
  "\<exists>S. system_run sample_ext (sample_shared, sample_world ()) (S :: unit system) \<and> settled_events S = [sample_event] \<and>
     handed_events S = [sample_event]"
proof -
  let ?s0 = "(sample_shared, sample_world ()) :: unit astate"
  have a: "agent (system_init ?s0) = ?s0" "tasks (system_init ?s0) = []" "handed_events (system_init ?s0) = [sample_event]"
      "settled_events (system_init ?s0) = []"
    by (simp_all add: system_init_def)
  obtain S' ks where S': "system_run sample_ext ?s0 S'" "tasks S' = [] @ Flushing_Events (Sending [sample_event] ks) # []"
      "handed_events S' = [sample_event]" "settled_events S' = []"
    using run_launch [where ext = sample_ext, OF system_run.start a(1)] a by auto
  from run_accepted [OF S'(1,2)] S'(3,4) show ?thesis
    by (intro exI conjI) (assumption, simp_all)
qed

theorem concurrent_flushes_refine_delivery_witness:
  "\<exists>(S :: unit system) le. settled_events S = [sample_event] \<and> delivery_run 2 1 [sample_event] (fst (events_view S)\<lparr>lost := le\<rparr>)"
proof -
  obtain S :: "unit system" where S: "system_run sample_ext (sample_shared, sample_world ()) S" "settled_events S = [sample_event]"
    using sample_settled_run by blast
  then show ?thesis
    using concurrent_flushes_refine_delivery [OF S(1), of 2 1] by auto
qed

text \<open>C1: Nothing is lost silently, whatever is interleaved: every event and every metric handed over is in
  its buffer, in a batch that a task holds, in a batch that the server settled, or counted by the drop
  counter of its kind; and the buffers stay within their capacity.\<close>

theorem items_accounted:
  assumes "system_run ext s0 S" and "cap = buffer_size (config (fst s0))" and "0 < cap"
    and "length (events (core (fst s0))) \<le> cap" and "length (metrics (core (fst s0))) \<le> cap"
  shows "\<exists>le lm.
    mset (handed_events S) = mset (map item (events (core (fst (agent S))))) +
      \<Sum>\<^sub># (image_mset mset (\<Sum>t\<leftarrow>tasks S. events_held t)) + mset (settled_events S) + le \<and>
    events_dropped (core (fst (agent S))) = events_dropped (core (fst s0)) + of_nat (size le) \<and>
    length (events (core (fst (agent S)))) \<le> cap \<and>
    mset (handed_metrics S) = mset (map item (metrics (core (fst (agent S))))) +
      \<Sum>\<^sub># (image_mset mset (\<Sum>t\<leftarrow>tasks S. metrics_held t)) + mset (settled_metrics S) + lm \<and>
    metrics_dropped (core (fst (agent S))) = metrics_dropped (core (fst s0)) + of_nat (size lm) \<and>
    length (metrics (core (fst (agent S)))) \<le> cap"
proof -
  from system_delivers [OF assms(1-3) refl assms(4,5)] obtain le lm where
    e: "delivery_run cap (flush_permits (fst s0)) (map item (events (core (fst s0)))) (fst (events_view S)\<lparr>lost := le\<rparr>)"
      "events_dropped (core (fst (agent S))) = events_dropped (core (fst s0)) + of_nat (size le)"
    and m: "delivery_run cap (flush_permits (fst s0)) (map item (metrics (core (fst s0)))) (fst (metrics_view S)\<lparr>lost := lm\<rparr>)"
      "metrics_dropped (core (fst (agent S))) = metrics_dropped (core (fst s0)) + of_nat (size lm)"
    by (auto simp: delivers_def events_view_def metrics_view_def)
  show ?thesis
    using e(2) m(2) delivery_account [OF e(1)] delivery_account [OF m(1)] delivery_bounds [OF e(1)] delivery_bounds [OF m(1)] assms(4,5)
    by (intro exI [of _ le] exI [of _ lm]) (simp add: events_view_def metrics_view_def flying_items_def)
qed

theorem items_accounted_witness:
  "\<exists>(S :: unit system) le. settled_events S = [sample_event] \<and>
     mset [sample_event] = mset (map item (events (core (fst (agent S))))) +
       \<Sum>\<^sub># (image_mset mset (\<Sum>t\<leftarrow>tasks S. events_held t)) + mset (settled_events S) + le"
proof -
  obtain S :: "unit system" where S: "system_run sample_ext (sample_shared, sample_world ()) S" "settled_events S = [sample_event]"
      "handed_events S = [sample_event]"
    using sample_settled_run by blast
  then show ?thesis
    using items_accounted [OF S(1), of 2] by fastforce
qed

section \<open>Order\<close>

text \<open>C4: With one flush permit, which is the default, telemetry is delivered in order: the settled items
  of a kind, then the batch in flight, then the buffer are a subsequence of what was handed over.\<close>

theorem delivery_in_order:
  assumes "system_run ext s0 S" and "flush_permits (fst s0) = 1" and "cap = buffer_size (config (fst s0))" and "0 < cap"
    and "length (events (core (fst s0))) \<le> cap" and "length (metrics (core (fst s0))) \<le> cap"
  shows "\<exists>es ms. (\<Sum>t\<leftarrow>tasks S. events_held t) = mset es \<and>
           subseq (settled_events S @ concat es @ map item (events (core (fst (agent S))))) (handed_events S) \<and>
           (\<Sum>t\<leftarrow>tasks S. metrics_held t) = mset ms \<and>
           subseq (settled_metrics S @ concat ms @ map item (metrics (core (fst (agent S))))) (handed_metrics S)"
proof -
  from system_delivers [OF assms(1,3,4) refl assms(5,6)] assms(2) obtain le lm where
    e: "delivery_run cap (Suc 0) (map item (events (core (fst s0)))) (fst (events_view S)\<lparr>lost := le\<rparr>)"
    and m: "delivery_run cap (Suc 0) (map item (metrics (core (fst s0)))) (fst (metrics_view S)\<lparr>lost := lm\<rparr>)"
    by (auto simp: delivers_def)
  show ?thesis
    using delivery_ordered [OF e] delivery_ordered [OF m] assms(5,6)
    by (auto simp: in_order_def events_view_def metrics_view_def)
qed

theorem delivery_in_order_witness:
  "\<exists>(S :: unit system) es. settled_events S = [sample_event] \<and>
     subseq (settled_events S @ concat es @ map item (events (core (fst (agent S))))) [sample_event]"
proof -
  obtain S :: "unit system" where S: "system_run sample_ext (sample_shared, sample_world ()) S" "settled_events S = [sample_event]"
      "handed_events S = [sample_event]"
    using sample_settled_run by blast
  then show ?thesis
    using delivery_in_order [OF S(1), of 2] by fastforce
qed

lemma enqueue_keeps_gate:
  assumes "length (events (core sh)) < buffer_size (config sh)"
  shows "\<exists>sh' w' key. enqueue_event_pass ext e (sh, w) = EnqDone (Inr ()) (sh', w') \<and> same_agent sh sh' \<and>
        events (core sh') = events (core sh) @ [\<lparr>item = e, redis_key = key\<rparr>] \<and> events_retry_after (core sh') = events_retry_after (core sh)"
proof -
  obtain key c1 w1 where p: "persist_item ext NAMESPACE_EVENTS ''event'' (event_to_string ext e) (core sh) w = (key, c1, w1)"
    by (metis prod_cases3)
  obtain n where "c1 = (core sh)\<lparr>redis_persist_failures := n\<rparr>" using persist_item_frame(1) [OF p] by blast
  with assms p show ?thesis by (auto simp: enqueue_event_pass_def Let_def same_agent_def)
qed

text \<open>With two permits the order can be lost: the batch that was taken second is settled first.\<close>

lemma two_permits_reorder:
  assumes "config sh = c" "0 < buffer_size c" "events (core sh) = [\<lparr>item = e1, redis_key = k\<rparr>]" "flush_permits sh = 2"
    and "events_retry_after (core sh) = None"
  shows "\<exists>S. system_run ext (sh, w) S \<and> handed_events S = [e1, e2] \<and> settled_events S = [e2, e1]"
proof -
  let ?S0 = "system_init (sh, w)"
  have "agent ?S0 = (sh, w)" "tasks ?S0 = []" "handed_events ?S0 = [e1]" "settled_events ?S0 = []"
    using assms(3) by (simp_all add: system_init_def)
  then obtain S1 sh1 w1 k1 where 1: "system_run ext (sh, w) S1" "agent S1 = (sh1, w1)" "config sh1 = c" "flush_permits sh1 = 1"
      "events (core sh1) = []" "events_retry_after (core sh1) = None" "tasks S1 = [Flushing_Events (Sending [e1] k1)]"
      "handed_events S1 = [e1]" "settled_events S1 = []"
    using run_launch [where ext = ext, OF system_run.start [of ext "(sh, w)"]] assms by fastforce
  obtain sh2 w2 k2 where p: "enqueue_event_pass ext e2 (sh1, w1) = EnqDone (Inr ()) (sh2, w2)" "same_agent sh1 sh2"
      "events (core sh2) = [\<lparr>item = e2, redis_key = k2\<rparr>]" "events_retry_after (core sh2) = None"
    using enqueue_keeps_gate [of sh1 ext e2 w1] 1 assms(2) by auto
  let ?S2 = "S1\<lparr>agent := (sh2, w2), handed_events := handed_events S1 @ [e2]\<rparr>"
  have 2: "system_run ext (sh, w) ?S2"
    by (rule system_run.step [OF 1(1) system_step.event_in]) (simp add: 1(2) p(1))
  then obtain S3 k3 where 3: "system_run ext (sh, w) S3" "handed_events S3 = [e1, e2]" "settled_events S3 = []"
      "tasks S3 = [Flushing_Events (Sending [e1] k1)] @ Flushing_Events (Sending [e2] k3) # []"
    using run_launch [OF 2, of sh2 w2] p 1 by (auto simp: same_agent_def)
  let ?S4 = "S3\<lparr>tasks := [Flushing_Events (Sending [e1] k1)] @ Flushing_Events (Confirming Accepted [e2] k3) # [],
      settled_events := settled_events S3 @ [e2]\<rparr>"
  have 4: "system_run ext (sh, w) ?S4" by (rule run_accepted [OF 3(1,4)])
  have t4: "tasks ?S4 = [] @ Flushing_Events (Sending [e1] k1) # [Flushing_Events (Confirming Accepted [e2] k3)]" by simp
  from run_accepted [OF 4 t4] 3(2,3) show ?thesis by (intro exI conjI) (assumption, simp_all)
qed

section \<open>Permits\<close>

text \<open>C12: Every flush of a constructed agent runs under a permit of the flush semaphore: whichever of the three
  triggers started the tasks, and however their steps, producers and other operations are interleaved,
  the free permits and the tasks past their acquisition are together as many as
  \<^verbatim>\<open>max_concurrent_flushes\<close>; so no more batches of a kind are in flight at once. A flush that the runtime
  drops half-way is not among the steps.\<close>

theorem batches_in_flight_bounded:
  assumes "agent_new ext fso home cfg fs w = (Inr sh, fs', w0)" and "system_run ext (sh, w0) S"
  shows "flush_permits (fst (agent S)) + length (filter holds_permit (tasks S)) = max_concurrent_flushes cfg \<and>
         size (\<Sum>t\<leftarrow>tasks S. events_held t) \<le> max_concurrent_flushes cfg \<and>
         size (\<Sum>t\<leftarrow>tasks S. metrics_held t) \<le> max_concurrent_flushes cfg"
proof -
  from assms(1) obtain c where v: "validate cfg = (Inr (), c)" and sh: "config sh = c" "core sh = core_new"
      "flush_permits sh = max (max_concurrent_flushes c) 1"
    by (auto simp: agent_new_def draw_uuid_def draw_nonce_def split: prod.splits sum.splits)
  have "c = cfg\<lparr>endpoint := endpoint c\<rparr>" using validate_config [of cfg] v by simp
  then have "max_concurrent_flushes c = max_concurrent_flushes (cfg\<lparr>endpoint := endpoint c\<rparr>)" by (rule arg_cong)
  then have "0 < buffer_size c" "0 < max_concurrent_flushes c" "max_concurrent_flushes c = max_concurrent_flushes cfg"
    using validate_Inr(1) [OF v] by (simp_all add: valid_config_def)
  then have "system_ok (buffer_size c) (max_concurrent_flushes cfg) S"
    using system_delivers [OF assms(2), of "buffer_size c" "max_concurrent_flushes cfg"] sh by (simp add: core_new_def)
  then have n: "flush_permits (fst (agent S)) + permits_held (tasks S) = max_concurrent_flushes cfg" by (simp add: system_ok_def)
  with size_all_held [of "tasks S"] show ?thesis by (simp add: permits_held_def)
qed

text \<open>An agent with one permit, in the middle of sending a batch.\<close>

lemma sample_agent_fresh:
  assumes "agent_new ext fso home cfg fs w = (Inr sh, fs', w0)"
  shows "core sh = core_new" "flush_permits sh = max (max_concurrent_flushes cfg) 1" "buffer_size (config sh) = buffer_size cfg"
proof -
  from assms obtain c where v: "validate cfg = (Inr (), c)" and sh: "config sh = c" "core sh = core_new"
      "flush_permits sh = max (max_concurrent_flushes c) 1"
    by (auto simp: agent_new_def draw_uuid_def draw_nonce_def split: prod.splits sum.splits)
  have c: "c = cfg\<lparr>endpoint := endpoint c\<rparr>" using validate_config [of cfg] v by simp
  have "max_concurrent_flushes c = max_concurrent_flushes cfg" "buffer_size c = buffer_size cfg" by (subst c, simp)+
  then show "core sh = core_new" "flush_permits sh = max (max_concurrent_flushes cfg) 1" "buffer_size (config sh) = buffer_size cfg"
    using sh by simp_all
qed

theorem batches_in_flight_bounded_witness:
  "\<exists>(S :: unit system) ks. tasks S = [Flushing_Events (Sending [sample_event] ks)] \<and> flush_permits (fst (agent S)) + 1 = 1 \<and>
     size (\<Sum>t\<leftarrow>tasks S. events_held t) \<le> 1"
proof -
  let ?cfg = "sample_config\<lparr>endpoint := ''https://a.b/api/v1/'', high_watermark_ratio := Fin 1\<rparr>"
  obtain sh fs' w0 where n: "agent_new sample_ext sample_fs None ?cfg None (sample_world ()) = (Inr (sh :: unit Shared), fs', w0)"
    using sample_agent_new by blast
  note fresh = sample_agent_fresh [OF n]
  let ?S = "system_init (sh, w0)"
  have "length (events (core sh)) < buffer_size (config sh)" using fresh(1,3) by (simp add: core_new_def sample_config_def config_new_def)
  from enqueue_keeps_gate [OF this, of sample_ext sample_event w0] obtain sh1 w1 key where p:
      "enqueue_event_pass sample_ext sample_event (sh, w0) = EnqDone (Inr ()) (sh1, w1)" "same_agent sh sh1"
      "events (core sh1) = [\<lparr>item = sample_event, redis_key = key\<rparr>]" "events_retry_after (core sh1) = None"
    using fresh(1) by (auto simp: core_new_def)
  have 1: "system_run sample_ext (sh, w0) (?S\<lparr>agent := (sh1, w1), handed_events := handed_events ?S @ [sample_event]\<rparr>)"
    by (rule system_run.step [OF system_run.start system_step.event_in]) (simp add: system_init_def p(1))
  have "0 < flush_permits sh1" using p(2) fresh(2) by (simp add: same_agent_def)
  then obtain S ks where S: "system_run sample_ext (sh, w0) S" "tasks S = [Flushing_Events (Sending [sample_event] ks)]"
    using run_launch [OF 1, of sh1 w1] p(3,4) by (auto simp: system_init_def)
  from batches_in_flight_bounded [OF n S(1)] S(2) show ?thesis
    by (intro exI [of _ S] exI [of _ ks]) (simp add: sample_config_def config_new_def)
qed

section \<open>Starting with items in the buffer\<close>

text \<open>C19: \<^verbatim>\<open>start\<close> reloads every record of the store without looking at the buffer. So a metric that was
  enqueued while the agent did not run, before the first start or between a \<^verbatim>\<open>stop\<close> and the next start, is
  buffered twice after the start and will be sent twice: for a store that keeps the contract
  \<^const>\<open>agent_store\<close>, a configuration without a Redis section (whose handler would replace the attached one),
  a serializer that reads back what it wrote, and live records that fit beside what is buffered.\<close>

theorem start_doubles_buffered:
  assumes "agent_store h live st_inv ns_ok" and "redis_handler (core sh) = Some h" and "st_inv (store w)"
    and "metric_to_string ext m = Inr u" and "metric_from_str ext u = Inr m"
    and "enqueue_metric_pass ext m (sh, w) = EnqDone (Inr ()) (sh1, w1)"
    and "\<not> running sh1" and "redis (config sh1) = None"
    and "records_fit live (length (events (core sh1))) (clock w1) (store w1) NAMESPACE_EVENTS (buffer_size (config sh1))"
    and "records_fit live (length (metrics (core sh1))) (clock w1) (store w1) NAMESPACE_METRICS (buffer_size (config sh1))"
    and "start ext connect \<lparr>shared = sh1, loops = l\<rparr> w1 = (a, w2)"
  shows "2 \<le> count_list (map item (metrics (core (shared a)))) m"
  by (rule agent_store.start_doubles [OF assms])

text \<open>The only record of an empty store is the one just written.\<close>

lemma first_metric_fits:
  assumes "redis_handler (core sh) = Some in_memory_handler" "store w = []" "metric_to_string ext m = Inr u"
    and "enqueue_metric_pass ext m (sh, w) = EnqDone (Inr ()) (sh1, w1)" "n < cap"
  shows "records_fit store_live n t (store w1) NAMESPACE_EVENTS cap" "records_fit store_live n t (store w1) NAMESPACE_METRICS cap"
proof -
  have inv: "store_inv (store w)" by (simp add: assms(2) store_inv_def)
  have empty: "store_live t (store w) n k = None" for n k by (simp add: assms(2) store_live_def)
  obtain k where "\<forall>t n k'. plain_ns n \<longrightarrow> store_live t (store w1) n k' =
      (if n = NAMESPACE_METRICS \<and> k' = k then (if t < clock w + from_secs PERSIST_TTL_SECONDS then Some u else None)
       else store_live t (store w) n k')"
    using mem_agent.metric_pass_persists [OF assms(1) inv assms(3,4)] by blast
  then have live: "k' = k" if "plain_ns n" "store_live t (store w1) n k' \<noteq> None" for n k'
    using that empty by metis
  show "records_fit store_live n t (store w1) NAMESPACE_EVENTS cap"
    using live [OF plain_ns_used(1)] assms(5) by (intro mem_agent.records_fit_single [of _ _ _ k]) auto
  show "records_fit store_live n t (store w1) NAMESPACE_METRICS cap"
    using live [OF plain_ns_used(2)] assms(5) by (intro mem_agent.records_fit_single [of _ _ _ k]) auto
qed

theorem start_doubles_buffered_witness:
  "let sh = sample_shared\<lparr>core := core_new\<lparr>redis_handler := Some in_memory_handler\<rparr>, running := False\<rparr>
   in \<exists>sh1 w1 a w2. enqueue_metric_pass sample_ext sample_metric (sh, sample_world []) = EnqDone (Inr ()) (sh1, w1) \<and>
        start sample_ext (\<lambda>_. Inl (Transport ''none'')) \<lparr>shared = sh1, loops = False\<rparr> w1 = (a, w2) \<and>
        2 \<le> count_list (map item (metrics (core (shared a)))) sample_metric"
proof -
  let ?sh = "sample_shared\<lparr>core := core_new\<lparr>redis_handler := Some in_memory_handler\<rparr>, running := False\<rparr>"
  let ?w = "sample_world [] :: InMemoryRedisStore World"
  have room: "length (metrics (core ?sh)) < buffer_size (config ?sh)" by (simp add: core_new_def)
  then obtain sh1 w1 key where p: "enqueue_metric_pass sample_ext sample_metric (?sh, ?w) = EnqDone (Inr ()) (sh1, w1)" "same_agent ?sh sh1"
      "metrics (core sh1) = metrics (core ?sh) @ [buffered (sample_metric, key)]" "clock w1 = clock ?w"
    using metric_pass_room [of ?sh sample_ext sample_metric ?w] by blast
  have one: "metrics (core sh1) = [buffered (sample_metric, key)]" using p(3) by (simp add: core_new_def)
  have none: "events (core sh1) = []"
    using metric_pass_isolated(1) [of sample_ext sample_metric ?sh ?w "Inr ()" sh1 w1] p(1) by (simp add: same_events_def core_new_def)
  have cfg: "config sh1 = sample_config" "\<not> running sh1" using p(2) by (simp_all add: same_agent_def sample_shared_def)
  obtain a w2 where st: "start sample_ext (\<lambda>_. Inl (Transport ''none'')) \<lparr>shared = sh1, loops = False\<rparr> w1 = (a, w2)" by fastforce
  have h: "redis_handler (core ?sh) = Some in_memory_handler" "store ?w = []" "metric_to_string sample_ext sample_metric = Inr ''m''"
    by (simp_all add: sample_world_def sample_ext_def)
  have "2 \<le> count_list (map item (metrics (core (shared a)))) sample_metric"
    using first_metric_fits [OF h p(1)] st cfg one none
    by (intro start_doubles_buffered [OF mem_agent.agent_store_axioms h(1) _ h(3) _ p(1)])
      (auto simp: sample_world_def store_inv_def sample_ext_def sample_metric_def buffered_def sample_config_def config_new_def)
  with p(1) st show ?thesis by (auto simp: Let_def)
qed

section \<open>Recovery\<close>

text \<open>C13: Recovery without encryption: whatever gates, failure streaks and circuit state an outage left
  behind, from some time on a flush against a server that accepts sends every event and metric that was
  waiting, one request for each kind, and leaves both buffers empty. The server accepts with a code from
  201 to 299 or with 200 and an acknowledgement without errors; the payloads serialize; the limiter
  allows at least two calls in its window (the one of a constructed agent allows 100).\<close>

theorem outage_recovers:
  assumes "accepting ext" and "serializes ext" and "encryptor (transport sh) = None" and "2 \<le> max_calls (rate_limiter (transport sh))"
  shows "\<exists>T. \<forall>w. if T \<le> clock w
           then events (core (fst (do_flush ext (sh, w)))) = [] \<and> metrics (core (fst (do_flush ext (sh, w)))) = [] \<and>
                (\<exists>reqs. wire (snd (do_flush ext (sh, w))) = wire w @ reqs \<and>
                   list_all2 (carries ext (transport sh)) (flush_batches sh) reqs)
           else True"
proof -
  obtain T1 where T1: "\<And>now. T1 \<le> now \<Longrightarrow> \<not> gate_closed now (events_retry_after (core sh))" using eventually_open by blast
  obtain T2 where T2: "\<And>now. T2 \<le> now \<Longrightarrow> \<not> gate_closed now (metrics_retry_after (core sh))" using eventually_open by blast
  obtain T3 where T3: "\<And>now. T3 \<le> now \<Longrightarrow> ready 2 now (transport sh)"
    using eventually_ready [of "transport sh"] ready_mono [OF _ assms(4)] by blast
  show ?thesis
  proof (intro exI [of _ "max T1 (max T2 T3)"] allI)
    fix w :: "'a World"
    show "if max T1 (max T2 T3) \<le> clock w
           then events (core (fst (do_flush ext (sh, w)))) = [] \<and> metrics (core (fst (do_flush ext (sh, w)))) = [] \<and>
                (\<exists>reqs. wire (snd (do_flush ext (sh, w))) = wire w @ reqs \<and>
                   list_all2 (carries ext (transport sh)) (flush_batches sh) reqs)
           else True"
      using do_flush_recovers [OF T1 T2 assms(1-3) T3, of w] by auto
  qed
qed

theorem outage_recovers_witness:
  "\<exists>T. events (core (fst (do_flush sample_ext (sample_shared, (sample_world ())\<lparr>clock := T\<rparr>)))) = [] \<and>
     metrics (core (fst (do_flush sample_ext (sample_shared, (sample_world ())\<lparr>clock := T\<rparr>)))) = [] \<and>
     length (wire (snd (do_flush sample_ext (sample_shared, (sample_world ())\<lparr>clock := T\<rparr>)))) = 2"
proof -
  have ok: "accepting sample_ext" "serializes sample_ext"
    by (simp_all add: accepting_def serializes_def sample_ext_def accepted_response_def)
  have sh: "encryptor (transport sample_shared) = None" "2 \<le> max_calls (rate_limiter (transport sample_shared))"
      "flush_batches sample_shared = [Events [sample_event], Metrics [sample_metric]]"
    by (simp_all add: sample_shared_def sample_transport_def sample_core_def core_new_def limiter_new_def const_defs flush_batches_def)
  obtain T where T: "\<And>w :: unit World. T \<le> clock w \<Longrightarrow>
      events (core (fst (do_flush sample_ext (sample_shared, w)))) = [] \<and> metrics (core (fst (do_flush sample_ext (sample_shared, w)))) = [] \<and>
      (\<exists>reqs. wire (snd (do_flush sample_ext (sample_shared, w))) = wire w @ reqs \<and>
         list_all2 (carries sample_ext (transport (sample_shared :: unit Shared))) (flush_batches (sample_shared :: unit Shared)) reqs)"
    using outage_recovers [OF ok sh(1,2)] by meson
  from T [of "(sample_world ())\<lparr>clock := T\<rparr>"] show ?thesis
    by (intro exI [of _ T]) (auto simp: sh(3) sample_world_def dest: list_all2_lengthD)
qed

section \<open>The rate of requests\<close>



end
