(* ===== verification/Demo_App.thy ===== *)
theory Demo_App
  imports Agent_Lifecycle Json_Canonical
begin

text \<open>
  The two example programs. \<^verbatim>\<open>src/examples/demo_app/src/main.rs\<close> is a small HTTP service around an agent: it
  reads the head of a request byte by byte, routes on method and path, and answers with a hand-written
  response. \<^verbatim>\<open>src/examples/basic_usage/src/main.rs\<close> starts an agent, sends one event and stops it. The
  environment variables are a function, a connection is the sequence of the bytes it delivers, and
  \<open>other\<close> is what the rest of the program does during a wait.
\<close>

section \<open>Configuration\<close>

definition DEMO_EVENT_TYPE :: string where
  "DEMO_EVENT_TYPE = ''custom_request_check''"

definition env_var :: "(string \<Rightarrow> string option) \<Rightarrow> string \<Rightarrow> string option" where
  "env_var vars name = (case vars name of Some v \<Rightarrow> if v \<noteq> [] then Some v else None | None \<Rightarrow> None)"

definition env_or :: "(string \<Rightarrow> string option) \<Rightarrow> string \<Rightarrow> string \<Rightarrow> string" where
  "env_or vars key fallback = (case env_var vars key of Some v \<Rightarrow> v | None \<Rightarrow> fallback)"

definition build_test_event :: "Uuid \<Rightarrow> DateTime \<Rightarrow> SecurityEvent" where
  "build_test_event uuid now =
     (event_new uuid now DEMO_EVENT_TYPE)
       \<lparr> ev_ip_address := ''192.168.1.100'', ev_endpoint := Some ''/demo/test-event'', ev_method := Some ''POST'',
         ev_action_taken := ''logged'', ev_reason := ''Guard Agent demo container test event'' \<rparr>"

definition demo_endpoint :: "(string \<Rightarrow> string option) \<Rightarrow> string" where
  "demo_endpoint vars = env_or vars ''GUARD_AGENT_ENDPOINT'' ''https://api.guard-core.com''"

definition demo_project_id :: "(string \<Rightarrow> string option) \<Rightarrow> string" where
  "demo_project_id vars = env_or vars ''GUARD_AGENT_PROJECT_ID'' ''demo-project''"

definition demo_config :: "(string \<Rightarrow> string option) \<Rightarrow> AgentConfig option" where
  "demo_config vars =
     (case env_var vars ''GUARD_AGENT_API_KEY'' of
        None \<Rightarrow> None
      | Some key \<Rightarrow>
          Some ((config_new key)
            \<lparr> endpoint := demo_endpoint vars, project_id := Some (demo_project_id vars), buffer_size := 10,
              flush_interval := 5, guard_version := Some ''demo'' \<rparr>))"

section \<open>Reading a request\<close>

text \<open>The loop over the connection: byte \<open>i\<close> is \<^const>\<open>None\<close> when the read fails. The head is complete at the
  first blank line and given up when it is longer than 16 KiB.\<close>

definition blank_line :: string where
  "blank_line = [CHR 0x0D, CHR 0x0A, CHR 0x0D, CHR 0x0A]"

lemma length_le_utf8_len: "length s \<le> utf8_len s"
  by (induction s) (simp_all add: utf8_len_def)

lemma utf8_len_le: "utf8_len s \<le> 2 * length s"
  by (induction s) (simp_all add: utf8_len_def)

function read_head :: "(nat \<Rightarrow> u8 option) \<Rightarrow> nat \<Rightarrow> string \<Rightarrow> string option" where
  "read_head stream i head =
     (case stream i of
        None \<Rightarrow> None
      | Some byte \<Rightarrow>
          (let head' = head @ [char_of (unat byte)]
           in if suffix blank_line head' then Some head'
              else if 16 * 1024 < utf8_len head' then None
              else read_head stream (i + 1) head'))"
  by pat_completeness auto

termination
proof (relation "measure (\<lambda>(stream, i, head). 16 * 1024 + 1 - length head)", goal_cases)
  case (2 stream i head byte head')
  then show ?case using length_le_utf8_len [of head'] by simp
qed simp

declare read_head.simps [simp del]

record Request =
  rq_method :: string
  rq_path :: string

text \<open>\<^verbatim>\<open>lines().next()\<close>: up to the first line feed, without the carriage return before it.\<close>

definition first_line :: "string \<Rightarrow> string option" where
  "first_line s =
     (if s = [] then None
      else let l = takeWhile (\<lambda>c. c \<noteq> CHR 0x0A) s
           in Some (if l \<noteq> s \<and> l \<noteq> [] \<and> last l = CHR 0x0D then butlast l else l))"

definition parse_request :: "string \<Rightarrow> Request option" where
  "parse_request head =
     (case first_line head of
        None \<Rightarrow> None
      | Some line \<Rightarrow>
          (case split_whitespace line of
             m # p # _ \<Rightarrow> Some \<lparr> rq_method = m, rq_path = takeWhile (\<lambda>c. c \<noteq> CHR ''?'') p \<rparr>
           | _ \<Rightarrow> None))"

section \<open>Responses\<close>

definition crlf :: string where
  "crlf = [CHR 0x0D, CHR 0x0A]"

definition dquote :: string where
  "dquote = [CHR 0x22]"

definition http_ok :: "string \<Rightarrow> string" where
  "http_ok body =
     ''HTTP/1.1 200 OK'' @ crlf @ ''Content-Type: application/json'' @ crlf @ ''Content-Length: '' @ show_nat (utf8_len body) @ crlf @
     ''Connection: close'' @ crlf @ crlf @ body"

definition http_method_not_allowed :: string where
  "http_method_not_allowed =
     ''HTTP/1.1 405 Method Not Allowed'' @ crlf @ ''Content-Type: application/json'' @ crlf @ ''Content-Length: 24'' @ crlf @
     ''Connection: close'' @ crlf @ crlf @
     ''{'' @ dquote @ ''error'' @ dquote @ '':'' @ dquote @ ''POST only'' @ dquote @ ''}'' @ [CHR 0x0A]"

text \<open>\<^verbatim>\<open>{"k1":"v1",...}\<close> and a line feed, the values as they are.\<close>

definition json_line :: "(string \<times> string) list \<Rightarrow> string" where
  "json_line kvs =
     ''{'' @ join '','' (map (\<lambda>(k, v). dquote @ k @ dquote @ '':'' @ dquote @ v @ dquote) kvs) @ ''}'' @ [CHR 0x0A]"

fun health_name :: "AgentHealth \<Rightarrow> string" where
  "health_name Healthy = ''healthy''"
| "health_name Degraded = ''degraded''"
| "health_name HealthFailed = ''failed''"

text \<open>The test event draws its identifier and its time.\<close>

definition emit_test_event ::
  "externals \<Rightarrow> (nat \<Rightarrow> 'st astate \<Rightarrow> 'st astate) \<Rightarrow> nat \<Rightarrow> 'st astate \<Rightarrow> 'st astate option" where
  "emit_test_event ext other n s =
     (let (sh, w) = s; (uuid, w1) = draw_uuid ext w
      in send_event ext other n (build_test_event uuid (utc_now ext w1)) (sh, w1))"

definition handle ::
  "externals \<Rightarrow> (nat \<Rightarrow> 'st astate \<Rightarrow> 'st astate) \<Rightarrow> nat \<Rightarrow> string \<Rightarrow> string \<Rightarrow> Request \<Rightarrow> 'st astate \<Rightarrow>
   (string \<times> 'st astate) option" where
  "handle ext other n ep pid request s =
     (let m = rq_method request; p = rq_path request
      in if m = ''GET'' \<and> p = ''/'' then
           Some (http_ok (json_line [(''service'', ''guard-agent-demo''), (''endpoint'', ep), (''project_id'', pid)]), s)
         else if m = ''GET'' \<and> p = ''/health'' then
           Some (http_ok (json_line [(''status'', health_name (st_status (get_status ext s)))]), s)
         else if m = ''POST'' \<and> p = ''/events'' then
           map_option (\<lambda>s'. (http_ok (json_line [(''emitted'', DEMO_EVENT_TYPE)]), s')) (emit_test_event ext other n s)
         else if (m = ''POST'' \<and> (p = ''/'' \<or> p = ''/health'')) \<or> (m = ''GET'' \<and> p = ''/events'') then
           Some (http_method_not_allowed, s)
         else Some (http_ok (''{'' @ dquote @ ''error'' @ dquote @ '':'' @ dquote @ ''not found'' @ dquote @ ''}'' @ [CHR 0x0A]), s))"

text \<open>One accepted connection: the response written to it, if any.\<close>

definition serve_connection ::
  "externals \<Rightarrow> (nat \<Rightarrow> 'st astate \<Rightarrow> 'st astate) \<Rightarrow> nat \<Rightarrow> string \<Rightarrow> string \<Rightarrow> (nat \<Rightarrow> u8 option) \<Rightarrow> 'st astate \<Rightarrow>
   (string option \<times> 'st astate) option" where
  "serve_connection ext other n ep pid stream s =
     (case read_head stream 0 [] of
        None \<Rightarrow> Some (None, s)
      | Some head \<Rightarrow>
          (case parse_request head of
             None \<Rightarrow> Some (None, s)
           | Some request \<Rightarrow>
               map_option (\<lambda>(response, s'). (Some response, s')) (handle ext other n ep pid request s)))"

section \<open>Starting\<close>

text \<open>\<^verbatim>\<open>main\<close> up to the accept loop: without a key or with a configuration the agent rejects it ends
  (\<^const>\<open>Inl\<close>); otherwise the agent is started and the test event is sent.\<close>

definition demo_boot ::
  "externals \<Rightarrow> 'fs FileSystem \<Rightarrow> path option \<Rightarrow> (RedisConfig \<Rightarrow> GuardAgentError + 'st RedisHandler) \<Rightarrow>
   (nat \<Rightarrow> 'st astate \<Rightarrow> 'st astate) \<Rightarrow> nat \<Rightarrow> (string \<Rightarrow> string option) \<Rightarrow> 'fs \<Rightarrow> 'st World \<Rightarrow>
   (GuardAgentError option + 'st astate option) \<times> 'fs" where
  "demo_boot ext fso home_dir connect other n vars fs w =
     (case demo_config vars of
        None \<Rightarrow> (Inl None, fs)
      | Some cfg \<Rightarrow>
          (case agent_new ext fso home_dir cfg fs w of
             (Inl e, fs1, w1) \<Rightarrow> (Inl (Some e), fs1)
           | (Inr sh, fs1, w1) \<Rightarrow>
               (let (a, w2) = start ext connect \<lparr>shared = sh, loops = False\<rparr> w1
                in (Inr (emit_test_event ext other n (shared a, w2)), fs1))))"

section \<open>The basic example\<close>

definition DEMO_ENDPOINT :: string where
  "DEMO_ENDPOINT = ''/search''"

definition block_event ::
  "Uuid \<Rightarrow> DateTime \<Rightarrow> string \<Rightarrow> string \<Rightarrow> string \<Rightarrow> string \<Rightarrow> u16 \<Rightarrow> SecurityEvent" where
  "block_event uuid now ip_address ep m reason status_code =
     (event_new uuid now ''suspicious_request'')
       \<lparr> ev_ip_address := ip_address, ev_endpoint := Some ep, ev_method := Some m, ev_action_taken := ''BLOCKED'',
         ev_reason := reason, ev_status_code := Some status_code \<rparr>"

definition basic_config :: "(string \<Rightarrow> string option) \<Rightarrow> AgentConfig option" where
  "basic_config vars =
     (case env_var vars ''GUARD_AGENT_API_KEY'' of
        None \<Rightarrow> None
      | Some key \<Rightarrow>
          (let c = config_new key;
               c1 = (case env_var vars ''GUARD_AGENT_ENDPOINT'' of Some ep \<Rightarrow> c\<lparr>endpoint := ep\<rparr> | None \<Rightarrow> c)
           in Some (c1\<lparr>project_id := env_var vars ''GUARD_AGENT_PROJECT_ID'',
                       payload_signing_secret := env_var vars ''GUARD_AGENT_SIGNING_SECRET'',
                       guard_version := Some ''example'', guard_core_version := Some ''guard-core-rs 0.0.1''\<rparr>)))"

text \<open>The whole of \<^verbatim>\<open>main\<close>; \<open>idle\<close> is what happens until the shutdown signal. The result has the health
  and the statistics it logs, and the stopped agent.\<close>

definition basic_usage_main ::
  "externals \<Rightarrow> 'fs FileSystem \<Rightarrow> path option \<Rightarrow> (RedisConfig \<Rightarrow> GuardAgentError + 'st RedisHandler) \<Rightarrow>
   (nat \<Rightarrow> 'st astate \<Rightarrow> 'st astate) \<Rightarrow> nat \<Rightarrow> ('st astate \<Rightarrow> 'st astate) \<Rightarrow> (string \<Rightarrow> string option) \<Rightarrow> 'fs \<Rightarrow> 'st World \<Rightarrow>
   (GuardAgentError option + (bool \<times> AgentStats \<times> 'st GuardAgent \<times> 'st World) option) \<times> 'fs" where
  "basic_usage_main ext fso home_dir connect other n idle vars fs w =
     (case basic_config vars of
        None \<Rightarrow> (Inl None, fs)
      | Some cfg \<Rightarrow>
          (case agent_new ext fso home_dir cfg fs w of
             (Inl e, fs1, w1) \<Rightarrow> (Inl (Some e), fs1)
           | (Inr sh, fs1, w1) \<Rightarrow>
               (let (a, w2) = start ext connect \<lparr>shared = sh, loops = False\<rparr> w1;
                    (uuid, w3) = draw_uuid ext w2;
                    event = block_event uuid (utc_now ext w3) ''203.0.113.9'' DEMO_ENDPOINT ''GET''
                              ''suspicious content detected in query parameter'' 403
                in (Inr (case send_event ext other n event (shared a, w3) of
                           None \<Rightarrow> None
                         | Some s \<Rightarrow>
                             (let (sh4, w4) = idle s; (a5, w5) = stop ext (other 0) (a\<lparr>shared := sh4\<rparr>) w4
                              in Some (health_check s, get_stats ext s, a5, w5))), fs1))))"

section \<open>What the loop over the head does\<close>

text \<open>The first \<open>n\<close> bytes of a connection as characters.\<close>

definition received :: "(nat \<Rightarrow> u8 option) \<Rightarrow> nat \<Rightarrow> string" where
  "received stream n = map (\<lambda>k. char_of (unat (the (stream k)))) [0..<n]"

lemma received_simps [simp]: "received stream 0 = []" "length (received stream n) = n"
  "received stream (Suc n) = received stream n @ [char_of (unat (the (stream n)))]"
  by (simp_all add: received_def)

text \<open>The head may go on after \<open>m\<close> bytes: they have arrived, without a blank line, within the limit.\<close>

definition head_open :: "(nat \<Rightarrow> u8 option) \<Rightarrow> nat \<Rightarrow> bool" where
  "head_open stream m \<longleftrightarrow> \<not> suffix blank_line (received stream m) \<and> utf8_len (received stream m) \<le> 16 * 1024"

text \<open>The head \<open>h\<close> is complete after \<open>n\<close> bytes for a reader that is at byte \<open>i\<close>.\<close>

definition head_at :: "(nat \<Rightarrow> u8 option) \<Rightarrow> nat \<Rightarrow> nat \<Rightarrow> string \<Rightarrow> bool" where
  "head_at stream i n h \<longleftrightarrow> i < n \<and> h = received stream n \<and> (\<forall>k. i \<le> k \<and> k < n \<longrightarrow> stream k \<noteq> None) \<and>
     suffix blank_line h \<and> (\<forall>m. i < m \<and> m < n \<longrightarrow> head_open stream m)"

lemma head_at_step:
  assumes "stream i = Some b"
  shows "head_open stream (Suc i) \<Longrightarrow> head_at stream i n h \<longleftrightarrow> head_at stream (Suc i) n h"
    and "\<not> head_open stream (Suc i) \<Longrightarrow> head_at stream i n h \<longleftrightarrow> n = Suc i \<and> h = received stream n \<and> suffix blank_line h"
proof -
  have k: "i \<le> k \<longleftrightarrow> k = i \<or> Suc i \<le> k" and m: "i < k \<longleftrightarrow> k = Suc i \<or> Suc i < k" for k by linarith+
  have some: "(\<forall>k. i \<le> k \<and> k < n \<longrightarrow> stream k \<noteq> None) \<longleftrightarrow> (\<forall>k. Suc i \<le> k \<and> k < n \<longrightarrow> stream k \<noteq> None)"
    using assms k by auto
  assume o: "head_open stream (Suc i)"
  have opens: "(\<forall>m. i < m \<and> m < n \<longrightarrow> head_open stream m) \<longleftrightarrow> (\<forall>m. Suc i < m \<and> m < n \<longrightarrow> head_open stream m)"
    using o m by auto
  have nb: "\<not> suffix blank_line (received stream (Suc i))" using o unfolding head_open_def by blast
  have "i < n \<longleftrightarrow> Suc i < n" if "h = received stream n" "suffix blank_line h"
    using nb that by (metis Suc_lessD Suc_lessI)
  then show "head_at stream i n h \<longleftrightarrow> head_at stream (Suc i) n h"
    unfolding head_at_def some opens by blast
next
  have m: "i < k \<longleftrightarrow> k = Suc i \<or> Suc i < k" for k by linarith
  assume no: "\<not> head_open stream (Suc i)"
  then have "n = Suc i" if "head_at stream i n h" for n
    using that m unfolding head_at_def by metis
  moreover have "head_at stream i (Suc i) (received stream (Suc i))" if "suffix blank_line (received stream (Suc i))"
    using that assms unfolding head_at_def by (auto simp: le_less_Suc_eq simp del: received_simps)
  ultimately show "head_at stream i n h \<longleftrightarrow> n = Suc i \<and> h = received stream n \<and> suffix blank_line h"
    unfolding head_at_def [of stream i n h] by (metis head_at_def)
qed

lemma read_head_from:
  "head = received stream i \<Longrightarrow> read_head stream i head = Some h \<longleftrightarrow> (\<exists>n. head_at stream i n h)"
proof (induction stream i head rule: read_head.induct)
  case (1 stream i head)
  show ?case
  proof (cases "stream i")
    case None
    then have "\<not> head_at stream i n h" for n unfolding head_at_def by blast
    with None show ?thesis by (subst read_head.simps) simp
  next
    case (Some b)
    define head' where "head' = head @ [char_of (unat b)]"
    have h': "head' = received stream (Suc i)" using 1(2) Some by (simp add: head'_def)
    have step: "read_head stream i head =
        (if suffix blank_line head' then Some head' else if 16 * 1024 < utf8_len head' then None else read_head stream (i + 1) head')"
      by (subst read_head.simps) (simp only: Some option.case Let_def head'_def)
    show ?thesis
    proof (cases "head_open stream (Suc i)")
      case True
      then have nb: "\<not> suffix blank_line head'" "\<not> 16 * 1024 < utf8_len head'" unfolding head_open_def h' by linarith+
      have "read_head stream i head = read_head stream (i + 1) head'" using step nb by (simp only: if_False)
      moreover have "read_head stream (i + 1) head' = Some h \<longleftrightarrow> (\<exists>n. head_at stream (i + 1) n h)"
        by (rule 1(1) [OF Some head'_def nb]) (simp only: h' Suc_eq_plus1)
      ultimately show ?thesis using head_at_step(1) [OF Some True, of _ h] by simp
    next
      case False
      have "suffix blank_line head' \<or> 16 * 1024 < utf8_len head'" using False unfolding head_open_def h' by linarith
      then have "read_head stream i head = (if suffix blank_line head' then Some head' else None)"
        unfolding step by presburger
      then have "read_head stream i head = Some h \<longleftrightarrow> h = head' \<and> suffix blank_line h"
        by (metis option.inject option.distinct(1))
      moreover have "(\<exists>n. head_at stream i n h) \<longleftrightarrow> h = head' \<and> suffix blank_line h"
        unfolding head_at_step(2) [OF Some False] h' by blast
      ultimately show ?thesis by (simp only:)
    qed
  qed
qed

lemma read_head_iff:
  "read_head stream 0 [] = Some h \<longleftrightarrow>
     (\<exists>n. h = received stream n \<and> (\<forall>k < n. stream k \<noteq> None) \<and> suffix blank_line h \<and> (\<forall>m < n. head_open stream m))"
proof -
  have zero: "head_open stream 0" by (simp add: head_open_def blank_line_def utf8_len_def)
  have pos: "suffix blank_line (received stream n) \<Longrightarrow> 0 < n" for n by (cases n) (auto simp: blank_line_def)
  have opens: "(\<forall>m. 0 < m \<and> m < n \<longrightarrow> head_open stream m) \<longleftrightarrow> (\<forall>m < n. head_open stream m)" for n
    using zero by (metis gr0I)
  have "read_head stream 0 [] = Some h \<longleftrightarrow> (\<exists>n. head_at stream 0 n h)" by (rule read_head_from) simp
  moreover have "head_at stream 0 n h \<longleftrightarrow>
      h = received stream n \<and> (\<forall>k < n. stream k \<noteq> None) \<and> suffix blank_line h \<and> (\<forall>m < n. head_open stream m)" for n
    unfolding head_at_def opens using pos [of n] by (cases "h = received stream n") (simp_all only: le0 simp_thms, blast)
  ultimately show ?thesis by (simp only:)
qed

lemma head_open_length: "head_open stream m \<Longrightarrow> m \<le> 16 * 1024"
  using length_le_utf8_len [of "received stream m"] by (simp add: head_open_def)

text \<open>The loop looks at the first 16385 bytes at most.\<close>

lemma received_cong: "(\<And>k. k < n \<Longrightarrow> s1 k = s2 k) \<Longrightarrow> received s1 n = received s2 n"
  by (simp add: received_def)

lemma read_head_local:
  assumes "\<And>k. k \<le> 16 * 1024 \<Longrightarrow> s1 k = s2 k" "read_head s1 0 [] = Some h"
  shows "read_head s2 0 [] = Some h"
proof -
  obtain n where n: "h = received s1 n" "\<forall>k < n. s1 k \<noteq> None" "suffix blank_line h" "\<forall>m < n. head_open s1 m"
    using assms(2) unfolding read_head_iff by blast
  have len: "k \<le> 16 * 1024" if "k < n" for k using head_open_length n(4) that by blast
  have eq: "received s2 m = received s1 m" if "m \<le> n" for m using that len assms(1) by (intro received_cong) simp
  show ?thesis unfolding read_head_iff
    using n eq len assms(1) by (intro exI [of _ n]) (auto simp: head_open_def)
qed

section \<open>The framing of a response\<close>

text \<open>What a client reads: the number after \<^verbatim>\<open>Content-Length:\<close>, and everything behind the first blank line.\<close>

fun after :: "string \<Rightarrow> string \<Rightarrow> string option" where
  "after needle s =
     (if prefix needle s then Some (drop (length needle) s)
      else case s of [] \<Rightarrow> None | c # s' \<Rightarrow> after needle s')"

declare after.simps [simp del]

definition read_decimal :: "string \<Rightarrow> nat" where
  "read_decimal s = foldl (\<lambda>n c. 10 * n + (of_char c - 48)) 0 (takeWhile is_digit s)"

definition declared_length :: "string \<Rightarrow> nat option" where
  "declared_length response = map_option read_decimal (after ''Content-Length: '' response)"

definition response_body :: "string \<Rightarrow> string option" where
  "response_body response = after blank_line response"

lemma foldl_show_nat: "foldl (\<lambda>n c. 10 * n + (of_char c - 48)) 0 (show_nat n) = n"
proof (induction n rule: less_induct)
  case (less n)
  have d: "(of_char (digit_char k) :: nat) - 48 = k" if "k < 10" for k using that by (simp add: of_char_digit_char)
  show ?case
  proof (cases "n < 10")
    case True
    then show ?thesis using d by (simp add: show_base.simps [of 10 n])
  next
    case False
    then show ?thesis using less [of "n div 10"] d [of "n mod 10"] by (simp add: show_base.simps [of 10 n])
  qed
qed

lemma read_decimal_show_nat: "\<not> is_digit c \<Longrightarrow> read_decimal (show_nat n @ c # s) = n"
  using show_nat_digits [of n] by (simp add: read_decimal_def takeWhile_append list_all_iff foldl_show_nat)

lemma after_here: "after needle (needle @ s) = Some s"
  by (subst after.simps) simp

lemma after_skip: "\<not> prefix needle (c # s) \<Longrightarrow> after needle (c # s) = after needle s"
  by (subst after.simps) simp

text \<open>Text without the first character of what is sought is passed over.\<close>

lemma after_pass: "c \<notin> set s \<Longrightarrow> after (c # needle) (s @ t) = after (c # needle) t"
  by (induction s) (auto simp: after_skip)

text \<open>So is a line end that is not followed by another one.\<close>

lemma after_line:
  assumes "CHR 0x0D \<notin> set l" "c \<noteq> CHR 0x0D"
  shows "after blank_line (l @ crlf @ c # s) = after blank_line (c # s)"
proof -
  have "after blank_line (l @ crlf @ c # s) = after blank_line (crlf @ c # s)"
    using after_pass [OF assms(1)] by (simp add: blank_line_def)
  also have "\<dots> = after blank_line (c # s)" using assms(2) by (simp add: crlf_def blank_line_def after_skip)
  finally show ?thesis .
qed

lemma after_end:
  assumes "CHR 0x0D \<notin> set l"
  shows "after blank_line (l @ crlf @ crlf @ s) = Some s"
proof -
  have "after blank_line (l @ crlf @ crlf @ s) = after blank_line (crlf @ crlf @ s)"
    using after_pass [OF assms] by (simp add: blank_line_def)
  then show ?thesis using after_here [of blank_line s] by (simp add: crlf_def blank_line_def)
qed

text \<open>The three header lines the two responses share.\<close>

lemma headers_length:
  assumes "CHR ''C'' \<notin> set status"
  shows "declared_length (status @ crlf @ ''Content-Type: application/json'' @ crlf @ ''Content-Length: '' @ show_nat n @ crlf @ s) = Some n"
proof -
  let ?needle = "''Content-Length: ''" and ?rest = "show_nat n @ crlf @ s"
  have "CHR ''C'' \<notin> set (status @ crlf)" using assms by (simp add: crlf_def)
  then have "after ?needle ((status @ crlf) @ ''Content-Type: application/json'' @ crlf @ ?needle @ ?rest) =
      after ?needle (''Content-Type: application/json'' @ crlf @ ?needle @ ?rest)" by (rule after_pass)
  also have "\<dots> = after ?needle ((''ontent-Type: application/json'' @ crlf) @ ?needle @ ?rest)"
    by (simp add: after_skip)
  also have "\<dots> = after ?needle (?needle @ ?rest)" by (rule after_pass) (simp add: crlf_def)
  also have "\<dots> = Some ?rest" by (rule after_here)
  finally have "after ?needle (status @ crlf @ ''Content-Type: application/json'' @ crlf @ ?needle @ ?rest) = Some ?rest"
    by (simp only: append_assoc)
  moreover have "\<not> is_digit (CHR 0x0D)" by (simp add: is_digit_def)
  ultimately show ?thesis by (simp add: declared_length_def crlf_def read_decimal_show_nat)
qed

lemma headers_body:
  assumes "CHR 0x0D \<notin> set status"
  shows "response_body (status @ crlf @ ''Content-Type: application/json'' @ crlf @ (''Content-Length: '' @ show_nat n) @ crlf @
    ''Connection: close'' @ crlf @ crlf @ s) = Some s"
proof -
  have "\<not> is_digit (CHR 0x0D)" by (simp add: is_digit_def)
  then have no: "CHR 0x0D \<notin> set (''Content-Length: '' @ show_nat n)" using show_nat_digits [of n] by (auto simp: list_all_iff)
  show ?thesis
    using after_line [OF assms, of "CHR ''C''"] after_line [of "''Content-Type: application/json''" "CHR ''C''"]
      after_line [OF no, of "CHR ''C''"] after_end [of "''Connection: close''" s]
    by (simp add: response_body_def)
qed

lemma http_ok_framed: "declared_length (http_ok body) = Some (utf8_len body)" "response_body (http_ok body) = Some body"
  using headers_length [of "''HTTP/1.1 200 OK''" "utf8_len body" "''Connection: close'' @ crlf @ crlf @ body"]
    headers_body [of "''HTTP/1.1 200 OK''" "utf8_len body" body]
  by (simp_all add: http_ok_def)

lemma refusal_framed: "declared_length http_method_not_allowed = Some 24" "map_option utf8_len (response_body http_method_not_allowed) = Some 22"
proof -
  let ?body = "''{'' @ dquote @ ''error'' @ dquote @ '':'' @ dquote @ ''POST only'' @ dquote @ ''}'' @ [CHR 0x0A]"
  have n: "show_nat 24 = ''24''" by code_simp
  show "declared_length http_method_not_allowed = Some 24"
    using headers_length [of "''HTTP/1.1 405 Method Not Allowed''" 24 "''Connection: close'' @ crlf @ crlf @ ?body"] n
    by (simp add: http_method_not_allowed_def)
  have "utf8_len ?body = 22" by code_simp
  then show "map_option utf8_len (response_body http_method_not_allowed) = Some 22"
    using headers_body [of "''HTTP/1.1 405 Method Not Allowed''" 24 ?body] n
    by (simp add: http_method_not_allowed_def)
qed

text \<open>The requests the service refuses.\<close>

definition refused_request :: "Request \<Rightarrow> bool" where
  "refused_request rq \<longleftrightarrow> (rq_method rq = ''POST'' \<and> (rq_path rq = ''/'' \<or> rq_path rq = ''/health'')) \<or>
     (rq_method rq = ''GET'' \<and> rq_path rq = ''/events'')"

lemma handle_cases:
  assumes "handle ext other n ep pid rq s = Some (r, s')"
  shows "if refused_request rq then r = http_method_not_allowed \<and> s' = s else \<exists>body. r = http_ok body"
proof -
  let ?G = "rq_method rq = ''GET''" and ?P = "rq_method rq = ''POST''"
  consider "?G" "rq_path rq = ''/''" | "?G" "rq_path rq = ''/health''" | "?P" "rq_path rq = ''/events''" | "refused_request rq"
    | "\<not> refused_request rq" "\<not> (?G \<and> rq_path rq = ''/'')" "\<not> (?G \<and> rq_path rq = ''/health'')" "\<not> (?P \<and> rq_path rq = ''/events'')"
    unfolding refused_request_def by argo
  then show ?thesis using assms by cases (auto simp: handle_def refused_request_def Let_def split: if_splits)
qed

lemma handle_framing:
  assumes "handle ext other n ep pid rq s = Some (r, s')"
  shows "(declared_length r = map_option utf8_len (response_body r)) \<longleftrightarrow> \<not> refused_request rq"
  using handle_cases [OF assms] http_ok_framed refusal_framed by (auto split: if_splits)

end
