(* ===== verification/Demo_Theorems.thy ===== *)
theory Demo_Theorems
  imports Demo_App Sample_World
begin

text \<open>
  The properties of the example service: reading the head of a request, and the framing of its responses.
\<close>

section \<open>Reading\<close>

text \<open>Reading the head of a request ends on every connection, a fast, a silent or an endless one: only
  the first 16385 bytes can matter. It succeeds exactly when they all arrive up to the first blank line
  and the text before has never been longer than 16 KiB, and then it is the text up to that line.\<close>

theorem demo_head_terminates:
  assumes "\<And>k. k \<le> 16 * 1024 \<Longrightarrow> stream k = stream' k"
  shows "read_head stream 0 [] = read_head stream' 0 [] \<and>
    (read_head stream 0 [] = Some h \<longleftrightarrow>
       (\<exists>n. h = received stream n \<and> (\<forall>k < n. stream k \<noteq> None) \<and> suffix blank_line h \<and>
          (\<forall>m < n. \<not> suffix blank_line (received stream m) \<and> utf8_len (received stream m) \<le> 16 * 1024)))"
proof -
  have "read_head stream 0 [] = Some x \<longleftrightarrow> read_head stream' 0 [] = Some x" for x
    using read_head_local [of stream stream' x] read_head_local [of stream' stream x] assms by metis
  then have "read_head stream 0 [] = read_head stream' 0 []" by (metis option.exhaust)
  then show ?thesis using read_head_iff [of stream h] by (simp only: head_open_def)
qed

theorem demo_head_terminates_witness:
  "read_head (\<lambda>k. Some (if even k then 13 else 10)) 0 [] = Some blank_line \<and>
   read_head (\<lambda>k. if k \<le> 20000 then Some (if even k then 13 else 10) else None) 0 [] = Some blank_line"
proof -
  let ?stream = "\<lambda>k. Some (if even k then 13 else 10)"
  have four: "received ?stream 4 = blank_line"
  proof -
    have "[0..<4] = [0, 1, 2, 3 :: nat]" by code_simp
    moreover have "char_of (unat (13 :: u8)) = CHR 0x0D" "char_of (unat (10 :: u8)) = CHR 0x0A" by code_simp+
    ultimately show ?thesis by (simp only: received_def blank_line_def list.map option.sel) simp
  qed
  have "head_open ?stream m" if "m < 4" for m
  proof -
    have "\<not> suffix blank_line (received ?stream m)"
      using suffix_length_le [of blank_line "received ?stream m"] that by (auto simp: blank_line_def simp del: received_simps(3))
    moreover have "utf8_len (received ?stream m) \<le> 2 * length (received ?stream m)" by (rule utf8_len_le)
    ultimately show ?thesis using that by (simp add: head_open_def)
  qed
  then have "read_head ?stream 0 [] = Some blank_line"
    unfolding read_head_iff using four by (intro exI [of _ 4]) simp
  with demo_head_terminates [of "\<lambda>k. Some (if even k then 13 else 10)"
      "\<lambda>k. if k \<le> 20000 then Some (if even k then 13 else 10) else None" blank_line]
  show ?thesis by simp
qed

section \<open>Answering\<close>

text \<open>C39: The length a response declares is the length of its body, except for a refused request, whose
  response declares 24 bytes and has 22; a refused request leaves the agent alone.\<close>

theorem demo_response_framing:
  assumes "handle ext other n ep pid rq s = Some (r, s')"
  shows "if refused_request rq
         then declared_length r = Some 24 \<and> map_option utf8_len (response_body r) = Some 22 \<and> s' = s
         else \<exists>body. response_body r = Some body \<and> declared_length r = Some (utf8_len body)"
  using handle_cases [OF assms] http_ok_framed refusal_framed by (auto split: if_splits)

theorem demo_response_framing_witness:
  "declared_length http_method_not_allowed = Some 24 \<and>
   (\<exists>r. handle sample_ext (\<lambda>_ s. s) 1 ''e'' ''p'' \<lparr>rq_method = ''POST'', rq_path = ''/''\<rparr> (sample_shared, sample_world ()) =
      Some (r, (sample_shared, sample_world ())) \<and> declared_length r = Some 24)"
proof -
  have h: "handle sample_ext (\<lambda>_ s. s) 1 ''e'' ''p'' \<lparr>rq_method = ''POST'', rq_path = ''/''\<rparr> (sample_shared, sample_world ()) =
      Some (http_method_not_allowed, (sample_shared, sample_world ()))"
    by (simp add: handle_def)
  have "refused_request \<lparr>rq_method = ''POST'', rq_path = ''/''\<rparr>" by (simp add: refused_request_def)
  with demo_response_framing [OF h] h show ?thesis by simp
qed

end
