(* ===== verification/Spec2Isabelle.thy ===== *)
theory Spec2Isabelle
  imports Concurrency_Theorems Agent_Pace Demo_Theorems
begin

text \<open>
  The guard agent (\<^verbatim>\<open>src/src\<close>) is a telemetry client: an application hands it security events and metrics,
  it buffers them in memory and optionally in Redis, and background tasks deliver them in batches over
  HTTP to a collector, push the agent's status and poll dynamic rules. This development models the code
  of the crate that changes state or computes a result, and proves what makes it correct: nothing is lost
  silently, nothing sensitive or unencrypted leaves, requests stay within their limits, nothing panics.

  \<^bold>\<open>The parts and their theories.\<close>

  \<^item> \<open>Prelude\<close>: machine integers as words (\<open>u8\<close> to \<open>u64\<close>), \<^verbatim>\<open>usize\<close> lengths as naturals, instants and
    durations as naturals in nanoseconds, and the functions of the standard library the sources call.
    \<open>Float64\<close>: \<^verbatim>\<open>f64\<close> as exact rationals with the infinities and NaN, rounded to nearest even after each
    operation.
  \<^item> \<open>Errors\<close> (\<^verbatim>\<open>error.rs\<close>), \<open>Models\<close> (\<^verbatim>\<open>models.rs\<close>), \<open>Utils\<close> (\<^verbatim>\<open>utils.rs\<close>: backoff, \<^verbatim>\<open>Retry-After\<close>,
    redaction), \<open>Agent_Config\<close> (\<^verbatim>\<open>config.rs\<close>), \<open>Install_Id\<close> (\<^verbatim>\<open>install_id.rs\<close>), \<open>Signing\<close> (\<^verbatim>\<open>signing.rs\<close>),
    \<open>Json\<close>, \<open>Json_Canonical\<close> and \<open>Payload_Encryption\<close> (\<^verbatim>\<open>encryption.rs\<close>; \<open>Json_Reader\<close> is a reader of RFC 8259
    that the canonical text is checked against), \<open>Logging_Utils\<close> and \<open>Calendar\<close>
    (\<^verbatim>\<open>logging_utils.rs\<close>).
  \<^item> \<open>Rate_Limiter\<close> (\<^verbatim>\<open>rate_limiter.rs\<close>) and \<open>Circuit_Breaker\<close> (\<^verbatim>\<open>circuit_breaker.rs\<close>): the two guards in
    front of every request, with the clock reading as an argument.
  \<^item> \<open>Persistence\<close> (\<^verbatim>\<open>persistence.rs\<close>): the \<^verbatim>\<open>RedisHandler\<close> trait as a record of operations, the in-memory
    store, the client handler. The locale \<open>durable_store\<close> is the contract of a store; the in-memory store
    interprets it. \<open>Redis_Client\<close> derives the contract for the client handler from what the Redis commands
    promise (\<open>redis_server\<close>), and has a reference server that keeps the promise.
  \<^item> \<open>Environment\<close>: the world the code acts on (clock, store, log of requests with their times, calls of the
    error hook, whether a task has panicked) and the record of external functions.
  \<^item> \<open>Transport\<close> (\<^verbatim>\<open>transport.rs\<close>) with its proofs in \<open>Retry_Loop\<close>, \<open>Transport_Retry\<close> and
    \<open>Transport_Batch\<close>. The locale \<open>attempt_body\<close> states what one pass of a retry loop keeps; the POST and the
    GET loop interpret it for the requests they send, for the absence of panics and for the pace.
    \<open>Request_Tasks\<close> runs the two loops as concurrent tasks on one transport, with the clock reading, the lock
    of the limiter, the breaker and the wire as separate steps, and shows that each loop alone is such a
    run; \<open>Request_Rate\<close> has the invariant that bounds their requests.
  \<^item> \<open>Agent_State\<close>, \<open>Agent_Flush\<close> and \<open>Agent_Lifecycle\<close> (\<^verbatim>\<open>agent.rs\<close>): buffers, flushing, construction, status,
    rules, loops, start and stop. The locale \<open>telemetry_kind\<close> of \<open>Agent_Buffer\<close> is the contract shared by
    events and metrics, interpreted on both; \<open>Agent_Ledger\<close> has the interleavings of producers and whole
    flushes, \<open>Agent_Durability\<close> the restart (the locale \<open>agent_store\<close>), \<open>Agent_Safety\<close> the invariant of all
    operations, \<open>Agent_Pace\<close> the rate of requests, \<open>Agent_Redaction\<close> the content of the buffer,
    \<open>Agent_Transparency\<close> that producers do not see the store, \<open>Agent_Recovery\<close> what a flush does once an outage is
    over.
  \<^item> \<open>Flush_Tasks\<close> (\<^verbatim>\<open>agent.rs\<close> again) runs the flushes as concurrent tasks, from each of their three triggers, which
    take the permits of the flush semaphore themselves, one step per critical section, and interleaves them with the producers. \<open>Delivery_Spec\<close> is the
    abstract specification of what they do, \<open>Flush_Concurrency\<close> (the locale \<open>flush_machine\<close>, interpreted for
    both kinds) and \<open>Flush_System\<close> the refinement.
  \<^item> \<open>Bridge\<close> (\<^verbatim>\<open>bridge.rs\<close>): the telemetry sink of the engine. \<open>Demo_App\<close> (\<^verbatim>\<open>src/examples\<close>): the two example
    programs. \<open>Debug_Output\<close>: the \<^verbatim>\<open>Debug\<close> implementations.
  \<^item> \<open>Sample_World\<close>: the concrete instances the witnesses evaluate.

  \<^bold>\<open>How the code corresponds.\<close> A struct is a record with the source's field names (prefixed where two
  records share one), an enum a datatype, a method a function that takes and returns the record and, where
  it acts outside, the world; \<^verbatim>\<open>Result\<close> is a sum with the error on the left. Every early return is a branch.
  A panic sets \<open>panicked\<close> or is the value \<open>EnqPanic\<close>. Code of other crates (the HTTP client, Redis
  connections, AES-GCM, HMAC, SHA-256, gzip, base64, the serde serializers, random numbers, wall clock and
  scheduler delays) is a field of \<open>externals\<close>, of the store or of the file system; a property that
  relies on it names the assumption. The mutex of the core makes each critical section atomic; between two
  sections the rest of the program runs, which is either the argument \<open>other\<close> (waits of a producer or of a
  flush) or the steps of the relations \<open>system_step\<close>, \<open>ledger_step\<close> and \<open>agent_step\<close>. Strings are lists
  of 8-bit characters read as the code points 0 to 255; \<open>utf8_len\<close> gives their length in bytes.

  \<^bold>\<open>Loops and fuel.\<close> The retry loops are bounded by \<open>total_attempts\<close> in the source and recurse on the
  passes left. The split of an oversized batch recurses with a termination proof on the number of items.
  The enqueue loop may wait forever under the block policy: its fuel counts the passes, two are
  enough under the drop policy, one under the raise policy, and under the block policy one more than the
  waits it takes until there is room. A background loop is its tick; \<open>None\<close> leaves the loop. The demo's loop
  over the bytes of a request recurses with a termination proof on the room left below its limit.

  \<^bold>\<open>What is proved.\<close>

  \<^item> Delivery: the account of every event and metric under interleaving, delivery in order with one permit,
    the bound on batches in flight, the refinement of the abstract delivery; what a confirmed, rejected or
    failed flush means on the wire and leaves in the buffer and the store, durability across a restart with
    the in-memory store and with Redis; recovery from any outage by a later flush.
  \<^item> Transport: what each outcome says about the server's answers, bounds on requests, no request past an
    open breaker or an exhausted limiter, the rate of requests of all concurrent tasks together, no
    plaintext with an encryptor, no panic.
  \<^item> Buffers: the overflow policies against a bounded queue, the agent with a store against the one
    without, termination of a producer's call, isolation of the two kinds, the watermark, redaction before
    buffering, start and stop.
  \<^item> Components: limiter and breaker against their specifications, round trips of the store, of encryption
    and of the install identifier, canonical JSON as an identification of values, ranges of a validated
    configuration, the exact backoff, calendar dates, log strings, the bridge.
  \<^item> Five theorems state behaviour that differs from the intention: a half-open breaker admits every
    request, a start doubles what is still buffered and stored, a NaN watermark ratio is accepted and disables
    the trigger, the demo's refusal declares a length its body does not have, and the debug text of a configuration shows the password of the store.

  \<^bold>\<open>Not modelled.\<close> Log output; the serde derives (parameters); module
  declarations, re-exports and feature gates; the tests; sockets and signals of the examples. Scheduling is not modelled beyond
  the interleaving of critical sections: task handles, wake-ups of \<^verbatim>\<open>space_freed\<close> and fairness of the
  executor are left to \<open>other\<close>. A flush future dropped half-way by its owner, and \<^verbatim>\<open>clear_buffer\<close> or a reload
  during a flush, are not among the steps of \<open>system_step\<close>. \<^verbatim>\<open>GuardAgent::new\<close> panics when the capacity of a
  buffer or the number of permits exceeds what the standard library and the runtime accept; such sizes are
  outside \<open>agent_new\<close>. In \<open>Request_Tasks\<close> a sleep takes any time. The two zeros of \<^verbatim>\<open>f64\<close> are one value, so the
  canonical text of -0.0 is that of 0.0. Characters beyond code point 255 are not represented.
\<close>

section \<open>Delivery\<close>

text \<open>C2: A flush of plaintext events either leaves the buffer as it was or empties it, and it empties it
  only when the server has answered for every event: the events are the concatenation of parts such
  that a request carrying exactly that part was put on the wire during the flush and was accepted,
  rejected permanently, or, for a single event, refused as too large.\<close>

theorem flush_keeps_or_settles:
  assumes "encryptor (transport sh) = None" and "length (events (core sh)) \<le> buffer_size (config sh)"
    and "flush_events ext (sh, w) = (sh', w')"
  shows "events (core sh') = events (core sh) \<or>
         events (core sh') = [] \<and>
         (\<exists>chunks. concat (map batch_events chunks) = map item (events (core sh)) \<and>
            list_all (settled ext (transport sh) (length (wire w)) (wire w')) chunks)"
proof (cases "gate_closed (clock w) (events_retry_after (core sh)) \<or> events (core sh) = []")
  case True
  then show ?thesis using assms(3)
    by (cases "gate_closed (clock w) (events_retry_after (core sh))") (auto simp: flush_events_def drain_events_def drain_def Let_def)
next
  case False
  obtain out t w1 where b: "send_batch ext (Events (map item (events (core sh)))) (transport sh, w) = (out, t, w1)"
    by (metis prod_cases3)
  show ?thesis
  proof (cases "is_confirmed out")
    case True
    then have "events (core sh') = []" "wire w' = wire w1"
      using ev.flush_confirmed [of w sh ext out t w1] False b assms(3) by (auto simp: event_ops_def)
    with send_batch_chunks [OF assms(1) b True] show ?thesis by (metis batch_events.simps(1))
  next
    case False': False
    then obtain e where "out = Failed e" by (cases out) auto
    then show ?thesis using ev.flush_failed [of w sh ext e t w1] False b assms(2,3) by (auto simp: event_ops_def)
  qed
qed

theorem flush_keeps_or_settles_witness:
  "\<exists>chunks. events (core (fst (flush_events sample_ext (sample_shared, sample_world ())))) = [\<lparr> item = sample_event, redis_key = None \<rparr>] \<or>
     concat (map batch_events chunks) = [sample_event] \<and>
     list_all (settled sample_ext sample_transport 0 (wire (snd (flush_events sample_ext (sample_shared, sample_world ()))))) chunks"
proof -
  obtain sh' w' where f: "flush_events sample_ext (sample_shared :: unit Shared, sample_world ()) = (sh', w')" by (metis prod.exhaust)
  show ?thesis
    using flush_keeps_or_settles [OF _ _ f] f
    by (auto simp: sample_shared_def sample_core_def sample_transport_def sample_config_def config_new_def sample_world_def)
qed

section \<open>The rate of requests\<close>

text \<open>An agent whose operations run one after the other: the time of a request is then the reading the limiter
  was given, and in every window of 60 seconds there are at most 100 requests, batches, status pushes and
  rules polls together. \<^const>\<open>traffic_run\<close> has the loops interleaved.\<close>

theorem requests_per_window:
  assumes "agent_new ext fso home cfg fs w = (Inr sh, fs', w0)" and "wire w = []" and "sent_at w = []"
    and "agent_reachable ext (sh, w0) (sh', w')"
  shows "length (sent_at w') = length (wire w') \<and> length (filter (in_window t1 (from_secs 60)) (sent_at w')) \<le> 100"
proof -
  from assms(1) obtain c iid nonce where t: "transport_new ext c iid nonce = Inr (transport sh)" and w0: "wire w0 = wire w" "sent_at w0 = sent_at w"
    by (auto simp: agent_new_def draw_uuid_def draw_nonce_def Let_def split: prod.splits sum.splits)
  note rl = transport_new_Inr(2) [OF t]
  have "paced (transport sh, w0)" using rl w0 assms(2,3) tracks_new [of _ _ 0]
    by (auto simp: paced_def intro!: exI [of _ "[]"] exI [of _ "0 :: nat"])
  then have "agent_paced 100 (from_secs 60) (sh, w0)" using rl by (simp add: agent_paced_def limiter_new_def const_defs)
  then have p: "agent_paced 100 (from_secs 60) (sh', w')" by (rule agent_paced_reachable [OF assms(4)])
  then have "paced (transport sh', w')" by (simp add: agent_paced_def)
  from paced_window [OF this, of t1] this p show ?thesis by (simp add: agent_paced_def) (simp add: paced_def)
qed

theorem requests_per_window_witness:
  "\<exists>sh w0. agent_reachable sample_ext (sh :: unit Shared, w0) (do_flush sample_ext (sh, w0)) \<and>
     length (filter (in_window 0 (from_secs 60)) (sent_at (snd (do_flush sample_ext (sh, w0))))) \<le> 100"
proof -
  obtain sh fs' w0 where n: "agent_new sample_ext sample_fs None (sample_config\<lparr>endpoint := ''https://a.b/api/v1/'', high_watermark_ratio := Fin 1\<rparr>)
     None (sample_world ()) = (Inr sh, fs', w0)"
    using sample_agent_new by blast
  have r: "agent_reachable sample_ext (sh, w0) (do_flush sample_ext (sh, w0))"
    by (rule agent_reachable.further [OF agent_reachable.initial agent_step.flush])
  obtain sh' w' where d: "do_flush sample_ext (sh, w0) = (sh', w')" by (metis prod.exhaust)
  have "length (filter (in_window 0 (from_secs 60)) (sent_at w')) \<le> 100"
    using requests_per_window [OF n _ _ r [unfolded d], of 0] by (simp add: sample_world_def)
  with r d show ?thesis by (intro exI [of _ sh] exI [of _ w0]) simp
qed

end
